(* ===== verification/Prelude.thy ===== *)
theory Prelude
  imports Main "HOL-Library.Word" "HOL-Library.Sublist"
begin

text \<open>
  Shared vocabulary of the development: the \<open>Result\<close> type and its propagation, the machine
  integers the crates use, byte strings with Rust's UTF-8 decoding, decimal rendering, and the
  generic facts on lists that several components need.

  A Rust \<open>u32\<close> or \<open>u64\<close> is a word of that width; \<open>usize\<close> is \<^typ>\<open>nat\<close>, since in the
  sources it only counts elements and bytes that are in memory (a 64-bit target is assumed where
  a conversion to \<open>usize\<close> occurs). Both \<open>Vec<u8>\<close> and \<open>String\<close> are lists of
  \<^typ>\<open>char\<close>: HOL's \<^typ>\<open>char\<close> is one byte, so a \<open>String\<close> is the list of its UTF-8 bytes,
  \<open>len()\<close> is \<^const>\<open>length\<close> and \<open>as_bytes()\<close> is the identity.
\<close>

section \<open>Results\<close>

datatype ('a, 'e) result = Ok 'a | Err 'e

fun is_ok :: "('a, 'e) result \<Rightarrow> bool" where
  "is_ok (Ok _) = True"
| "is_ok (Err _) = False"

text \<open>\<open>and_then\<close> is the propagation that the \<open>?\<close> operator performs.\<close>

fun and_then :: "('a, 'e) result \<Rightarrow> ('a \<Rightarrow> ('b, 'e) result) \<Rightarrow> ('b, 'e) result" where
  "and_then (Ok x) f = f x"
| "and_then (Err e) f = Err e"

fun map_err :: "('e \<Rightarrow> 'f) \<Rightarrow> ('a, 'e) result \<Rightarrow> ('a, 'f) result" where
  "map_err f (Ok x) = Ok x"
| "map_err f (Err e) = Err (f e)"

text \<open>A \<open>for\<close> loop that runs a fallible check on every element and stops at the first error.\<close>

fun check_all :: "('a \<Rightarrow> (unit, 'e) result) \<Rightarrow> 'a list \<Rightarrow> (unit, 'e) result" where
  "check_all f [] = Ok ()"
| "check_all f (x # xs) = (case f x of Err e \<Rightarrow> Err e | Ok _ \<Rightarrow> check_all f xs)"

named_theorems result_simps \<open>inversion facts on results\<close>

lemma is_ok_iff [result_simps]: "is_ok r \<longleftrightarrow> (\<exists>x. r = Ok x)"
  by (cases r) auto

lemma and_then_Ok_iff [result_simps]: "and_then r f = Ok y \<longleftrightarrow> (\<exists>x. r = Ok x \<and> f x = Ok y)"
  by (cases r) auto

lemma and_then_Err_iff [result_simps]:
  "and_then r f = Err e \<longleftrightarrow> r = Err e \<or> (\<exists>x. r = Ok x \<and> f x = Err e)"
  by (cases r) auto

lemma map_err_Ok_iff [result_simps]: "map_err f r = Ok x \<longleftrightarrow> r = Ok x"
  by (cases r) auto

lemma check_all_Ok_iff [result_simps]:
  "check_all f xs = Ok u \<longleftrightarrow> (\<forall>x \<in> set xs. f x = Ok ())"
  by (induction xs) (auto split: result.splits)

lemma check_all_Err_D:
  "check_all f xs = Err e \<Longrightarrow> \<exists>x \<in> set xs. f x = Err e"
  by (induction xs) (auto split: result.splits)

lemma result_unit_cases [case_names Ok Err]:
  fixes r :: "(unit, 'e) result"
  obtains "r = Ok ()" | e where "r = Err e"
  by (cases r) auto


section \<open>Machine integers\<close>

type_synonym u32 = "32 word"
type_synonym u64 = "64 word"
type_synonym usize = nat

definition usize_max :: nat where
  "usize_max = 2 ^ 64 - 1"

definition saturating_add :: "'l::len word \<Rightarrow> 'l word \<Rightarrow> 'l word" where
  "saturating_add a b = (if unat a + unat b < 2 ^ LENGTH('l) then a + b else - 1)"

definition saturating_mul :: "'l::len word \<Rightarrow> 'l word \<Rightarrow> 'l word" where
  "saturating_mul a b = (if unat a * unat b < 2 ^ LENGTH('l) then a * b else - 1)"

definition checked_add :: "'l::len word \<Rightarrow> 'l word \<Rightarrow> 'l word option" where
  "checked_add a b = (if unat a + unat b < 2 ^ LENGTH('l) then Some (a + b) else None)"

definition saturating_add_usize :: "nat \<Rightarrow> nat \<Rightarrow> nat" where
  "saturating_add_usize a b = min (a + b) usize_max"

definition saturating_mul_usize :: "nat \<Rightarrow> nat \<Rightarrow> nat" where
  "saturating_mul_usize a b = min (a * b) usize_max"

lemma unat_minus_one_max: "unat (- 1 :: 'l::len word) = 2 ^ LENGTH('l) - 1"
  by (simp add: unsigned_minus_1_eq_mask mask_eq_exp_minus_1)

lemma unat_saturating_add:
  fixes a b :: "'l::len word"
  shows "unat (saturating_add a b) = min (unat a + unat b) (2 ^ LENGTH('l) - 1)"
  by (auto simp: saturating_add_def unat_minus_one_max unat_word_ariths)

lemma unat_saturating_mul:
  fixes a b :: "'l::len word"
  shows "unat (saturating_mul a b) = min (unat a * unat b) (2 ^ LENGTH('l) - 1)"
  by (auto simp: saturating_mul_def unat_minus_one_max unat_word_ariths)

lemma checked_add_Some_iff:
  fixes a b :: "'l::len word"
  shows "checked_add a b = Some c \<longleftrightarrow> unat c = unat a + unat b"
proof
  assume "checked_add a b = Some c"
  then show "unat c = unat a + unat b"
    by (auto simp: checked_add_def unat_word_ariths split: if_splits)
next
  assume c: "unat c = unat a + unat b"
  have "unat c < 2 ^ LENGTH('l)" by (rule unsigned_less)
  with c have "unat a + unat b < 2 ^ LENGTH('l)" by simp
  moreover from this have "unat (a + b) = unat a + unat b" by (simp add: unat_word_ariths)
  ultimately show "checked_add a b = Some c"
    using c by (simp add: checked_add_def word_unat_eq_iff)
qed

lemma checked_add_None_iff:
  fixes a b :: "'l::len word"
  shows "checked_add a b = None \<longleftrightarrow> 2 ^ LENGTH('l) \<le> unat a + unat b"
  by (simp add: checked_add_def not_less)

lemma unat_succ:
  fixes x :: "'l::len word"
  assumes "x \<noteq> - 1"
  shows "unat (x + 1) = Suc (unat x)"
proof -
  have "unat x \<noteq> 2 ^ LENGTH('l) - 1"
    using assms by (metis unat_minus_one_max word_unat_eq_iff)
  moreover have "unat x < 2 ^ LENGTH('l)" by (rule unsigned_less)
  ultimately have "Suc (unat x) < 2 ^ LENGTH('l)" by linarith
  then show ?thesis by (simp add: unat_word_ariths)
qed


section \<open>Lists searched by a key\<close>

text \<open>The sources keep most tables as vectors searched by one field.\<close>

lemma find_key_None_iff: "find (\<lambda>x. f x = k) xs = None \<longleftrightarrow> k \<notin> f ` set xs"
  by (induction xs) auto

lemma list_ex_key_iff: "list_ex (\<lambda>x. f x = k) xs \<longleftrightarrow> k \<in> f ` set xs"
  by (induction xs) auto

lemma find_key_Some: "find (\<lambda>x. f x = k) xs = Some x \<Longrightarrow> x \<in> set xs \<and> f x = k"
  by (induction xs) (auto split: if_splits)

lemma find_key_distinct:
  "distinct (map f xs) \<Longrightarrow> find (\<lambda>x. f x = k) xs = Some x \<longleftrightarrow> x \<in> set xs \<and> f x = k"
  by (induction xs) (auto simp: image_iff)

lemma find_append: "find P (xs @ ys) = (case find P xs of Some x \<Rightarrow> Some x | None \<Rightarrow> find P ys)"
  by (induction xs) auto

lemma find_snoc_absent: "find P xs = None \<Longrightarrow> P y \<Longrightarrow> find P (xs @ [y]) = Some y"
  by (simp add: find_append)

lemma find_snoc_other: "\<not> P y \<Longrightarrow> find P (xs @ [y]) = find P xs"
  by (simp add: find_append split: option.splits)

lemma length_filter_full_iff: "length (filter P xs) = length xs \<longleftrightarrow> (\<forall>x \<in> set xs. P x)"
  by (metis filter_id_conv length_filter_less less_irrefl)

lemma option_eqI: "(\<And>v. x = Some v \<longleftrightarrow> y = Some v) \<Longrightarrow> x = y"
  by (metis option.exhaust)

text \<open>Lists sorted strictly by a key are determined by their sets.\<close>

lemma strict_sort_key:
  fixes f :: "'a \<Rightarrow> 'b::linorder"
  assumes "distinct (map f xs)"
  shows "sorted_wrt (\<lambda>a b. f a < f b) (sort_key f xs)"
proof -
  have "distinct (map f (sort_key f xs))" using assms by (simp add: distinct_map)
  moreover have "sorted (map f (sort_key f xs))" by simp
  ultimately have "sorted_wrt (<) (map f (sort_key f xs))" by (simp only: strict_sorted_iff)
  then show ?thesis by (simp only: sorted_wrt_map)
qed

lemma strict_key_sorted_unique:
  fixes f :: "'a \<Rightarrow> 'b::linorder"
  assumes "sorted_wrt (\<lambda>a b. f a < f b) xs" "sorted_wrt (\<lambda>a b. f a < f b) ys" "set xs = set ys"
  shows "xs = ys"
proof -
  have "sorted_wrt (<) (map f xs)" "sorted_wrt (<) (map f ys)"
    using assms(1,2) by (simp_all add: sorted_wrt_map)
  moreover have "set (map f xs) = set (map f ys)" using assms(3) by simp
  ultimately have keys: "map f xs = map f ys" by (metis strict_sorted_equal)
  have "distinct (map f xs)" using \<open>sorted_wrt (<) (map f xs)\<close> strict_sorted_iff by blast
  then have "inj_on f (set xs \<union> set ys)" using assms(3) by (simp add: distinct_map)
  with keys show ?thesis by (rule map_inj_on)
qed

lemma distinct_remdups_adj_sorted: "sorted xs \<Longrightarrow> distinct (remdups_adj xs)"
  by (induction xs rule: remdups_adj.induct) (auto simp: less_le)

end
