(* ===== verification/Rust_Text.thy ===== *)
theory Rust_Text
  imports Prelude
begin

text \<open>
  Byte strings and the parts of Rust's string library the sources call: ASCII classes, UTF-8
  decoding (\<open>from_utf8\<close>, \<open>from_utf8_lossy\<close>, \<open>chars\<close>, \<open>is_char_boundary\<close>), splitting and
  searching, and the decimal rendering of \<open>format!\<close>.
\<close>

type_synonym bytes = "char list"

abbreviation byte_val :: "char \<Rightarrow> nat" where
  "byte_val c \<equiv> of_char c"

section \<open>ASCII classes\<close>

definition is_ascii_lowercase :: "char \<Rightarrow> bool" where
  "is_ascii_lowercase c \<longleftrightarrow> 97 \<le> byte_val c \<and> byte_val c \<le> 122"

definition is_ascii_uppercase :: "char \<Rightarrow> bool" where
  "is_ascii_uppercase c \<longleftrightarrow> 65 \<le> byte_val c \<and> byte_val c \<le> 90"

definition is_ascii_digit :: "char \<Rightarrow> bool" where
  "is_ascii_digit c \<longleftrightarrow> 48 \<le> byte_val c \<and> byte_val c \<le> 57"

definition is_ascii_graphic :: "char \<Rightarrow> bool" where
  "is_ascii_graphic c \<longleftrightarrow> 33 \<le> byte_val c \<and> byte_val c \<le> 126"

definition to_ascii_lowercase :: "string \<Rightarrow> string" where
  "to_ascii_lowercase s = map (\<lambda>c. if is_ascii_uppercase c then char_of (byte_val c + 32) else c) s"

lemmas ascii_class_defs =
  is_ascii_lowercase_def is_ascii_uppercase_def is_ascii_digit_def is_ascii_graphic_def


section \<open>UTF-8\<close>

definition is_continuation :: "char \<Rightarrow> bool" where
  "is_continuation c \<longleftrightarrow> 128 \<le> byte_val c \<and> byte_val c < 192"

definition utf8_width :: "char \<Rightarrow> nat" where
  "utf8_width b =
     (let v = byte_val b in
      if v < 128 then 1
      else if 194 \<le> v \<and> v < 224 then 2
      else if 224 \<le> v \<and> v < 240 then 3
      else if 240 \<le> v \<and> v < 245 then 4
      else 0)"

text \<open>Which second byte may follow a leading byte (surrogates and overlong forms are refused).\<close>

definition second_byte_ok :: "char \<Rightarrow> char \<Rightarrow> bool" where
  "second_byte_ok b c =
     (let v = byte_val b in
      if v = 224 then 160 \<le> byte_val c \<and> byte_val c < 192
      else if v = 237 then 128 \<le> byte_val c \<and> byte_val c < 160
      else if v = 240 then 144 \<le> byte_val c \<and> byte_val c < 192
      else if v = 244 then 128 \<le> byte_val c \<and> byte_val c < 144
      else 2 \<le> utf8_width b \<and> is_continuation c)"

text \<open>The bytes after the leading byte \<open>b\<close> that the decoder accepts as part of its sequence.\<close>

definition utf8_trail :: "char \<Rightarrow> bytes \<Rightarrow> bytes" where
  "utf8_trail b bs =
     (case bs of [] \<Rightarrow> []
      | c # cs \<Rightarrow> if second_byte_ok b c
                 then c # takeWhile is_continuation (take (utf8_width b - 2) cs) else [])"

lemma utf8_trail_take: "utf8_trail b bs = take (length (utf8_trail b bs)) bs"
  by (auto simp: utf8_trail_def split: list.splits)
    (metis length_takeWhile_le min.absorb1 min_def take_take takeWhile_eq_take length_take)

lemma utf8_trail_split: "utf8_trail b bs @ drop (length (utf8_trail b bs)) bs = bs"
  by (subst utf8_trail_take) simp

text \<open>
  The decoder's view of a byte list: maximal well-formed characters, each marked \<^term>\<open>True\<close>, and
  the maximal ill-formed runs, each marked \<^term>\<open>False\<close>.
\<close>

function utf8_items :: "bytes \<Rightarrow> (bool \<times> bytes) list" where
  "utf8_items [] = []"
| "utf8_items (b # bs) =
     (let t = utf8_trail b bs
      in (Suc (length t) = utf8_width b, b # t) # utf8_items (drop (length t) bs))"
  by pat_completeness auto
termination
  by (relation "measure length") auto

definition valid_utf8 :: "bytes \<Rightarrow> bool" where
  "valid_utf8 bs \<longleftrightarrow> list_all fst (utf8_items bs)"

definition str_chars :: "string \<Rightarrow> bytes list" where
  "str_chars s = map snd (utf8_items s)"

definition replacement_char :: bytes where
  "replacement_char = [CHR 0xEF, CHR 0xBF, CHR 0xBD]"

definition from_utf8_lossy :: "bytes \<Rightarrow> string" where
  "from_utf8_lossy bs = concat (map (\<lambda>(ok, c). if ok then c else replacement_char) (utf8_items bs))"

definition is_char_boundary :: "string \<Rightarrow> nat \<Rightarrow> bool" where
  "is_char_boundary s i \<longleftrightarrow>
     i = 0 \<or> i = length s \<or> (i < length s \<and> \<not> is_continuation (s ! i))"

lemma concat_utf8_items: "concat (map snd (utf8_items bs)) = bs"
  by (induction bs rule: utf8_items.induct) (auto simp: Let_def utf8_trail_split)

lemma from_utf8_lossy_valid: "valid_utf8 bs \<Longrightarrow> from_utf8_lossy bs = bs"
proof -
  assume "valid_utf8 bs"
  then have "map (\<lambda>(ok, c). if ok then c else replacement_char) (utf8_items bs) =
      map snd (utf8_items bs)"
    by (auto simp: valid_utf8_def list_all_iff)
  then show ?thesis unfolding from_utf8_lossy_def by (simp only: concat_utf8_items)
qed

lemma valid_utf8_Nil [simp]: "valid_utf8 []"
  by (simp add: valid_utf8_def)

subsection \<open>Characters of a well-formed string\<close>

lemma utf8_width_le: "utf8_width b \<le> 4"
  by (simp add: utf8_width_def Let_def)

lemma second_byte_continuation: "second_byte_ok b c \<Longrightarrow> is_continuation c"
  by (auto simp: second_byte_ok_def is_continuation_def Let_def split: if_splits)

lemma second_byte_width: "second_byte_ok b c \<Longrightarrow> 2 \<le> utf8_width b"
  by (auto simp: second_byte_ok_def utf8_width_def Let_def split: if_splits)

lemma leading_not_continuation: "0 < utf8_width b \<Longrightarrow> \<not> is_continuation b"
  by (auto simp: utf8_width_def is_continuation_def Let_def split: if_splits)

lemma utf8_trail_continuation: "x \<in> set (utf8_trail b bs) \<Longrightarrow> is_continuation x"
  by (auto simp: utf8_trail_def dest: second_byte_continuation set_takeWhileD split: list.splits if_splits)

lemma utf8_trail_full_append:
  assumes "Suc (length (utf8_trail b bs)) = utf8_width b"
  shows "utf8_trail b (bs @ ys) = utf8_trail b bs"
proof (cases bs)
  case Nil
  with assms have "utf8_width b = 1" by (simp add: utf8_trail_def)
  then have "\<not> second_byte_ok b c" for c using second_byte_width by fastforce
  with Nil show ?thesis by (simp add: utf8_trail_def split: list.splits)
next
  case (Cons c cs)
  show ?thesis
  proof (cases "second_byte_ok b c")
    case False
    with Cons show ?thesis by (simp add: utf8_trail_def)
  next
    case True
    let ?k = "utf8_width b - 2"
    from True assms Cons have len: "length (takeWhile is_continuation (take ?k cs)) = ?k"
      by (simp add: utf8_trail_def)
    have "length (takeWhile is_continuation (take ?k cs)) \<le> length (take ?k cs)"
      by (rule length_takeWhile_le)
    with len have "?k \<le> length cs" by simp
    then have "take ?k (cs @ ys) = take ?k cs" by simp
    with True Cons show ?thesis by (simp add: utf8_trail_def del: take_append)
  qed
qed

lemma utf8_items_append:
  "valid_utf8 xs \<Longrightarrow> utf8_items (xs @ ys) = utf8_items xs @ utf8_items ys"
proof (induction xs rule: utf8_items.induct)
  case 1
  then show ?case by simp
next
  case (2 b bs)
  let ?t = "utf8_trail b bs"
  from "2.prems" have full: "Suc (length ?t) = utf8_width b"
    and rest: "valid_utf8 (drop (length ?t) bs)"
    by (simp_all add: valid_utf8_def Let_def)
  have "length ?t \<le> length bs" by (metis utf8_trail_take length_take min.cobounded1 nat_le_linear take_all)
  then have "drop (length ?t) (bs @ ys) = drop (length ?t) bs @ ys" by simp
  with full "2.IH" [OF refl rest] show ?case
    by (simp add: Let_def utf8_trail_full_append)
qed

lemma valid_utf8_append: "valid_utf8 xs \<Longrightarrow> valid_utf8 (xs @ ys) \<longleftrightarrow> valid_utf8 ys"
  by (simp add: valid_utf8_def utf8_items_append)

subsection \<open>Character boundaries\<close>

text \<open>The unfolding of a well-formed, non-empty string into its first character and the rest.\<close>

lemma valid_utf8_Cons_cases:
  assumes "valid_utf8 (b # bs)"
  obtains t rest where "bs = t @ rest" and "length t < 4" and "\<not> is_continuation b"
    and "\<forall>x \<in> set t. is_continuation x" and "valid_utf8 rest" and "valid_utf8 (b # t)"
    and "utf8_items (b # bs) = (True, b # t) # utf8_items rest"
proof
  let ?t = "utf8_trail b bs"
  let ?r = "drop (length ?t) bs"
  from assms have full: "Suc (length ?t) = utf8_width b" and rest: "valid_utf8 ?r"
    by (simp_all add: valid_utf8_def Let_def)
  show "bs = ?t @ ?r" by (simp add: utf8_trail_split)
  show "length ?t < 4" using full utf8_width_le [of b] by simp
  show "\<not> is_continuation b" using full by (intro leading_not_continuation) simp
  show "\<forall>x \<in> set ?t. is_continuation x" by (simp add: utf8_trail_continuation)
  show "valid_utf8 ?r" by (rule rest)
  show "utf8_items (b # bs) = (True, b # ?t) # utf8_items ?r"
    using full by (simp add: Let_def)
  have "utf8_trail b ?t = ?t"
  proof (cases bs)
    case (Cons c cs)
    show ?thesis
    proof (cases "second_byte_ok b c")
      case True
      let ?k = "utf8_width b - 2"
      from True Cons full have "length (takeWhile is_continuation (take ?k cs)) = ?k"
        by (simp add: utf8_trail_def)
      then have "take ?k (takeWhile is_continuation (take ?k cs)) = takeWhile is_continuation (take ?k cs)"
        by simp
      with True Cons show ?thesis by (simp add: utf8_trail_def)
    qed (simp add: utf8_trail_def Cons)
  qed (simp add: utf8_trail_def)
  with full show "valid_utf8 (b # ?t)" by (simp add: valid_utf8_def Let_def)
qed

lemma valid_utf8_boundary_split:
  "valid_utf8 s \<Longrightarrow> is_char_boundary s i \<Longrightarrow> i \<le> length s \<Longrightarrow>
     valid_utf8 (take i s) \<and> valid_utf8 (drop i s)"
proof (induction "length s" arbitrary: s i rule: less_induct)
  case less
  show ?case
  proof (cases "s = [] \<or> i = 0")
    case True
    with less.prems show ?thesis by auto
  next
    case False
    then obtain b bs where s: "s = b # bs" by (cases s) auto
    from less.prems(1) obtain t rest where bs: "bs = t @ rest" and cont: "\<forall>x \<in> set t. is_continuation x"
      and rest: "valid_utf8 rest" and first: "valid_utf8 (b # t)"
      unfolding s by (rule valid_utf8_Cons_cases)
    let ?w = "Suc (length t)"
    have "?w \<le> i"
    proof (rule ccontr)
      assume "\<not> ?w \<le> i"
      with False obtain j where j: "i = Suc j" "j < length t" by (cases i) auto
      then have "is_continuation (s ! i)" using cont by (simp add: s bs nth_append)
      with less.prems(2) j show False by (auto simp: is_char_boundary_def s bs)
    qed
    then obtain k where k: "i = ?w + k" using le_Suc_ex by blast
    have "is_char_boundary rest k"
      using less.prems(2) by (auto simp: is_char_boundary_def s bs k nth_append)
    moreover have "k \<le> length rest" using less.prems(3) by (simp add: s bs k)
    moreover have "length rest < length s" by (simp add: s bs)
    ultimately have "valid_utf8 (take k rest)" "valid_utf8 (drop k rest)"
      using less.hyps rest by blast+
    moreover have "take i s = (b # t) @ take k rest" and "drop i s = drop k rest"
      by (simp_all add: s bs k)
    ultimately show ?thesis using valid_utf8_append [OF first] by simp
  qed
qed

text \<open>\<open>floor_boundary\<close> is the loop \<open>while !s.is_char_boundary(end) { end -= 1 }\<close>.\<close>

fun floor_boundary :: "string \<Rightarrow> nat \<Rightarrow> nat" where
  "floor_boundary s 0 = 0"
| "floor_boundary s (Suc n) = (if is_char_boundary s (Suc n) then Suc n else floor_boundary s n)"

lemma floor_boundary_boundary: "is_char_boundary s (floor_boundary s n)"
  by (induction n) (auto simp: is_char_boundary_def)

lemma floor_boundary_le: "floor_boundary s n \<le> n"
  by (induction n) auto

lemma floor_boundary_greatest: "is_char_boundary s m \<Longrightarrow> m \<le> n \<Longrightarrow> m \<le> floor_boundary s n"
  by (induction n) (auto simp: le_Suc_eq)

lemma boundary_nearby:
  "valid_utf8 s \<Longrightarrow> i \<le> length s \<Longrightarrow> \<exists>m. m \<le> i \<and> i < m + 4 \<and> is_char_boundary s m"
proof (induction "length s" arbitrary: s i rule: less_induct)
  case less
  show ?case
  proof (cases "i < 4")
    case True
    then have "0 \<le> i \<and> i < 0 + 4 \<and> is_char_boundary s 0" by (simp add: is_char_boundary_def)
    then show ?thesis by blast
  next
    case False
    with less.prems(2) obtain b bs where s: "s = b # bs" by (cases s) auto
    from less.prems(1) obtain t rest where bs: "bs = t @ rest" and "length t < 4"
      and rest: "valid_utf8 rest"
      unfolding s by (rule valid_utf8_Cons_cases)
    then obtain k where k: "i = Suc (length t) + k" using False le_Suc_ex [of "Suc (length t)" i] by auto
    have "length rest < length s" and "k \<le> length rest"
      using less.prems(2) by (simp_all add: s bs k)
    with less.hyps rest obtain m where m: "m \<le> k" "k < m + 4" "is_char_boundary rest m" by blast
    have "is_char_boundary s (Suc (length t) + m)"
    proof (cases rest)
      case Nil
      with m(3) show ?thesis by (simp add: is_char_boundary_def s bs)
    next
      case (Cons x xs)
      have "\<not> is_continuation x"
        using rest unfolding Cons by (rule valid_utf8_Cons_cases) simp
      with m(3) Cons show ?thesis
        by (auto simp: is_char_boundary_def s bs nth_append)
    qed
    with m k show ?thesis by (intro exI [of _ "Suc (length t) + m"]) simp
  qed
qed

lemma floor_boundary_progress:
  assumes "valid_utf8 s" "i \<le> length s"
  shows "i < floor_boundary s i + 4"
proof -
  from boundary_nearby [OF assms] obtain m where m: "m \<le> i" "i < m + 4" "is_char_boundary s m"
    by blast
  then have "m \<le> floor_boundary s i" by (intro floor_boundary_greatest)
  with m show ?thesis by simp
qed


section \<open>Code points and white space\<close>

fun char_code :: "bytes \<Rightarrow> nat" where
  "char_code [a] = byte_val a"
| "char_code [a, b] = (byte_val a - 192) * 64 + (byte_val b - 128)"
| "char_code [a, b, c] = ((byte_val a - 224) * 64 + (byte_val b - 128)) * 64 + (byte_val c - 128)"
| "char_code [a, b, c, d] =
     (((byte_val a - 240) * 64 + (byte_val b - 128)) * 64 + (byte_val c - 128)) * 64 + (byte_val d - 128)"
| "char_code _ = 0"

text \<open>\<open>char::is_whitespace\<close>: the Unicode property White_Space.\<close>

definition is_whitespace :: "bytes \<Rightarrow> bool" where
  "is_whitespace c =
     (let v = char_code c in
      (9 \<le> v \<and> v \<le> 13) \<or> v = 32 \<or> v = 133 \<or> v = 160 \<or> v = 5760 \<or>
      (8192 \<le> v \<and> v \<le> 8202) \<or> v = 8232 \<or> v = 8233 \<or> v = 8239 \<or> v = 8287 \<or> v = 12288)"


section \<open>Splitting and searching\<close>

fun split_on :: "char \<Rightarrow> string \<Rightarrow> string list" where
  "split_on d [] = [[]]"
| "split_on d (c # cs) =
     (if c = d then [] # split_on d cs
      else (case split_on d cs of [] \<Rightarrow> [[c]] | p # ps \<Rightarrow> (c # p) # ps))"

text \<open>\<open>str::split_once\<close>: the parts before and after the first separator.\<close>

fun split_once :: "char \<Rightarrow> string \<Rightarrow> (string \<times> string) option" where
  "split_once d [] = None"
| "split_once d (c # cs) =
     (if c = d then Some ([], cs) else map_option (\<lambda>(a, b). (c # a, b)) (split_once d cs))"

fun strip_prefix :: "'a list \<Rightarrow> 'a list \<Rightarrow> 'a list option" where
  "strip_prefix [] ys = Some ys"
| "strip_prefix (x # xs) [] = None"
| "strip_prefix (x # xs) (y # ys) = (if x = y then strip_prefix xs ys else None)"

fun contains_str :: "string \<Rightarrow> string \<Rightarrow> bool" where
  "contains_str pat [] \<longleftrightarrow> pat = []"
| "contains_str pat (c # cs) \<longleftrightarrow> strip_prefix pat (c # cs) \<noteq> None \<or> contains_str pat cs"

lemma split_on_nonempty [simp]: "split_on d s \<noteq> []"
  by (induction s) (auto split: list.splits)

lemma strip_prefix_Some_iff: "strip_prefix p s = Some r \<longleftrightarrow> s = p @ r"
  by (induction p s rule: strip_prefix.induct) auto

lemma strip_prefix_None_iff: "strip_prefix p s = None \<longleftrightarrow> \<not> prefix p s"
  by (induction p s rule: strip_prefix.induct) auto

lemma contains_str_iff: "contains_str p s \<longleftrightarrow> sublist p s"
proof (induction s)
  case (Cons c cs)
  then show ?case
    by (simp only: contains_str.simps sublist_Cons_right strip_prefix_None_iff not_not)
qed simp

lemma split_once_Some_iff: "split_once d s = Some (a, b) \<longleftrightarrow> s = a @ d # b \<and> d \<notin> set a"
proof (induction s arbitrary: a)
  case (Cons c cs)
  then show ?case by (cases a) auto
qed simp

lemma split_once_None_iff: "split_once d s = None \<longleftrightarrow> d \<notin> set s"
  by (induction s) auto

lemma split_on_absent: "d \<notin> set s \<Longrightarrow> split_on d s = [s]"
  by (induction s) auto

lemma split_on_append: "d \<notin> set a \<Longrightarrow> split_on d (a @ d # b) = a # split_on d b"
  by (induction a) auto

lemma split_on_parts: "p \<in> set (split_on d s) \<Longrightarrow> d \<notin> set p"
proof (induction s arbitrary: p)
  case (Cons c cs)
  then show ?case by (cases "c = d"; cases "split_on d cs") auto
qed simp

lemma split_on_pair_iff:
  "split_on d s = [a, b] \<longleftrightarrow> s = a @ d # b \<and> d \<notin> set a \<and> d \<notin> set b"
proof
  assume sp: "split_on d s = [a, b]"
  show "s = a @ d # b \<and> d \<notin> set a \<and> d \<notin> set b"
  proof (cases "split_once d s")
    case None
    then have "split_on d s = [s]" by (simp add: split_once_None_iff split_on_absent)
    with sp show ?thesis by simp
  next
    case (Some ab)
    then obtain a' b' where s: "s = a' @ d # b'" and a': "d \<notin> set a'"
      by (cases ab) (auto simp: split_once_Some_iff)
    with sp have "a' = a" and tail: "split_on d b' = [b]" by (simp_all add: split_on_append)
    have "b' = b"
    proof (cases "split_once d b'")
      case None
      then show ?thesis using tail by (simp add: split_once_None_iff split_on_absent)
    next
      case (Some xy)
      then obtain x y where "b' = x @ d # y" "d \<notin> set x"
        by (cases xy) (auto simp: split_once_Some_iff)
      with tail show ?thesis by (simp add: split_on_append)
    qed
    moreover have "d \<notin> set b" using split_on_parts [of b d s] sp by simp
    ultimately show ?thesis using s a' \<open>a' = a\<close> by simp
  qed
next
  assume "s = a @ d # b \<and> d \<notin> set a \<and> d \<notin> set b"
  then show "split_on d s = [a, b]" by (simp add: split_on_append split_on_absent)
qed


section \<open>Decimal rendering\<close>

definition digit_char :: "nat \<Rightarrow> char" where
  "digit_char d = char_of (48 + d)"

fun show_nat :: "nat \<Rightarrow> string" where
  "show_nat n = (if n < 10 then [digit_char n] else show_nat (n div 10) @ [digit_char (n mod 10)])"

declare show_nat.simps [simp del]

definition digit_value :: "char \<Rightarrow> nat" where
  "digit_value c = byte_val c - 48"

definition decimal_value :: "string \<Rightarrow> nat" where
  "decimal_value s = foldl (\<lambda>n c. n * 10 + digit_value c) 0 s"

lemma digit_char_val: "d < 10 \<Longrightarrow> byte_val (digit_char d) = 48 + d"
  by (simp add: digit_char_def)

lemma digit_value_char: "d < 10 \<Longrightarrow> digit_value (digit_char d) = d"
  by (simp add: digit_value_def digit_char_val)

lemma show_nat_nonempty [simp]: "show_nat n \<noteq> []"
  by (subst show_nat.simps) simp

lemma show_nat_digits: "list_all is_ascii_digit (show_nat n)"
proof (induction n rule: show_nat.induct)
  case (1 n)
  have "is_ascii_digit (digit_char d)" if "d < 10" for d
    using that by (simp add: is_ascii_digit_def digit_char_val)
  with "1.IH" show ?case by (subst show_nat.simps) auto
qed

lemma decimal_value_show_nat [simp]: "decimal_value (show_nat n) = n"
proof (induction n rule: show_nat.induct)
  case (1 n)
  then show ?case
    by (subst show_nat.simps) (auto simp: decimal_value_def digit_value_char)
qed

lemma show_nat_inject [simp]: "show_nat m = show_nat n \<longleftrightarrow> m = n"
  by (metis decimal_value_show_nat)

lemma length_show_nat_le: "n < 10 ^ Suc k \<Longrightarrow> length (show_nat n) \<le> Suc k"
proof (induction k arbitrary: n)
  case (Suc k)
  then have "n div 10 < 10 ^ Suc k" by (simp add: div_less_iff_less_mult mult.commute)
  from Suc.IH [OF this] show ?case by (subst show_nat.simps) simp
qed (simp add: show_nat.simps)

lemma length_show_nat_mono: "m \<le> n \<Longrightarrow> length (show_nat m) \<le> length (show_nat n)"
proof (induction n arbitrary: m rule: show_nat.induct)
  case (1 n)
  show ?case
  proof (cases "n < 10")
    case True
    with "1.prems" show ?thesis by (simp add: show_nat.simps)
  next
    case False
    have "m div 10 \<le> n div 10" using "1.prems" by (rule div_le_mono)
    with "1.IH" False have "length (show_nat (m div 10)) \<le> length (show_nat (n div 10))" by simp
    with False show ?thesis by (simp add: show_nat.simps [of m] show_nat.simps [of n])
  qed
qed


section \<open>FNV-1a\<close>

unbundle bit_operations_syntax

definition FNV_OFFSET_BASIS :: u64 where
  "FNV_OFFSET_BASIS = 0xcbf29ce484222325"

definition FNV_PRIME :: u64 where
  "FNV_PRIME = 0x100000001b3"

definition fnv1a64 :: "bytes \<Rightarrow> u64" where
  "fnv1a64 bs = foldl (\<lambda>h b. (h XOR of_char b) * FNV_PRIME) FNV_OFFSET_BASIS bs"

end
