(* ===== verification/Session.thy ===== *)
theory Session
  imports Rust_Text
begin

text \<open>
  Session identity, authority tiers and lifecycle (\<open>bitty-ai-runtime/src/session.rs\<close>), and the
  single-writer fence (\<open>fencing.rs\<close>). An \<open>AgentSession\<close> is an \<open>Rc\<close> handle over \<open>Cell\<close> fields that
  all clones share, so the model has one \<open>session\<close> record that every holder reads and updates.
  The process-wide id counter is passed explicitly.
\<close>

section \<open>Identity\<close>

datatype agent_instance_id = AgentInstanceId (instance_value: u64)
datatype run_id = RunId (run_value: u64)
datatype session_id = SessionId (session_value: u64)
datatype execution_id = ExecutionId (execution_value: u64)

text \<open>
  \<open>IdIssuer::next\<close> on the counter \<open>NEXT_ID\<close>: the issued value and the new counter, or
  \<^const>\<open>None\<close> for the panic on an exhausted id space.
\<close>

definition issuer_next :: "u64 \<Rightarrow> (u64 \<times> u64) option" where
  "issuer_next next_id =
     (case checked_add next_id 1 of
        None \<Rightarrow> None
      | Some updated \<Rightarrow> Some (next_id + 1, updated))"

definition issue_agent_instance :: "u64 \<Rightarrow> (agent_instance_id \<times> u64) option" where
  "issue_agent_instance c = map_option (\<lambda>(v, c'). (AgentInstanceId v, c')) (issuer_next c)"

definition issue_run :: "u64 \<Rightarrow> (run_id \<times> u64) option" where
  "issue_run c = map_option (\<lambda>(v, c'). (RunId v, c')) (issuer_next c)"

definition issue_session :: "u64 \<Rightarrow> (session_id \<times> u64) option" where
  "issue_session c = map_option (\<lambda>(v, c'). (SessionId v, c')) (issuer_next c)"

definition issue_execution :: "u64 \<Rightarrow> (execution_id \<times> u64) option" where
  "issue_execution c = map_option (\<lambda>(v, c'). (ExecutionId v, c')) (issuer_next c)"

text \<open>The values issued by \<open>n\<close> consecutive calls, whichever kinds of id they are for.\<close>

fun issue_many :: "nat \<Rightarrow> u64 \<Rightarrow> u64 list option" where
  "issue_many 0 c = Some []"
| "issue_many (Suc n) c =
     (case issuer_next c of
        None \<Rightarrow> None
      | Some (v, c') \<Rightarrow> map_option ((#) v) (issue_many n c'))"


section \<open>Authority tiers and lifecycle states\<close>

datatype agent_level = AL_Inspect | AL_Own | AL_Workspace | AL_All

fun level_rank :: "agent_level \<Rightarrow> nat" where
  "level_rank AL_Inspect = 0"
| "level_rank AL_Own = 1"
| "level_rank AL_Workspace = 2"
| "level_rank AL_All = 3"

definition level_includes :: "agent_level \<Rightarrow> agent_level \<Rightarrow> bool" where
  "level_includes self other \<longleftrightarrow> level_rank other \<le> level_rank self"

datatype session_state = SS_Active | SS_Completed | SS_Failed | SS_Canceled

datatype session_error =
    SE_AlreadyTerminated session_state
  | SE_ElevationDenied agent_level

text \<open>An \<open>ElevationGrant\<close> hook: the current and the requested tier to a decision.\<close>

type_synonym elevation_grant = "agent_level \<Rightarrow> agent_level \<Rightarrow> bool"

definition deny_all_elevations :: elevation_grant where
  "deny_all_elevations current requested = False"


section \<open>The session handle\<close>

record session =
  ses_agent_instance_id :: agent_instance_id
  ses_run_id :: run_id
  ses_session_id :: session_id
  ses_level :: agent_level
  ses_generation :: u64
  ses_state :: session_state
  ses_cancel_count :: u64

definition session_new :: "agent_instance_id \<Rightarrow> run_id \<Rightarrow> session_id \<Rightarrow> session" where
  "session_new instance run sid =
     \<lparr> ses_agent_instance_id = instance, ses_run_id = run, ses_session_id = sid,
       ses_level = AL_Inspect, ses_generation = 1, ses_state = SS_Active, ses_cancel_count = 0 \<rparr>"

definition is_cancelled :: "session \<Rightarrow> bool" where
  "is_cancelled s \<longleftrightarrow> ses_state s = SS_Canceled"

definition session_cancel :: "session \<Rightarrow> session" where
  "session_cancel s =
     (if ses_state s = SS_Active
      then s\<lparr> ses_state := SS_Canceled, ses_cancel_count := ses_cancel_count s + 1 \<rparr>
      else s)"

definition session_finish :: "bool \<Rightarrow> session \<Rightarrow> session" where
  "session_finish failed s =
     (if ses_state s = SS_Active
      then s\<lparr> ses_state := (if failed then SS_Failed else SS_Completed) \<rparr>
      else s)"

definition session_elevate ::
  "agent_level \<Rightarrow> elevation_grant \<Rightarrow> session \<Rightarrow> (unit, session_error) result \<times> session" where
  "session_elevate requested grant s =
     (if ses_state s \<noteq> SS_Active then (Err (SE_AlreadyTerminated (ses_state s)), s)
      else if level_rank requested > level_rank (ses_level s) then
        (if grant (ses_level s) requested then (Ok (), s\<lparr> ses_level := requested \<rparr>)
         else (Err (SE_ElevationDenied requested), s))
      else (Ok (), s))"

text \<open>The generation wraps after \<open>2 ^ 64\<close> rotations, as it does in a build without overflow checks; with them the
  call panics there. No property reaches that point.\<close>

definition session_rotate_generation :: "session \<Rightarrow> session" where
  "session_rotate_generation s =
     (if ses_state s = SS_Active
      then s\<lparr> ses_generation := ses_generation s + 1, ses_level := AL_Inspect \<rparr>
      else s)"

lemmas session_op_defs =
  session_cancel_def session_finish_def session_elevate_def session_rotate_generation_def

text \<open>
  One call through some handle on the session, with the elevation hook \<open>grant\<close>; the evolution of
  a session under any calls by any holders is the reflexive transitive closure.
\<close>

inductive session_step :: "elevation_grant \<Rightarrow> session \<Rightarrow> session \<Rightarrow> bool" for grant where
  step_cancel: "session_step grant s (session_cancel s)"
| step_finish: "session_step grant s (session_finish failed s)"
| step_elevate: "session_step grant s (snd (session_elevate requested grant s))"
| step_rotate: "session_step grant s (session_rotate_generation s)"

abbreviation session_evolves :: "elevation_grant \<Rightarrow> session \<Rightarrow> session \<Rightarrow> bool" where
  "session_evolves grant \<equiv> (session_step grant)\<^sup>*\<^sup>*"


section \<open>The writer fence\<close>

record writer_lease =
  lease_writer_id :: u64
  lease_session_generation :: u64
  lease_epoch :: u64

datatype writer_refusal =
    WR_AlreadyTerminated session_state
  | WR_StaleGeneration u64 u64
  | WR_StaleEpoch u64 u64

definition check_writer :: "writer_lease \<Rightarrow> session \<Rightarrow> u64 \<Rightarrow> (unit, writer_refusal) result" where
  "check_writer lease s current_epoch =
     (if ses_state s \<noteq> SS_Active then Err (WR_AlreadyTerminated (ses_state s))
      else if lease_session_generation lease \<noteq> ses_generation s
      then Err (WR_StaleGeneration (lease_session_generation lease) (ses_generation s))
      else if lease_epoch lease \<noteq> current_epoch
      then Err (WR_StaleEpoch (lease_epoch lease) current_epoch)
      else Ok ())"


section \<open>Lemmas\<close>

subsection \<open>Issued ids\<close>

lemma issuer_next_Some:
  "issuer_next c = Some (v, c') \<longleftrightarrow> v = c + 1 \<and> c' = c + 1 \<and> unat (c + 1) = Suc (unat c)"
  by (auto simp: issuer_next_def checked_add_def unat_word_ariths split: if_splits option.splits)

lemma issue_many_values:
  "issue_many n c = Some vs \<Longrightarrow> map unat vs = [Suc (unat c)..<Suc (unat c + n)]"
proof (induction n arbitrary: c vs)
  case (Suc n)
  then obtain v c' ws where nx: "issuer_next c = Some (v, c')" and ws: "issue_many n c' = Some ws"
    and vs: "vs = v # ws"
    by (auto split: option.splits)
  from nx have "unat v = Suc (unat c)" "unat c' = Suc (unat c)"
    by (simp_all add: issuer_next_Some)
  with Suc.IH [OF ws] vs show ?case by (simp add: upt_conv_Cons)
qed simp

subsection \<open>Steps\<close>

inductive_cases session_step_cases: "session_step grant s t"

lemma session_step_frame:
  "session_step grant s t \<Longrightarrow>
     ses_agent_instance_id t = ses_agent_instance_id s \<and> ses_run_id t = ses_run_id s \<and>
     ses_session_id t = ses_session_id s"
  by (erule session_step_cases) (auto simp: session_op_defs)

lemma session_step_terminal: "session_step grant s t \<Longrightarrow> ses_state s \<noteq> SS_Active \<Longrightarrow> t = s"
  by (erule session_step_cases) (auto simp: session_op_defs)

lemma session_evolves_terminal:
  "session_evolves grant s t \<Longrightarrow> ses_state s \<noteq> SS_Active \<Longrightarrow> t = s"
  by (induction rule: rtranclp_induct) (auto dest: session_step_terminal)

lemma session_evolves_frame:
  "session_evolves grant s t \<Longrightarrow>
     ses_agent_instance_id t = ses_agent_instance_id s \<and> ses_run_id t = ses_run_id s \<and>
     ses_session_id t = ses_session_id s"
  by (induction rule: rtranclp_induct) (auto dest: session_step_frame)

text \<open>The counter of honoured cancellations agrees with the state.\<close>

definition session_inv :: "session \<Rightarrow> bool" where
  "session_inv s \<longleftrightarrow> ses_cancel_count s = (if ses_state s = SS_Canceled then 1 else 0)"

lemma session_new_inv: "session_inv (session_new i r d)"
  by (simp add: session_inv_def session_new_def)

lemma session_step_inv: "session_step grant s t \<Longrightarrow> session_inv s \<Longrightarrow> session_inv t"
  by (erule session_step_cases) (auto simp: session_op_defs session_inv_def)

lemma session_evolves_inv: "session_evolves grant s t \<Longrightarrow> session_inv s \<Longrightarrow> session_inv t"
  by (induction rule: rtranclp_induct) (auto intro: session_step_inv)

lemma session_step_generation:
  "session_step grant s t \<Longrightarrow>
     ses_generation t = ses_generation s \<or> ses_generation t = ses_generation s + 1"
  by (erule session_step_cases) (auto simp: session_op_defs)

lemma session_steps_generation:
  "(session_step grant ^^ n) s t \<Longrightarrow> \<exists>k \<le> n. ses_generation t = ses_generation s + of_nat k"
proof (induction n arbitrary: t)
  case (Suc n)
  then obtain u where "(session_step grant ^^ n) s u" and last: "session_step grant u t"
    by auto
  with Suc.IH obtain k where k: "k \<le> n" "ses_generation u = ses_generation s + of_nat k"
    by blast
  from session_step_generation [OF last] show ?case
  proof
    assume "ses_generation t = ses_generation u"
    with k show ?case by (intro exI [of _ k]) simp
  next
    assume "ses_generation t = ses_generation u + 1"
    with k show ?case by (intro exI [of _ "Suc k"]) (simp add: algebra_simps)
  qed
qed simp

text \<open>Without a granting hook the tier never rises.\<close>

lemma session_step_level:
  "session_step grant s t \<Longrightarrow>
     ses_level t = ses_level s \<or> ses_level t = AL_Inspect \<or> grant (ses_level s) (ses_level t)"
  by (erule session_step_cases) (auto simp: session_op_defs)

lemma word_add_of_nat_neq:
  fixes g :: "'l::len word"
  assumes "0 < k" "k < 2 ^ LENGTH('l)"
  shows "g + of_nat k \<noteq> g"
proof
  assume "g + of_nat k = g"
  then have "(of_nat k :: 'l word) = 0" by simp
  then have "unat (of_nat k :: 'l word) = 0" by simp
  with assms show False by (simp add: unat_of_nat)
qed

lemma check_writer_Ok_iff:
  "check_writer lease s e = Ok () \<longleftrightarrow>
     ses_state s = SS_Active \<and> lease_session_generation lease = ses_generation s \<and>
     lease_epoch lease = e"
  by (simp add: check_writer_def)


section \<open>Properties\<close>

text \<open>
  The session lifecycle: under any calls by any holders, a session that was ever started keeps
  its identity, a terminal state is final (nothing of the record changes any more), and the cancel
  counter is 1 exactly in the canceled state and 0 otherwise.
\<close>

theorem session_lifecycle:
  assumes "session_evolves grant (session_new i r d) s" "session_evolves grant s t"
  shows "(ses_state s \<noteq> SS_Active \<longrightarrow> t = s) \<and>
    ses_cancel_count t = (if is_cancelled t then 1 else 0) \<and>
    ses_agent_instance_id t = i \<and> ses_run_id t = r \<and> ses_session_id t = d"
proof -
  from assms have "session_evolves grant (session_new i r d) t" by simp
  from session_evolves_inv [OF this session_new_inv] session_evolves_frame [OF this]
    session_evolves_terminal [OF assms(2)]
  show ?thesis by (auto simp: session_inv_def is_cancelled_def session_new_def)
qed

theorem session_lifecycle_witness:
  "let s = session_new (AgentInstanceId 1) (RunId 2) (SessionId 3); t = session_cancel s in
     ses_state t \<noteq> SS_Active \<and> session_finish True t = t \<and> ses_cancel_count t = 1"
proof -
  let ?s = "session_new (AgentInstanceId 1) (RunId 2) (SessionId 3)"
  have 1: "session_evolves deny_all_elevations ?s (session_cancel ?s)"
    by (rule r_into_rtranclp) (rule step_cancel)
  have 2: "session_evolves deny_all_elevations (session_cancel ?s) (session_finish True (session_cancel ?s))"
    by (rule r_into_rtranclp) (rule step_finish)
  show ?thesis
    using session_lifecycle [OF 1 2]
    by (simp add: Let_def session_cancel_def session_new_def is_cancelled_def)
qed

text \<open>
  C22. A fenced-off writer stays out: once the generation is rotated, a lease that was admitted before
  is refused, at any epoch, after any further calls (fewer than \<open>2 ^ 64 - 1\<close> of them, since the
  generation is a 64-bit counter).
\<close>

theorem stale_lease_refused:
  assumes "check_writer lease s e = Ok ()"
    and "(session_step grant ^^ n) (session_rotate_generation s) t" "n < 2 ^ 64 - 1"
  shows "\<exists>refusal. check_writer lease t e' = Err refusal"
proof -
  from assms(1) have s: "ses_state s = SS_Active" "lease_session_generation lease = ses_generation s"
    by (simp_all add: check_writer_Ok_iff)
  from session_steps_generation [OF assms(2)] obtain k where "k \<le> n"
    "ses_generation t = ses_generation (session_rotate_generation s) + of_nat k"
    by blast
  with s have gen: "ses_generation t = ses_generation s + of_nat (Suc k)" and k: "Suc k < 2 ^ 64"
    using assms(3) by (simp_all add: session_rotate_generation_def algebra_simps)
  have "ses_generation t \<noteq> lease_session_generation lease"
    unfolding gen s(2) using k by (intro word_add_of_nat_neq) simp_all
  then show ?thesis by (cases "ses_state t = SS_Active") (auto simp: check_writer_def)
qed

theorem stale_lease_refused_witness:
  "\<exists>refusal. check_writer \<lparr> lease_writer_id = 9, lease_session_generation = 1, lease_epoch = 4 \<rparr>
     (session_cancel (session_rotate_generation
        (session_new (AgentInstanceId 1) (RunId 2) (SessionId 3)))) 4 = Err refusal"
proof (rule stale_lease_refused [where n = 1 and grant = deny_all_elevations])
  show "check_writer \<lparr> lease_writer_id = 9, lease_session_generation = 1, lease_epoch = 4 \<rparr>
      (session_new (AgentInstanceId 1) (RunId 2) (SessionId 3)) 4 = Ok ()"
    by (simp add: check_writer_def session_new_def)
  show "(session_step deny_all_elevations ^^ 1)
      (session_rotate_generation (session_new (AgentInstanceId 1) (RunId 2) (SessionId 3)))
      (session_cancel (session_rotate_generation (session_new (AgentInstanceId 1) (RunId 2) (SessionId 3))))"
    by (simp add: eq_OO step_cancel)
qed simp

text \<open>
  Ids are handles that never repeat: any number of consecutive issues yields strictly increasing
  non-zero values above the counter, and the issuer panics exactly when the 64-bit space is used up.
\<close>

theorem issued_ids_never_repeat:
  "(issue_many n c = None \<longleftrightarrow> 2 ^ 64 \<le> unat c + n \<and> n \<noteq> 0) \<and>
   (\<forall>vs. issue_many n c = Some vs \<longrightarrow>
      length vs = n \<and> sorted_wrt (<) vs \<and> (\<forall>v \<in> set vs. c < v \<and> v \<noteq> 0))"
proof -
  have none: "issue_many n c = None \<longleftrightarrow> 2 ^ 64 \<le> unat c + n \<and> n \<noteq> 0"
  proof (induction n arbitrary: c)
    case (Suc n)
    show ?case
    proof (cases "issuer_next c")
      case None
      then have "2 ^ 64 \<le> unat c + 1"
        by (auto simp: issuer_next_def checked_add_None_iff split: option.splits)
      with None show ?thesis by simp
    next
      case (Some vc)
      then obtain v c' where vc: "issuer_next c = Some (v, c')" "unat c' = Suc (unat c)"
        by (cases vc) (auto simp: issuer_next_Some)
      have "unat c' < 2 ^ LENGTH(64)" by (rule unsigned_less)
      with vc Suc.IH [of c'] show ?thesis by auto
    qed
  qed simp
  have "length vs = n \<and> sorted_wrt (<) vs \<and> (\<forall>v \<in> set vs. c < v \<and> v \<noteq> 0)"
    if "issue_many n c = Some vs" for vs
  proof -
    note vals = issue_many_values [OF that]
    from arg_cong [OF vals, of length] have "length vs = n" by simp
    moreover have "sorted_wrt (<) (map unat vs)" unfolding vals by (rule sorted_wrt_upt)
    then have "sorted_wrt (<) vs"
      by (auto simp: sorted_wrt_map word_less_nat_alt intro: sorted_wrt_mono_rel [rotated])
    moreover have "unat c < unat v" if "v \<in> set vs" for v
    proof -
      from that have "unat v \<in> set (map unat vs)" by simp
      then show ?thesis unfolding vals by auto
    qed
    moreover from this have "v \<noteq> 0" if "v \<in> set vs" for v
      using that by (metis not_less_zero unat_0)
    ultimately show ?thesis by (auto simp: word_less_nat_alt)
  qed
  with none show ?thesis by blast
qed

theorem issued_ids_never_repeat_witness:
  "issue_many (Suc (Suc 0)) 5 = Some [6, 7] \<and> sorted_wrt (<) [6 :: u64, 7]"
proof -
  have "issue_many (Suc (Suc 0)) 5 = Some [6, 7]"
    by (simp add: issuer_next_def checked_add_def)
  with issued_ids_never_repeat [of "Suc (Suc 0)" 5] show ?thesis by auto
qed

end
