(* ===== verification/Streaming.thy ===== *)
theory Streaming
  imports Session
begin

text \<open>
  Bounded rich-streaming fragments (\<open>bitty-ai-runtime/src/stream.rs\<close>): the chunk framing, the
  splitting of a text into fragments, the two sinks and the emission of a batch of fragments.
  The trait \<open>StreamSink\<close> is the locale \<open>stream_sink\<close>; both sinks of the source interpret it.
\<close>

section \<open>Fragments and chunks\<close>

definition MAX_FRAGMENT_BYTES :: nat where
  "MAX_FRAGMENT_BYTES = 64 * 1024"

datatype fragment_kind = FK_Markdown | FK_Diff | FK_ToolCard

record fragment =
  frag_kind :: fragment_kind
  frag_bytes :: bytes

record stream_chunk =
  chunk_seq :: u32
  chunk_total :: u32
  chunk_is_final :: bool
  chunk_fragment :: fragment

datatype stream_error =
    StE_OversizedFragment nat nat
  | StE_InvalidFraming string

definition validate_chunk :: "stream_chunk \<Rightarrow> (unit, stream_error) result" where
  "validate_chunk chunk =
     (if chunk_total chunk = 0 then Err (StE_InvalidFraming ''total must be > 0'')
      else if chunk_seq chunk \<ge> chunk_total chunk
      then Err (StE_InvalidFraming ''seq must be < total'')
      else if chunk_is_final chunk \<noteq> (chunk_seq chunk + 1 = chunk_total chunk)
      then Err (StE_InvalidFraming ''final flag does not match seq/total'')
      else if length (frag_bytes (chunk_fragment chunk)) > MAX_FRAGMENT_BYTES
      then Err (StE_OversizedFragment MAX_FRAGMENT_BYTES (length (frag_bytes (chunk_fragment chunk))))
      else Ok ())"

definition concatenated_bytes :: "stream_chunk list \<Rightarrow> bytes" where
  "concatenated_bytes chunks = concat (map (frag_bytes \<circ> chunk_fragment) chunks)"


section \<open>Sinks\<close>

record vec_sink =
  vs_chunks :: "stream_chunk list"

definition vec_sink_new :: vec_sink where
  "vec_sink_new = \<lparr> vs_chunks = [] \<rparr>"

definition vec_sink_emit :: "vec_sink \<Rightarrow> stream_chunk \<Rightarrow> (unit, stream_error) result \<times> vec_sink" where
  "vec_sink_emit self chunk =
     (case validate_chunk chunk of
        Err e \<Rightarrow> (Err e, self)
      | Ok _ \<Rightarrow> (Ok (), self\<lparr> vs_chunks := vs_chunks self @ [chunk] \<rparr>))"

definition DEFAULT_BOUNDED_SINK_CAPACITY :: nat where
  "DEFAULT_BOUNDED_SINK_CAPACITY = 64"

datatype stream_handle = StreamHandle u64

record stream_attribution =
  attr_agent :: agent_instance_id
  attr_handle :: stream_handle
  attr_generation :: u64

record stream_ack =
  ack_attribution :: stream_attribution
  ack_accepted :: u64
  ack_shed :: u64

record bounded_sink =
  bs_attribution :: stream_attribution
  bs_capacity :: nat
  bs_chunks :: "stream_chunk list"
  bs_accepted :: u64
  bs_shed :: u64

definition bounded_sink_with_capacity :: "stream_attribution \<Rightarrow> nat \<Rightarrow> bounded_sink" where
  "bounded_sink_with_capacity attribution capacity =
     \<lparr> bs_attribution = attribution, bs_capacity = max capacity 1, bs_chunks = [],
       bs_accepted = 0, bs_shed = 0 \<rparr>"

definition bounded_sink_new :: "stream_attribution \<Rightarrow> bounded_sink" where
  "bounded_sink_new attribution = bounded_sink_with_capacity attribution DEFAULT_BOUNDED_SINK_CAPACITY"

definition emit_attributed ::
  "bounded_sink \<Rightarrow> stream_chunk \<Rightarrow> (stream_ack, stream_error) result \<times> bounded_sink" where
  "emit_attributed self chunk =
     (case validate_chunk chunk of
        Err e \<Rightarrow> (Err e, self)
      | Ok _ \<Rightarrow>
          (let made_room =
             (if length (bs_chunks self) \<ge> bs_capacity self
              then self\<lparr> bs_chunks := tl (bs_chunks self), bs_shed := bs_shed self + 1 \<rparr>
              else self);
             pushed = made_room\<lparr> bs_chunks := bs_chunks made_room @ [chunk],
                                 bs_accepted := bs_accepted made_room + 1 \<rparr>
           in (Ok \<lparr> ack_attribution = bs_attribution pushed, ack_accepted = bs_accepted pushed,
                    ack_shed = bs_shed pushed \<rparr>, pushed)))"

definition bounded_sink_emit ::
  "bounded_sink \<Rightarrow> stream_chunk \<Rightarrow> (unit, stream_error) result \<times> bounded_sink" where
  "bounded_sink_emit self chunk =
     (case emit_attributed self chunk of
        (Ok _, self') \<Rightarrow> (Ok (), self')
      | (Err e, self') \<Rightarrow> (Err e, self'))"


section \<open>Splitting a text into fragments\<close>

text \<open>
  The loop of \<open>fragment_text\<close>; \<^const>\<open>None\<close> would be a loop that does not end. The inner loop that
  moves \<open>end\<close> back to a character boundary is \<^const>\<open>floor_boundary\<close>.
\<close>

partial_function (option) fragment_loop ::
  "fragment_kind \<Rightarrow> string \<Rightarrow> nat \<Rightarrow> fragment list \<Rightarrow> fragment list option" where
  "fragment_loop kind txt start fragments =
     (if start < length txt then
        (let stop = floor_boundary txt (min (start + MAX_FRAGMENT_BYTES) (length txt))
         in fragment_loop kind txt stop
              (fragments @ [\<lparr> frag_kind = kind, frag_bytes = take (stop - start) (drop start txt) \<rparr>]))
      else Some fragments)"

definition fragment_text :: "fragment_kind \<Rightarrow> string \<Rightarrow> fragment list option" where
  "fragment_text kind txt = (if txt = [] then Some [] else fragment_loop kind txt 0 [])"


section \<open>Emitting a batch\<close>

text \<open>
  The sink and the cancellation flag live in one world \<open>'w\<close>, since accepting a chunk may itself
  request cancellation. \<open>index\<close> is the position in the batch of \<open>n\<close> fragments.
\<close>

fun emit_loop ::
  "('w \<Rightarrow> stream_chunk \<Rightarrow> (unit, stream_error) result \<times> 'w) \<Rightarrow> ('w \<Rightarrow> bool) \<Rightarrow>
   u32 \<Rightarrow> u32 \<Rightarrow> nat \<Rightarrow> nat \<Rightarrow> fragment list \<Rightarrow> 'w \<Rightarrow> (u32 option, stream_error) result \<times> 'w" where
  "emit_loop emit cancelled start_seq next_seq n index [] w =
     (if cancelled w then (Ok None, w) else (Ok (Some next_seq), w))"
| "emit_loop emit cancelled start_seq next_seq n index (f # fs) w =
     (if cancelled w then (Ok None, w)
      else (case emit w \<lparr> chunk_seq = start_seq + of_nat index, chunk_total = next_seq,
                           chunk_is_final = (index + 1 = n), chunk_fragment = f \<rparr> of
              (Err e, w') \<Rightarrow> (Err e, w')
            | (Ok _, w') \<Rightarrow> emit_loop emit cancelled start_seq next_seq n (index + 1) fs w'))"

definition emit_fragments ::
  "('w \<Rightarrow> stream_chunk \<Rightarrow> (unit, stream_error) result \<times> 'w) \<Rightarrow> ('w \<Rightarrow> bool) \<Rightarrow>
   fragment list \<Rightarrow> u32 \<Rightarrow> 'w \<Rightarrow> (u32 option, stream_error) result \<times> 'w" where
  "emit_fragments emit cancelled fragments start_seq w =
     (if length fragments \<ge> 2 ^ 32
      then (Err (StE_InvalidFraming ''fragment batch exceeds the sequence space''), w)
      else (case checked_add start_seq (of_nat (length fragments)) of
              None \<Rightarrow> (Err (StE_InvalidFraming ''stream sequence exhausted''), w)
            | Some next_seq \<Rightarrow>
                emit_loop emit cancelled start_seq next_seq (length fragments) 0 fragments w))"


section \<open>Lemmas\<close>

subsection \<open>fragment_text\<close>

definition fragment_stop :: "string \<Rightarrow> nat \<Rightarrow> nat" where
  "fragment_stop txt start = floor_boundary txt (min (start + MAX_FRAGMENT_BYTES) (length txt))"

lemma fragment_stop_bounds:
  assumes "valid_utf8 txt" "start < length txt"
  shows "start < fragment_stop txt start" "fragment_stop txt start \<le> length txt"
    "fragment_stop txt start - start \<le> MAX_FRAGMENT_BYTES"
    "is_char_boundary txt (fragment_stop txt start)"
proof -
  define limit where "limit = min (start + MAX_FRAGMENT_BYTES) (length txt)"
  have limit: "start < limit" "limit \<le> length txt" "limit \<le> start + MAX_FRAGMENT_BYTES"
    using assms(2) by (auto simp: limit_def MAX_FRAGMENT_BYTES_def)
  have stop: "fragment_stop txt start \<le> limit"
    unfolding fragment_stop_def limit_def by (rule floor_boundary_le)
  show "start < fragment_stop txt start"
  proof (cases "limit = length txt")
    case True
    then have "is_char_boundary txt limit" by (simp add: is_char_boundary_def)
    then have "limit \<le> fragment_stop txt start"
      unfolding fragment_stop_def limit_def [symmetric] by (rule floor_boundary_greatest) simp
    with limit show ?thesis by simp
  next
    case False
    then have "limit = start + MAX_FRAGMENT_BYTES" by (auto simp: limit_def)
    moreover have "limit < fragment_stop txt start + 4"
      unfolding fragment_stop_def limit_def [symmetric]
      using assms(1) limit(2) by (rule floor_boundary_progress)
    ultimately show ?thesis by (simp add: MAX_FRAGMENT_BYTES_def)
  qed
  show "fragment_stop txt start \<le> length txt" "fragment_stop txt start - start \<le> MAX_FRAGMENT_BYTES"
    using stop limit by simp_all
  show "is_char_boundary txt (fragment_stop txt start)"
    by (simp add: fragment_stop_def floor_boundary_boundary)
qed

lemma fragment_slice_valid:
  assumes "valid_utf8 txt" "is_char_boundary txt start" "start < length txt"
  shows "valid_utf8 (take (fragment_stop txt start - start) (drop start txt))"
proof -
  note stop = fragment_stop_bounds [OF assms(1,3)]
  have "valid_utf8 (drop start txt)"
    using valid_utf8_boundary_split [OF assms(1,2)] assms(3) by simp
  moreover have "is_char_boundary (drop start txt) (fragment_stop txt start - start)"
    using stop by (auto simp: is_char_boundary_def)
  ultimately show ?thesis
    using valid_utf8_boundary_split [of "drop start txt" "fragment_stop txt start - start"] stop
    by simp
qed

definition fragment_ok :: "fragment_kind \<Rightarrow> fragment \<Rightarrow> bool" where
  "fragment_ok kind f \<longleftrightarrow> frag_kind f = kind \<and> frag_bytes f \<noteq> [] \<and>
     length (frag_bytes f) \<le> MAX_FRAGMENT_BYTES \<and> valid_utf8 (frag_bytes f)"

lemma fragment_loop_correct:
  assumes "valid_utf8 txt" "is_char_boundary txt start" "start \<le> length txt"
  shows "\<exists>fs. fragment_loop kind txt start acc = Some (acc @ fs) \<and>
     concat (map frag_bytes fs) = drop start txt \<and> (\<forall>f \<in> set fs. fragment_ok kind f)"
  using assms(2,3)
proof (induction "length txt - start" arbitrary: start acc rule: less_induct)
  case less
  show ?case
  proof (cases "start < length txt")
    case False
    with less.prems show ?thesis by (subst fragment_loop.simps) simp
  next
    case True
    let ?stop = "fragment_stop txt start"
    define f where "f = \<lparr> frag_kind = kind, frag_bytes = take (?stop - start) (drop start txt) \<rparr>"
    note stop = fragment_stop_bounds [OF assms(1) True]
    have f_ok: "fragment_ok kind f"
      using stop fragment_slice_valid [OF assms(1) less.prems(1) True]
      by (simp add: fragment_ok_def f_def)
    have "length txt - ?stop < length txt - start" using stop True by simp
    from less.hyps [OF this stop(4,2), of "acc @ [f]"] obtain fs where
      fs: "fragment_loop kind txt ?stop (acc @ [f]) = Some ((acc @ [f]) @ fs)"
        "concat (map frag_bytes fs) = drop ?stop txt" "\<forall>f \<in> set fs. fragment_ok kind f"
      by blast
    have "fragment_loop kind txt start acc = fragment_loop kind txt ?stop (acc @ [f])"
      using True by (subst fragment_loop.simps) (simp add: Let_def fragment_stop_def f_def)
    moreover have "drop ?stop txt = drop (?stop - start) (drop start txt)" using stop by simp
    then have "frag_bytes f @ drop ?stop txt = drop start txt"
      by (simp only: f_def fragment.select_convs append_take_drop_id)
    ultimately show ?thesis using fs f_ok by (intro exI [of _ "f # fs"]) simp
  qed
qed

subsection \<open>The sink contract\<close>

text \<open>
  The chunks a batch consists of, and the contract of \<open>StreamSink\<close>: an invalid chunk is refused
  with the state unchanged; a valid one is accepted, becomes the newest retained chunk, and only
  the oldest chunks may be dropped.
\<close>

definition batch_chunk :: "u32 \<Rightarrow> u32 \<Rightarrow> nat \<Rightarrow> nat \<Rightarrow> fragment \<Rightarrow> stream_chunk" where
  "batch_chunk start_seq next_seq n index f =
     \<lparr> chunk_seq = start_seq + of_nat index, chunk_total = next_seq,
       chunk_is_final = (index + 1 = n), chunk_fragment = f \<rparr>"

definition batch_chunks :: "u32 \<Rightarrow> fragment list \<Rightarrow> stream_chunk list" where
  "batch_chunks start_seq fs =
     map (\<lambda>i. batch_chunk start_seq (start_seq + of_nat (length fs)) (length fs) i (fs ! i))
       [0..<length fs]"

lemma unat_of_nat_u32: "i < 2 ^ 32 \<Longrightarrow> unat (of_nat i :: u32) = i"
  by (simp add: unat_of_nat)

lemma batch_chunk_seq:
  assumes "unat start_seq + n < 2 ^ 32" "i < n"
  shows "unat (start_seq + of_nat i :: u32) = unat start_seq + i"
  using assms by (simp add: unat_word_ariths unat_of_nat)

lemma batch_chunk_valid:
  assumes n: "unat start_seq + n < 2 ^ 32" and i: "i < n"
    and f: "length (frag_bytes f) \<le> MAX_FRAGMENT_BYTES"
  shows "validate_chunk (batch_chunk start_seq (start_seq + of_nat n) n i f) = Ok ()"
proof -
  have total: "unat (start_seq + of_nat n :: u32) = unat start_seq + n"
    using n by (simp add: unat_word_ariths unat_of_nat)
  have seq: "unat (start_seq + of_nat i :: u32) = unat start_seq + i"
    using n i by (rule batch_chunk_seq)
  have succ: "unat (start_seq + of_nat i + 1 :: u32) = unat start_seq + i + 1"
    using n i seq by (simp add: unat_word_ariths)
  have "start_seq + of_nat n \<noteq> 0" using total i by (metis add_is_0 not_less0 unat_0)
  moreover have "\<not> start_seq + of_nat i \<ge> start_seq + of_nat n"
    using total seq i by (simp add: word_le_nat_alt)
  moreover have "(start_seq + of_nat i + 1 = start_seq + of_nat n) = (i + 1 = n)"
    using total succ by (simp add: word_unat_eq_iff)
  ultimately show ?thesis using f by (simp add: validate_chunk_def batch_chunk_def)
qed

locale stream_sink =
  fixes emit :: "'w \<Rightarrow> stream_chunk \<Rightarrow> (unit, stream_error) result \<times> 'w"
    and chunks :: "'w \<Rightarrow> stream_chunk list"
  assumes emit_invalid: "validate_chunk c = Err e \<Longrightarrow> emit w c = (Err e, w)"
    and emit_valid: "validate_chunk c = Ok () \<Longrightarrow>
      fst (emit w c) = Ok () \<and> (\<exists>k. chunks (snd (emit w c)) = drop k (chunks w @ [c]))"
begin

lemma emit_loop_no_error:
  assumes "unat start_seq + n < 2 ^ 32" "index + length fs = n"
    and "\<forall>f \<in> set fs. length (frag_bytes f) \<le> MAX_FRAGMENT_BYTES"
  shows "\<exists>r. fst (emit_loop emit cancelled start_seq (start_seq + of_nat n) n index fs w) = Ok r"
  using assms(2,3)
proof (induction fs arbitrary: index w)
  case (Cons f fs)
  let ?c = "batch_chunk start_seq (start_seq + of_nat n) n index f"
  have "validate_chunk ?c = Ok ()"
    using assms(1) Cons.prems by (intro batch_chunk_valid) simp_all
  then have ok: "fst (emit w ?c) = Ok ()" by (rule emit_valid [THEN conjunct1])
  then show ?case
    using Cons.IH [of "index + 1" "snd (emit w ?c)"] Cons.prems
    by (auto simp: batch_chunk_def split: prod.splits result.splits)
qed simp

end

text \<open>A sink that retains everything it accepts.\<close>

locale lossless_sink = stream_sink +
  assumes emit_retains: "validate_chunk c = Ok () \<Longrightarrow> chunks (snd (emit w c)) = chunks w @ [c]"
begin

lemma emit_loop_prefix:
  assumes "unat start_seq + n < 2 ^ 32" "index + length fs = n"
    and "\<forall>f \<in> set fs. length (frag_bytes f) \<le> MAX_FRAGMENT_BYTES"
    and "emit_loop emit cancelled start_seq (start_seq + of_nat n) n index fs w = (r, w')"
  shows "\<exists>k \<le> length fs. chunks w' = chunks w @
      map (\<lambda>i. batch_chunk start_seq (start_seq + of_nat n) n (index + i) (fs ! i)) [0..<k] \<and>
    (r = Ok (Some (start_seq + of_nat n)) \<and> k = length fs \<and> \<not> cancelled w' \<or>
     r = Ok None \<and> cancelled w')"
  using assms(2-4)
proof (induction fs arbitrary: index w)
  case Nil
  then show ?case by (auto split: if_splits)
next
  case (Cons f fs)
  let ?b = "\<lambda>i. batch_chunk start_seq (start_seq + of_nat n) n (index + i) ((f # fs) ! i)"
  let ?c = "batch_chunk start_seq (start_seq + of_nat n) n index f"
  show ?case
  proof (cases "cancelled w")
    case True
    with Cons.prems(3) show ?thesis by (intro exI [of _ 0]) auto
  next
    case False
    obtain u where u: "u = snd (emit w ?c)" by simp
    have "validate_chunk ?c = Ok ()"
      using assms(1) Cons.prems by (intro batch_chunk_valid) simp_all
    then have ok: "fst (emit w ?c) = Ok ()" and ch: "chunks u = chunks w @ [?c]"
      using emit_valid emit_retains by (auto simp: u)
    have "emit_loop emit cancelled start_seq (start_seq + of_nat n) n (index + 1) fs u = (r, w')"
      using Cons.prems(3) False ok u by (auto simp: batch_chunk_def split: prod.splits result.splits)
    from Cons.IH [OF _ _ this] Cons.prems obtain k where k: "k \<le> length fs"
      "chunks w' = chunks u @ map (\<lambda>i. batch_chunk start_seq (start_seq + of_nat n) n (index + 1 + i) (fs ! i)) [0..<k]"
      "r = Ok (Some (start_seq + of_nat n)) \<and> k = length fs \<and> \<not> cancelled w' \<or> r = Ok None \<and> cancelled w'"
      by auto
    have "map ?b [0..<Suc k] = ?c # map (\<lambda>i. ?b (Suc i)) [0..<k]"
      by (simp only: map_upt_Suc) simp
    with k ch show ?thesis by (intro exI [of _ "Suc k"]) simp
  qed
qed

end

interpretation vec: lossless_sink vec_sink_emit vs_chunks
  by unfold_locales (auto simp: vec_sink_emit_def intro: exI [of _ 0])

interpretation bounded: stream_sink bounded_sink_emit bs_chunks
proof
  fix c e and w :: bounded_sink
  assume "validate_chunk c = Err e"
  then show "bounded_sink_emit w c = (Err e, w)"
    by (simp add: bounded_sink_emit_def emit_attributed_def)
next
  fix c and w :: bounded_sink
  assume ok: "validate_chunk c = Ok ()"
  let ?k = "if length (bs_chunks w) \<ge> bs_capacity w \<and> bs_chunks w \<noteq> [] then 1 else 0 :: nat"
  have "bs_chunks (snd (bounded_sink_emit w c)) = drop ?k (bs_chunks w @ [c])"
    using ok
    by (cases "bs_chunks w") (auto simp: bounded_sink_emit_def emit_attributed_def Let_def)
  moreover have "fst (bounded_sink_emit w c) = Ok ()"
    using ok by (simp add: bounded_sink_emit_def emit_attributed_def Let_def)
  ultimately show "fst (bounded_sink_emit w c) = Ok () \<and>
      (\<exists>k. bs_chunks (snd (bounded_sink_emit w c)) = drop k (bs_chunks w @ [c]))"
    by blast
qed

subsection \<open>The bounded sink as a window on the accepted chunks\<close>

fun emit_many :: "bounded_sink \<Rightarrow> stream_chunk list \<Rightarrow> bounded_sink" where
  "emit_many self [] = self"
| "emit_many self (c # cs) = emit_many (snd (bounded_sink_emit self c)) cs"

definition accepted_chunks :: "stream_chunk list \<Rightarrow> stream_chunk list" where
  "accepted_chunks cs = filter (\<lambda>c. is_ok (validate_chunk c)) cs"

text \<open>The abstraction: a sink of capacity \<open>k\<close> that has accepted \<open>xs\<close> retains the last \<open>k\<close> of them.\<close>

definition sink_window :: "bounded_sink \<Rightarrow> stream_chunk list \<Rightarrow> bool" where
  "sink_window s xs \<longleftrightarrow> 0 < bs_capacity s \<and>
     bs_chunks s = drop (length xs - bs_capacity s) xs \<and>
     bs_accepted s = of_nat (length xs) \<and> bs_shed s = of_nat (length xs - bs_capacity s)"

lemma sink_window_new: "sink_window (bounded_sink_with_capacity a k) []"
  by (simp add: sink_window_def bounded_sink_with_capacity_def)

lemma sink_window_emit:
  assumes "sink_window s xs"
  shows "sink_window (snd (bounded_sink_emit s c)) (xs @ accepted_chunks [c]) \<and>
    bs_capacity (snd (bounded_sink_emit s c)) = bs_capacity s"
proof (cases "validate_chunk c")
  case (Err e)
  with assms show ?thesis
    by (simp add: bounded_sink_emit_def emit_attributed_def accepted_chunks_def)
next
  case (Ok u)
  show ?thesis
  proof (cases "length xs < bs_capacity s")
    case True
    with assms Ok show ?thesis
      by (auto simp: bounded_sink_emit_def emit_attributed_def accepted_chunks_def sink_window_def Let_def)
  next
    case False
    then have "tl (drop (length xs - bs_capacity s) xs) = drop (Suc (length xs) - bs_capacity s) xs"
      by (simp add: tl_drop drop_Suc Suc_diff_le flip: drop_tl)
    with False assms Ok show ?thesis
      by (auto simp: bounded_sink_emit_def emit_attributed_def accepted_chunks_def sink_window_def
          Let_def Suc_diff_le)
  qed
qed

lemma sink_window_emit_many:
  "sink_window s xs \<Longrightarrow> sink_window (emit_many s cs) (xs @ accepted_chunks cs) \<and>
     bs_capacity (emit_many s cs) = bs_capacity s"
proof (induction cs arbitrary: s xs)
  case (Cons c cs)
  from sink_window_emit [OF Cons.prems, of c] Cons.IH show ?case
    by (fastforce simp: accepted_chunks_def split: if_splits)
qed (simp add: accepted_chunks_def)

section \<open>Properties\<close>

lemma length_batch_chunks [simp]: "length (batch_chunks start_seq fs) = length fs"
  by (simp add: batch_chunks_def)

lemma batch_chunks_bytes: "concatenated_bytes (batch_chunks start_seq fs) = concat (map frag_bytes fs)"
proof -
  have "map (frag_bytes \<circ> chunk_fragment) (batch_chunks start_seq fs) = map (\<lambda>i. frag_bytes (fs ! i)) [0..<length fs]"
    by (simp add: batch_chunks_def batch_chunk_def)
  also have "\<dots> = map frag_bytes fs" by (rule nth_equalityI) simp_all
  finally show ?thesis by (simp add: concatenated_bytes_def)
qed

lemma length_le_concat: "\<forall>x \<in> set xs. f x \<noteq> [] \<Longrightarrow> length xs \<le> length (concat (map f xs))"
proof (induction xs)
  case (Cons x xs)
  then have "Suc 0 \<le> length (f x)" by (cases "f x") auto
  with Cons show ?case by simp
qed simp

text \<open>Emission into a lossless sink, in terms of the batch's chunks.\<close>

lemma vec_emit_fragments:
  assumes "unat start_seq + length fs < 2 ^ 32"
    and "\<forall>f \<in> set fs. length (frag_bytes f) \<le> MAX_FRAGMENT_BYTES"
    and "emit_fragments vec_sink_emit cancelled fs start_seq w = (r, w')"
  shows "\<exists>k \<le> length fs. vs_chunks w' = vs_chunks w @ take k (batch_chunks start_seq fs) \<and>
    (r = Ok (Some (start_seq + of_nat (length fs))) \<and> k = length fs \<and> \<not> cancelled w' \<or>
     r = Ok None \<and> cancelled w')"
proof -
  have "checked_add start_seq (of_nat (length fs)) = Some (start_seq + of_nat (length fs))"
    using assms(1) by (simp add: checked_add_def unat_of_nat)
  with assms(1,3) have "emit_loop vec_sink_emit cancelled start_seq (start_seq + of_nat (length fs))
      (length fs) 0 fs w = (r, w')"
    by (simp add: emit_fragments_def)
  from vec.emit_loop_prefix [OF assms(1) _ assms(2) this] obtain k where "k \<le> length fs"
    "vs_chunks w' = vs_chunks w @
      map (\<lambda>i. batch_chunk start_seq (start_seq + of_nat (length fs)) (length fs) i (fs ! i)) [0..<k]"
    "r = Ok (Some (start_seq + of_nat (length fs))) \<and> k = length fs \<and> \<not> cancelled w' \<or>
     r = Ok None \<and> cancelled w'"
    by auto
  then show ?thesis by (intro exI [of _ k]) (simp add: batch_chunks_def take_map)
qed

lemma fragment_text_correct:
  assumes "valid_utf8 txt"
  shows "\<exists>fs. fragment_text kind txt = Some fs \<and> concat (map frag_bytes fs) = txt \<and>
    (\<forall>f \<in> set fs. fragment_ok kind f)"
  using fragment_loop_correct [OF assms, of 0 kind "[]"]
  by (auto simp: fragment_text_def is_char_boundary_def)

text \<open>
  C13. Text survives streaming: for every well-formed text the fragmenting loop returns, each
  fragment is non-empty, well-formed and within the 64 KiB bound, and emitting the fragments from
  sequence number 0 into an empty unbounded sink without cancellation succeeds, leaves exactly the
  bytes of the text in the sink and consumes one sequence number per fragment.
\<close>

theorem text_delivery_roundtrip:
  assumes "valid_utf8 txt" "length txt < 2 ^ 32"
  shows "\<exists>fs w. fragment_text kind txt = Some fs \<and> (\<forall>f \<in> set fs. fragment_ok kind f) \<and>
    emit_fragments vec_sink_emit (\<lambda>_. False) fs 0 vec_sink_new = (Ok (Some (of_nat (length fs))), w) \<and>
    concatenated_bytes (vs_chunks w) = txt \<and> length (vs_chunks w) = length fs"
proof -
  obtain fs where fs: "fragment_text kind txt = Some fs" "concat (map frag_bytes fs) = txt"
    "\<forall>f \<in> set fs. fragment_ok kind f"
    using fragment_text_correct [OF assms(1)] by blast
  then have "length fs \<le> length txt"
    using length_le_concat [of fs frag_bytes] by (simp add: fragment_ok_def)
  with assms(2) have bound: "unat (0 :: u32) + length fs < 2 ^ 32" by simp
  obtain r w where rw: "emit_fragments vec_sink_emit (\<lambda>_. False) fs 0 vec_sink_new = (r, w)"
    by fastforce
  have "\<forall>f \<in> set fs. length (frag_bytes f) \<le> MAX_FRAGMENT_BYTES"
    using fs(3) by (simp add: fragment_ok_def)
  from vec_emit_fragments [OF bound this rw] have "r = Ok (Some (of_nat (length fs)))"
    and "vs_chunks w = batch_chunks 0 fs"
    by (auto simp: vec_sink_new_def)
  with rw fs show ?thesis
    by (intro exI [of _ fs] exI [of _ w]) (simp add: batch_chunks_bytes)
qed

theorem text_delivery_roundtrip_witness:
  "\<exists>fs w. fragment_text FK_Markdown ''hi'' = Some fs \<and> (\<forall>f \<in> set fs. fragment_ok FK_Markdown f) \<and>
    emit_fragments vec_sink_emit (\<lambda>_. False) fs 0 vec_sink_new = (Ok (Some (of_nat (length fs))), w) \<and>
    concatenated_bytes (vs_chunks w) = ''hi'' \<and> length (vs_chunks w) = length fs"
  by (rule text_delivery_roundtrip) (simp_all add: valid_utf8_def utf8_trail_def second_byte_ok_def
      utf8_width_def Let_def)

text \<open>
  A batch continues the turn's sequence: whatever the sink held and whenever cancellation is
  observed, an emission of bounded fragments never fails, appends exactly the first \<open>k\<close> chunks of
  the batch, numbered consecutively from \<open>start_seq\<close>, and answers the next unused number exactly
  when the whole batch was delivered with no cancellation pending.
\<close>

theorem emit_batch_continues_sequence:
  assumes "unat start_seq + length fs < 2 ^ 32"
    and "\<forall>f \<in> set fs. length (frag_bytes f) \<le> MAX_FRAGMENT_BYTES"
    and "emit_fragments vec_sink_emit cancelled fs start_seq w = (r, w')"
  shows "\<exists>k \<le> length fs. \<exists>new. vs_chunks w' = vs_chunks w @ new \<and> length new = k \<and>
    map (unat \<circ> chunk_seq) new = [unat start_seq..<unat start_seq + k] \<and>
    map chunk_fragment new = take k fs \<and> (\<forall>c \<in> set new. validate_chunk c = Ok ()) \<and>
    (r = Ok (Some (start_seq + of_nat (length fs))) \<and> k = length fs \<and> \<not> cancelled w' \<or>
     r = Ok None \<and> cancelled w')"
proof -
  from vec_emit_fragments [OF assms] obtain k where k: "k \<le> length fs"
    and ch: "vs_chunks w' = vs_chunks w @ take k (batch_chunks start_seq fs)"
    and r: "r = Ok (Some (start_seq + of_nat (length fs))) \<and> k = length fs \<and> \<not> cancelled w' \<or>
     r = Ok None \<and> cancelled w'"
    by blast
  let ?new = "take k (batch_chunks start_seq fs)"
  have new: "?new = map (\<lambda>i. batch_chunk start_seq (start_seq + of_nat (length fs)) (length fs) i (fs ! i)) [0..<k]"
    using k by (simp add: batch_chunks_def take_map)
  have "map (unat \<circ> chunk_seq) ?new = map (\<lambda>i. unat start_seq + i) [0..<k]"
    using assms(1) k by (auto simp: new batch_chunk_def batch_chunk_seq)
  also have "\<dots> = [unat start_seq..<unat start_seq + k]"
    by (simp add: map_add_upt add.commute)
  finally have seqs: "map (unat \<circ> chunk_seq) ?new = [unat start_seq..<unat start_seq + k]" .
  have frags: "map chunk_fragment ?new = take k fs"
    using k by (intro nth_equalityI) (simp_all add: new batch_chunk_def)
  have "\<forall>c \<in> set ?new. validate_chunk c = Ok ()"
    using assms(1,2) k by (auto simp: new intro!: batch_chunk_valid)
  moreover have "length ?new = k" using k by (simp add: batch_chunks_def)
  ultimately show ?thesis using k ch r seqs frags by blast
qed

theorem emit_batch_continues_sequence_witness:
  "\<exists>k \<le> 1. \<exists>new. vs_chunks (snd (emit_fragments vec_sink_emit (\<lambda>_. False)
        [\<lparr> frag_kind = FK_Diff, frag_bytes = ''x'' \<rparr>] 7 vec_sink_new)) = [] @ new \<and> length new = k \<and>
    map (unat \<circ> chunk_seq) new = [7..<7 + k]"
  using emit_batch_continues_sequence [of 7 "[\<lparr> frag_kind = FK_Diff, frag_bytes = ''x'' \<rparr>]"
      "\<lambda>_. False" vec_sink_new, OF _ _ surjective_pairing]
  by (auto simp: MAX_FRAGMENT_BYTES_def vec_sink_new_def)

text \<open>
  The bounded sink is a window: after any sequence of emissions into a new sink it retains the
  last \<open>max capacity 1\<close> of the chunks that passed validation, in order, and its two counters are
  the numbers of accepted and of shed chunks, so no loss is silent.
\<close>

theorem bounded_sink_is_window:
  "bs_chunks (emit_many (bounded_sink_with_capacity attribution capacity) cs) =
     drop (length (accepted_chunks cs) - max capacity 1) (accepted_chunks cs) \<and>
   bs_accepted (emit_many (bounded_sink_with_capacity attribution capacity) cs) =
     of_nat (length (accepted_chunks cs)) \<and>
   bs_shed (emit_many (bounded_sink_with_capacity attribution capacity) cs) =
     of_nat (length (accepted_chunks cs) - max capacity 1)"
  using sink_window_emit_many [OF sink_window_new, of attribution capacity cs]
  by (simp add: sink_window_def bounded_sink_with_capacity_def)

end
