(* ===== verification/Reasons.thy ===== *)
theory Reasons
  imports Rust_Text
begin

text \<open>
  The bounded, printable rendering of untrusted diagnostics (\<open>bound_reason\<close> of
  \<open>bitty-ai-runtime/src/bridge.rs\<close>), which every other component applies to names and reasons that
  come from outside.
\<close>

definition MAX_REASON_BYTES :: nat where
  "MAX_REASON_BYTES = 512"

definition printable_char :: "char \<Rightarrow> bool" where
  "printable_char c \<longleftrightarrow> is_ascii_graphic c \<or> c = CHR '' ''"

text \<open>The character pushed for one character of the reason: itself if printable, else a question mark.\<close>

fun bound_char :: "bytes \<Rightarrow> char" where
  "bound_char [c] = (if printable_char c then c else CHR ''?'')"
| "bound_char _ = CHR ''?''"

fun bound_loop :: "bytes list \<Rightarrow> string \<Rightarrow> string" where
  "bound_loop [] bounded = bounded"
| "bound_loop (c # cs) bounded =
     (if length bounded \<ge> MAX_REASON_BYTES then bounded
      else bound_loop cs (bounded @ [bound_char c]))"

definition bound_reason :: "string \<Rightarrow> string" where
  "bound_reason reason = bound_loop (str_chars reason) []"

section \<open>Lemmas\<close>

lemma bound_loop_eq:
  "bound_loop cs b = b @ map bound_char (take (MAX_REASON_BYTES - length b) cs)"
  by (induction cs arbitrary: b) (auto simp: take_Cons' not_le)

lemma bound_reason_eq: "bound_reason s = map bound_char (take MAX_REASON_BYTES (str_chars s))"
  by (simp add: bound_reason_def bound_loop_eq)

definition bounded_text :: "string \<Rightarrow> bool" where
  "bounded_text s \<longleftrightarrow> length s \<le> MAX_REASON_BYTES \<and> list_all printable_char s"

lemma printable_bound_char: "printable_char (bound_char c)"
  by (cases c rule: bound_char.cases) (auto simp: printable_char_def is_ascii_graphic_def)

lemma bound_reason_bounded [simp, intro]: "bounded_text (bound_reason s)"
  by (auto simp: bounded_text_def bound_reason_eq list_all_iff printable_bound_char)

lemma printable_ascii: "printable_char c \<Longrightarrow> byte_val c < 128"
  by (auto simp: printable_char_def is_ascii_graphic_def)

lemma utf8_items_ascii:
  "list_all (\<lambda>c. byte_val c < 128) s \<Longrightarrow> utf8_items s = map (\<lambda>c. (True, [c])) s"
proof (induction s)
  case (Cons c s)
  then have w: "utf8_width c = 1" by (simp add: utf8_width_def)
  then have "\<not> second_byte_ok c d" for d using second_byte_width by fastforce
  then have "utf8_trail c s = []" by (simp add: utf8_trail_def split: list.splits)
  with Cons w show ?case by (simp add: Let_def)
qed simp

lemma valid_utf8_ascii: "list_all (\<lambda>c. byte_val c < 128) s \<Longrightarrow> valid_utf8 s"
  by (simp add: valid_utf8_def utf8_items_ascii list_all_iff)

lemma bounded_text_ascii: "bounded_text s \<Longrightarrow> list_all (\<lambda>c. byte_val c < 128) s"
  by (auto simp: bounded_text_def list_all_iff printable_ascii)

text \<open>Bounding is the identity on text that is already bounded and printable.\<close>

lemma bound_reason_id: "bounded_text s \<Longrightarrow> bound_reason s = s"
proof -
  assume s: "bounded_text s"
  then have "str_chars s = map (\<lambda>c. [c]) s"
    by (simp add: str_chars_def utf8_items_ascii bounded_text_ascii)
  moreover have "map bound_char (map (\<lambda>c. [c]) s) = s"
    using s by (simp add: bounded_text_def list_all_iff map_idI)
  ultimately show ?thesis using s by (simp add: bound_reason_eq bounded_text_def)
qed

lemma bound_reason_idem [simp]: "bound_reason (bound_reason s) = bound_reason s"
  by (simp add: bound_reason_id)

lemma bound_reason_Nil [simp]: "bound_reason [] = []"
  by (simp add: bound_reason_def str_chars_def)

end
