(* ===== verification/Tool_Spec.thy ===== *)
theory Tool_Spec
  imports Reasons Session
begin

text \<open>
  Tool declarations and the per-session registry (\<open>bitty-ai-runtime/src/tool.rs\<close>, first half): the
  error vocabulary with its rendering and its bounding, tool names, placements, specs, the registry
  and the digests. The registry is the \<open>Vec\<close> of specs in registration order.
\<close>

definition MAX_TOOL_NAME_LEN :: nat where
  "MAX_TOOL_NAME_LEN = 64"

definition MAX_TOOL_DESCRIPTION_LEN :: nat where
  "MAX_TOOL_DESCRIPTION_LEN = 512"

definition MAX_TOOL_SCHEMA_BYTES :: nat where
  "MAX_TOOL_SCHEMA_BYTES = 16 * 1024"

definition MAX_TOOLS_PER_SESSION :: nat where
  "MAX_TOOLS_PER_SESSION = 32"

definition MAX_NATIVE_PLACEMENT_BYTES :: nat where
  "MAX_NATIVE_PLACEMENT_BYTES = 512"

section \<open>Errors\<close>

datatype tool_error =
    TE_InvalidName string
  | TE_UnknownTool string
  | TE_DuplicateTool string
  | TE_ArgumentsTooLarge (te_limit: nat) (te_actual: nat)
  | TE_ResultTooLarge (te_limit: nat) (te_actual: nat)
  | TE_SummaryTooLarge (te_limit: nat) (te_actual: nat)
  | TE_CallLimitExceeded (te_limit: nat)
  | TE_RegistryFull (te_limit: nat)
  | TE_DescriptionTooLarge (te_limit: nat) (te_actual: nat)
  | TE_SchemaTooLarge (te_limit: nat) (te_actual: nat)
  | TE_UndeclaredPlacement string
  | TE_Denied string string
  | TE_Failed string string
  | TE_ProtocolRejected string string
  | TE_EffectUnknown string string

text \<open>The \<open>Display\<close> rendering; the arguments of the size errors are the limit and the actual size.\<close>

fun tool_error_display :: "tool_error \<Rightarrow> string" where
  "tool_error_display (TE_InvalidName name) = ''invalid tool name: '' @ name"
| "tool_error_display (TE_UnknownTool name) = ''unknown tool: '' @ name"
| "tool_error_display (TE_DuplicateTool name) = ''duplicate tool: '' @ name"
| "tool_error_display (TE_ArgumentsTooLarge limit actual) =
     ''tool arguments of '' @ show_nat actual @ '' bytes exceed '' @ show_nat limit @ '' byte limit''"
| "tool_error_display (TE_ResultTooLarge limit actual) =
     ''tool result of '' @ show_nat actual @ '' bytes exceeds '' @ show_nat limit @ '' byte limit''"
| "tool_error_display (TE_SummaryTooLarge limit actual) =
     ''tool summary of '' @ show_nat actual @ '' bytes exceeds '' @ show_nat limit @ '' byte limit''"
| "tool_error_display (TE_CallLimitExceeded limit) =
     ''tool call limit of '' @ show_nat limit @ '' per turn exceeded''"
| "tool_error_display (TE_RegistryFull limit) =
     ''tool registry full at '' @ show_nat limit @ '' tools''"
| "tool_error_display (TE_DescriptionTooLarge limit actual) =
     ''tool description of '' @ show_nat actual @ '' bytes exceeds '' @ show_nat limit @ '' byte limit''"
| "tool_error_display (TE_SchemaTooLarge limit actual) =
     ''tool schema of '' @ show_nat actual @ '' bytes exceeds '' @ show_nat limit @ '' byte limit''"
| "tool_error_display (TE_UndeclaredPlacement name) = ''undeclared tool placement: '' @ name"
| "tool_error_display (TE_Denied name reason) = ''tool '' @ name @ '' denied: '' @ reason"
| "tool_error_display (TE_Failed name reason) = ''tool '' @ name @ '' failed: '' @ reason"
| "tool_error_display (TE_ProtocolRejected name reason) =
     ''tool '' @ name @ '' protocol rejected: '' @ reason"
| "tool_error_display (TE_EffectUnknown name reason) =
     ''tool '' @ name @ '' effect unknown: '' @ reason"

fun tool_error_normalized :: "tool_error \<Rightarrow> tool_error" where
  "tool_error_normalized (TE_InvalidName name) = TE_InvalidName (bound_reason name)"
| "tool_error_normalized (TE_UnknownTool name) = TE_UnknownTool (bound_reason name)"
| "tool_error_normalized (TE_DuplicateTool name) = TE_DuplicateTool (bound_reason name)"
| "tool_error_normalized (TE_UndeclaredPlacement name) = TE_UndeclaredPlacement (bound_reason name)"
| "tool_error_normalized (TE_Denied name reason) =
     TE_Denied (bound_reason name) (bound_reason reason)"
| "tool_error_normalized (TE_Failed name reason) =
     TE_Failed (bound_reason name) (bound_reason reason)"
| "tool_error_normalized (TE_ProtocolRejected name reason) =
     TE_ProtocolRejected (bound_reason name) (bound_reason reason)"
| "tool_error_normalized (TE_EffectUnknown name reason) =
     TE_EffectUnknown (bound_reason name) (bound_reason reason)"
| "tool_error_normalized e = e"

section \<open>Names, placements and specs\<close>

definition tool_name_char :: "char \<Rightarrow> bool" where
  "tool_name_char b \<longleftrightarrow>
     is_ascii_lowercase b \<or> is_ascii_digit b \<or> b = CHR ''_'' \<or> b = CHR ''.'' \<or> b = CHR ''-''"

definition valid_tool_name :: "string \<Rightarrow> bool" where
  "valid_tool_name name \<longleftrightarrow>
     name \<noteq> [] \<and> length name \<le> MAX_TOOL_NAME_LEN
     \<and> (case name of [] \<Rightarrow> False | b # _ \<Rightarrow> is_ascii_lowercase b)
     \<and> list_all tool_name_char name"

definition validate_tool_name :: "string \<Rightarrow> (unit, tool_error) result" where
  "validate_tool_name name =
     (if valid_tool_name name then Ok () else Err (TE_InvalidName (bound_reason name)))"

datatype tool_placement = TP_Mcp | TP_Native

definition placement_parse :: "string \<Rightarrow> (tool_placement, tool_error) result" where
  "placement_parse value =
     (if value = ''mcp'' then Ok TP_Mcp
      else if value = ''native'' then Ok TP_Native
      else Err (TE_UndeclaredPlacement (bound_reason value)))"

fun placement_as_str :: "tool_placement \<Rightarrow> string" where
  "placement_as_str TP_Mcp = ''mcp''"
| "placement_as_str TP_Native = ''native''"

record native_placement =
  np_reason :: string
  np_backend :: string

record tool_spec =
  spec_name :: string
  spec_description :: string
  spec_schema_json :: bytes
  spec_required_scope :: string
  spec_read_only :: bool
  spec_placement :: "tool_placement option"
  spec_native :: "native_placement option"

fun validate_placement ::
  "string \<Rightarrow> tool_placement option \<Rightarrow> native_placement option \<Rightarrow> (unit, tool_error) result" where
  "validate_placement name None native = Err (TE_UndeclaredPlacement name)"
| "validate_placement name (Some TP_Mcp) None = Ok ()"
| "validate_placement name (Some TP_Mcp) (Some detail) = Err (TE_UndeclaredPlacement name)"
| "validate_placement name (Some TP_Native) None = Err (TE_UndeclaredPlacement name)"
| "validate_placement name (Some TP_Native) (Some detail) =
     (if np_reason detail \<noteq> [] \<and> np_backend detail \<noteq> []
         \<and> length (np_reason detail) \<le> MAX_NATIVE_PLACEMENT_BYTES
         \<and> length (np_backend detail) \<le> MAX_NATIVE_PLACEMENT_BYTES
      then Ok () else Err (TE_UndeclaredPlacement name))"

definition tool_spec_new ::
  "string \<Rightarrow> string \<Rightarrow> bytes \<Rightarrow> string \<Rightarrow> bool \<Rightarrow> tool_placement \<Rightarrow> native_placement option
     \<Rightarrow> (tool_spec, tool_error) result" where
  "tool_spec_new name description schema_json required_scope read_only placement native =
     and_then (validate_tool_name name) (\<lambda>_.
     if length description > MAX_TOOL_DESCRIPTION_LEN
     then Err (TE_DescriptionTooLarge MAX_TOOL_DESCRIPTION_LEN (length description))
     else if length schema_json > MAX_TOOL_SCHEMA_BYTES
     then Err (TE_SchemaTooLarge MAX_TOOL_SCHEMA_BYTES (length schema_json))
     else and_then (validate_placement name (Some placement) native) (\<lambda>_.
     Ok \<lparr> spec_name = name, spec_description = description, spec_schema_json = schema_json,
          spec_required_scope = required_scope, spec_read_only = read_only,
          spec_placement = Some placement, spec_native = native \<rparr>))"

definition schema_digest :: "tool_spec \<Rightarrow> u64" where
  "schema_digest spec = fnv1a64 (spec_schema_json spec)"

section \<open>The registry\<close>

record tool_registry =
  reg_specs :: "tool_spec list"

definition tool_registry_new :: tool_registry where
  "tool_registry_new = \<lparr> reg_specs = [] \<rparr>"

definition tool_register ::
  "tool_spec \<Rightarrow> tool_registry \<Rightarrow> (unit, tool_error) result \<times> tool_registry" where
  "tool_register spec reg =
     (if list_ex (\<lambda>kept. spec_name kept = spec_name spec) (reg_specs reg)
      then (Err (TE_DuplicateTool (spec_name spec)), reg)
      else case validate_tool_name (spec_name spec) of
        Err e \<Rightarrow> (Err e, reg)
      | Ok _ \<Rightarrow>
        if length (spec_description spec) > MAX_TOOL_DESCRIPTION_LEN
        then (Err (TE_DescriptionTooLarge MAX_TOOL_DESCRIPTION_LEN
                     (length (spec_description spec))), reg)
        else if length (spec_schema_json spec) > MAX_TOOL_SCHEMA_BYTES
        then (Err (TE_SchemaTooLarge MAX_TOOL_SCHEMA_BYTES (length (spec_schema_json spec))), reg)
        else case validate_placement (spec_name spec) (spec_placement spec) (spec_native spec) of
          Err e \<Rightarrow> (Err e, reg)
        | Ok _ \<Rightarrow>
          if length (reg_specs reg) \<ge> MAX_TOOLS_PER_SESSION
          then (Err (TE_RegistryFull MAX_TOOLS_PER_SESSION), reg)
          else (Ok (), reg\<lparr> reg_specs := reg_specs reg @ [spec] \<rparr>))"

definition tool_lookup :: "tool_registry \<Rightarrow> string \<Rightarrow> tool_spec option" where
  "tool_lookup reg name = find (\<lambda>spec. spec_name spec = name) (reg_specs reg)"

definition tool_names :: "tool_registry \<Rightarrow> string list" where
  "tool_names reg = map spec_name (reg_specs reg)"

section \<open>Lemmas\<close>

text \<open>A normalized error carries only bounded printable text, and normalizing again changes nothing.\<close>

fun tool_error_bounded :: "tool_error \<Rightarrow> bool" where
  "tool_error_bounded (TE_InvalidName name) \<longleftrightarrow> bounded_text name"
| "tool_error_bounded (TE_UnknownTool name) \<longleftrightarrow> bounded_text name"
| "tool_error_bounded (TE_DuplicateTool name) \<longleftrightarrow> bounded_text name"
| "tool_error_bounded (TE_UndeclaredPlacement name) \<longleftrightarrow> bounded_text name"
| "tool_error_bounded (TE_Denied name reason) \<longleftrightarrow> bounded_text name \<and> bounded_text reason"
| "tool_error_bounded (TE_Failed name reason) \<longleftrightarrow> bounded_text name \<and> bounded_text reason"
| "tool_error_bounded (TE_ProtocolRejected name reason) \<longleftrightarrow> bounded_text name \<and> bounded_text reason"
| "tool_error_bounded (TE_EffectUnknown name reason) \<longleftrightarrow> bounded_text name \<and> bounded_text reason"
| "tool_error_bounded _ \<longleftrightarrow> True"

lemma tool_error_normalized_bounded [simp]: "tool_error_bounded (tool_error_normalized e)"
  by (cases e) auto

lemma tool_error_normalized_id: "tool_error_bounded e \<Longrightarrow> tool_error_normalized e = e"
  by (cases e) (auto simp: bound_reason_id)

lemma tool_error_normalized_idem [simp]:
  "tool_error_normalized (tool_error_normalized e) = tool_error_normalized e"
  by (simp add: tool_error_normalized_id)

lemma validate_tool_name_Ok_iff [result_simps]:
  "validate_tool_name name = Ok u \<longleftrightarrow> valid_tool_name name"
  by (simp add: validate_tool_name_def)

lemma tool_name_char_printable: "tool_name_char c \<Longrightarrow> printable_char c"
  by (auto simp: tool_name_char_def printable_char_def ascii_class_defs)

lemma valid_tool_name_bounded: "valid_tool_name name \<Longrightarrow> bounded_text name"
  by (auto simp: valid_tool_name_def bounded_text_def MAX_TOOL_NAME_LEN_def MAX_REASON_BYTES_def
      list_all_iff tool_name_char_printable)

lemma bound_valid_tool_name [simp]: "valid_tool_name name \<Longrightarrow> bound_reason name = name"
  by (simp add: bound_reason_id valid_tool_name_bounded)

lemma placement_roundtrip: "placement_parse v = Ok p \<longleftrightarrow> v = placement_as_str p"
  by (cases p) (auto simp: placement_parse_def)

text \<open>What registration accepts, and the registry invariant.\<close>

definition spec_ok :: "tool_spec \<Rightarrow> bool" where
  "spec_ok spec \<longleftrightarrow>
     valid_tool_name (spec_name spec)
     \<and> length (spec_description spec) \<le> MAX_TOOL_DESCRIPTION_LEN
     \<and> length (spec_schema_json spec) \<le> MAX_TOOL_SCHEMA_BYTES
     \<and> validate_placement (spec_name spec) (spec_placement spec) (spec_native spec) = Ok ()"

definition registry_inv :: "tool_registry \<Rightarrow> bool" where
  "registry_inv reg \<longleftrightarrow>
     length (reg_specs reg) \<le> MAX_TOOLS_PER_SESSION \<and> distinct (tool_names reg)
     \<and> list_all spec_ok (reg_specs reg)"

lemma tool_spec_new_Ok:
  "tool_spec_new n d s r ro p detail = Ok spec \<Longrightarrow> spec_ok spec \<and> spec_name spec = n"
  by (auto simp: tool_spec_new_def spec_ok_def result_simps split: if_splits)

lemma tool_register_cases:
  "tool_register spec reg = (r, reg') \<Longrightarrow>
     (r = Ok () \<and> reg' = reg\<lparr> reg_specs := reg_specs reg @ [spec] \<rparr> \<and> spec_ok spec
        \<and> spec_name spec \<notin> set (tool_names reg) \<and> length (reg_specs reg) < MAX_TOOLS_PER_SESSION)
     \<or> ((\<exists>e. r = Err e) \<and> reg' = reg
        \<and> \<not> (spec_ok spec \<and> spec_name spec \<notin> set (tool_names reg)
             \<and> length (reg_specs reg) < MAX_TOOLS_PER_SESSION))"
proof -
  assume reg: "tool_register spec reg = (r, reg')"
  have dup: "list_ex (\<lambda>kept. spec_name kept = spec_name spec) (reg_specs reg)
             \<longleftrightarrow> spec_name spec \<in> set (tool_names reg)"
    by (simp add: tool_names_def list_ex_key_iff)
  show ?thesis
  proof (cases "validate_placement (spec_name spec) (spec_placement spec) (spec_native spec)"
      rule: result_unit_cases)
    case Ok
    with reg show ?thesis
      by (auto simp: tool_register_def dup spec_ok_def validate_tool_name_def split: if_splits)
  next
    case (Err e)
    from reg show ?thesis
      by (auto simp: Err tool_register_def dup spec_ok_def validate_tool_name_def split: if_splits)
  qed
qed

lemma registry_inv_new: "registry_inv tool_registry_new"
  by (simp add: registry_inv_def tool_registry_new_def tool_names_def)

lemma registry_inv_register: "registry_inv reg \<Longrightarrow> registry_inv (snd (tool_register spec reg))"
  using tool_register_cases [of spec reg "fst (tool_register spec reg)" "snd (tool_register spec reg)"]
  by (auto simp: registry_inv_def tool_names_def)

lemma tool_lookup_Some:
  "tool_lookup reg name = Some spec \<Longrightarrow> spec \<in> set (reg_specs reg) \<and> spec_name spec = name"
  unfolding tool_lookup_def by (rule find_key_Some)

lemma tool_lookup_None_iff: "tool_lookup reg name = None \<longleftrightarrow> name \<notin> set (tool_names reg)"
  by (simp add: tool_lookup_def find_key_None_iff tool_names_def)

lemma tool_lookup_name: "registry_inv reg \<Longrightarrow> tool_lookup reg name = Some spec \<Longrightarrow> valid_tool_name name"
  by (auto dest!: tool_lookup_Some simp: registry_inv_def list_all_iff spec_ok_def)

lemma tool_lookup_push:
  "spec_name spec \<notin> set (tool_names reg) \<Longrightarrow>
   tool_lookup (reg\<lparr> reg_specs := reg_specs reg @ [spec] \<rparr>) name =
     (if name = spec_name spec then Some spec else tool_lookup reg name)"
  using tool_lookup_None_iff [of reg "spec_name spec"]
  by (auto simp: tool_lookup_def find_append split: option.splits)

section \<open>Properties\<close>

text \<open>
  Registration is all-or-nothing: on success the spec is well formed, its name was new and
  lookup afterwards answers exactly like before except for that name; on refusal the registry is
  unchanged, and a well-formed fresh spec is refused only by a full registry. The registry
  invariant (at most 32 well-formed specs under distinct names) is kept either way.
\<close>

theorem register_extends_lookup:
  assumes inv: "registry_inv reg" and reg: "tool_register spec reg = (r, reg')"
  shows "registry_inv reg'
         \<and> (case r of
              Ok _ \<Rightarrow> spec_ok spec \<and> tool_lookup reg (spec_name spec) = None
                    \<and> (\<forall>name. tool_lookup reg' name =
                          (if name = spec_name spec then Some spec else tool_lookup reg name))
            | Err e \<Rightarrow> reg' = reg
                    \<and> (spec_ok spec \<and> tool_lookup reg (spec_name spec) = None
                       \<longrightarrow> length (reg_specs reg) = MAX_TOOLS_PER_SESSION))"
proof -
  have "registry_inv reg'" using registry_inv_register [OF inv, of spec] reg by simp
  then show ?thesis
    using tool_register_cases [OF reg] inv
    by (auto simp: tool_lookup_None_iff tool_lookup_push registry_inv_def)
qed

theorem register_extends_lookup_witness:
  defines "spec \<equiv> \<lparr> spec_name = ''read'', spec_description = '''', spec_schema_json = ''{}'',
                    spec_required_scope = ''fs'', spec_read_only = True,
                    spec_placement = Some TP_Mcp, spec_native = None \<rparr>"
  shows "registry_inv tool_registry_new
         \<and> tool_register spec tool_registry_new = (Ok (), \<lparr> reg_specs = [spec] \<rparr>)
         \<and> tool_lookup \<lparr> reg_specs = [spec] \<rparr> ''read'' = Some spec"
proof -
  have reg: "tool_register spec tool_registry_new = (Ok (), \<lparr> reg_specs = [spec] \<rparr>)"
    by (simp add: spec_def tool_register_def tool_registry_new_def validate_tool_name_def
        valid_tool_name_def tool_name_char_def ascii_class_defs MAX_TOOL_NAME_LEN_def
        MAX_TOOL_DESCRIPTION_LEN_def MAX_TOOL_SCHEMA_BYTES_def MAX_TOOLS_PER_SESSION_def)
  show ?thesis
    using register_extends_lookup [OF registry_inv_new reg] reg registry_inv_new
    by (simp add: spec_def)
qed

end
