(* ===== verification/Bridge.thy ===== *)
theory Bridge
  imports Tool_Spec
begin

text \<open>
  The identity bridge and the consent gate (\<open>bitty-ai-runtime/src/bridge.rs\<close>): wire principals
  \<open>owner.name\<close>, the single binding of a principal to a runtime instance, the consent ledger seam
  with its default-deny and its grant-table implementation, and the enforcement helpers that both
  dispatch paths share. A ledger is seen by its clients only through \<open>check\<close>; the locale
  \<open>consent_check\<close> states what a check may depend on and \<open>consent_store\<close> adds the updates.
\<close>

section \<open>Errors\<close>

definition MAX_PROTOCOL_ID_LEN :: nat where
  "MAX_PROTOCOL_ID_LEN = 128"

definition MAX_PROTOCOL_ID_SEGMENT_LEN :: nat where
  "MAX_PROTOCOL_ID_SEGMENT_LEN = 64"

definition MAX_CONSENT_GRANTS :: nat where
  "MAX_CONSENT_GRANTS = 64"

definition MAX_CONSENT_SCOPE_LEN :: nat where
  "MAX_CONSENT_SCOPE_LEN = 128"

definition DEFAULT_CONSENT_TTL_MS :: u64 where
  "DEFAULT_CONSENT_TTL_MS = 120000"

datatype bridge_error =
    BE_InvalidProtocolId string string
  | BE_AlreadyBound string string
  | BE_UnknownProtocol string
  | BE_UnknownInstance u64
  | BE_InvalidGrant string
  | BE_LedgerFull nat
  | BE_ConsentDenied string string

fun bridge_error_display :: "bridge_error \<Rightarrow> string" where
  "bridge_error_display (BE_InvalidProtocolId i reason) =
     ''invalid protocol id '' @ [CHR 0x27] @ i @ [CHR 0x27] @ '': '' @ reason"
| "bridge_error_display (BE_AlreadyBound existing rejected) =
     ''bridge already bound to '' @ [CHR 0x27] @ existing @ [CHR 0x27] @ ''; rejected ''
       @ [CHR 0x27] @ rejected @ [CHR 0x27] @ '' (single-agent)''"
| "bridge_error_display (BE_UnknownProtocol protocol) =
     ''unknown protocol principal '' @ [CHR 0x27] @ protocol @ [CHR 0x27]"
| "bridge_error_display (BE_UnknownInstance inst) =
     ''unknown agent instance '' @ [CHR 0x27] @ show_nat (unat inst) @ [CHR 0x27]"
| "bridge_error_display (BE_InvalidGrant reason) = ''invalid consent grant: '' @ reason"
| "bridge_error_display (BE_LedgerFull limit) =
     ''consent ledger full at '' @ show_nat limit @ '' grants''"
| "bridge_error_display (BE_ConsentDenied tool reason) =
     ''consent denied for '' @ [CHR 0x27] @ tool @ [CHR 0x27] @ '': '' @ reason"

section \<open>Wire principals\<close>

definition protocol_id_char :: "char \<Rightarrow> bool" where
  "protocol_id_char b \<longleftrightarrow>
     is_ascii_lowercase b \<or> is_ascii_digit b \<or> b = CHR ''-'' \<or> b = CHR ''_''"

text \<open>One iteration of the segment loop.\<close>

definition check_segment :: "string \<Rightarrow> string \<Rightarrow> (unit, bridge_error) result" where
  "check_segment raw segment =
     (case segment of
        [] \<Rightarrow> Err (BE_InvalidProtocolId (bound_reason raw) ''protocol id segment must not be empty'')
      | first # _ \<Rightarrow>
        if length segment > MAX_PROTOCOL_ID_SEGMENT_LEN
        then Err (BE_InvalidProtocolId (bound_reason raw)
                    (''segment too long (max '' @ show_nat MAX_PROTOCOL_ID_SEGMENT_LEN @ '')''))
        else if \<not> is_ascii_lowercase first
        then Err (BE_InvalidProtocolId (bound_reason raw) ''segment must start with lowercase letter'')
        else if \<not> list_all protocol_id_char segment
        then Err (BE_InvalidProtocolId (bound_reason raw) ''segment must be [a-z0-9_-]'')
        else Ok ())"

definition validate_protocol_id :: "string \<Rightarrow> (unit, bridge_error) result" where
  "validate_protocol_id raw =
     (if raw = [] then Err (BE_InvalidProtocolId (bound_reason raw) ''protocol id must not be empty'')
      else if length raw > MAX_PROTOCOL_ID_LEN
      then Err (BE_InvalidProtocolId (bound_reason raw)
                  (''protocol id too long (max '' @ show_nat MAX_PROTOCOL_ID_LEN @ '')''))
      else if list_ex is_whitespace (str_chars raw)
      then Err (BE_InvalidProtocolId (bound_reason raw) ''protocol id must not contain whitespace'')
      else if length (split_on (CHR ''.'') raw) \<noteq> 2
      then Err (BE_InvalidProtocolId (bound_reason raw)
                  ''protocol id must be exactly owner.name (one dot)'')
      else check_all (check_segment raw) (split_on (CHR ''.'') raw))"

datatype protocol_agent_id = ProtocolAgentId (pid_as_str: string)

definition protocol_agent_id_new :: "string \<Rightarrow> (protocol_agent_id, bridge_error) result" where
  "protocol_agent_id_new raw = and_then (validate_protocol_id raw) (\<lambda>_. Ok (ProtocolAgentId raw))"

definition pid_owner :: "protocol_agent_id \<Rightarrow> string" where
  "pid_owner p =
     (case split_once (CHR ''.'') (pid_as_str p) of Some (a, _) \<Rightarrow> a | None \<Rightarrow> pid_as_str p)"

definition pid_name :: "protocol_agent_id \<Rightarrow> string" where
  "pid_name p = (case split_once (CHR ''.'') (pid_as_str p) of Some (_, b) \<Rightarrow> b | None \<Rightarrow> [])"

section \<open>The identity bridge\<close>

record identity_bridge =
  ib_binding :: "(protocol_agent_id \<times> agent_instance_id) option"

definition identity_bridge_new :: identity_bridge where
  "identity_bridge_new = \<lparr> ib_binding = None \<rparr>"

definition bridge_bind ::
  "protocol_agent_id \<Rightarrow> agent_instance_id \<Rightarrow> identity_bridge
     \<Rightarrow> (unit, bridge_error) result \<times> identity_bridge" where
  "bridge_bind protocol inst b =
     (case ib_binding b of
        Some (existing_protocol, existing_instance) \<Rightarrow>
          if existing_protocol = protocol \<and> existing_instance = inst then (Ok (), b)
          else (Err (BE_AlreadyBound (pid_as_str existing_protocol) (pid_as_str protocol)), b)
      | None \<Rightarrow> (Ok (), b\<lparr> ib_binding := Some (protocol, inst) \<rparr>))"

definition resolve_instance ::
  "identity_bridge \<Rightarrow> string \<Rightarrow> (agent_instance_id, bridge_error) result" where
  "resolve_instance b protocol =
     and_then (validate_protocol_id protocol) (\<lambda>_.
     case ib_binding b of
       Some (bound_protocol, inst) \<Rightarrow>
         if pid_as_str bound_protocol = protocol then Ok inst else Err (BE_UnknownProtocol protocol)
     | None \<Rightarrow> Err (BE_UnknownProtocol protocol))"

definition resolve_protocol ::
  "identity_bridge \<Rightarrow> agent_instance_id \<Rightarrow> (protocol_agent_id, bridge_error) result" where
  "resolve_protocol b inst =
     (case ib_binding b of
        Some (protocol, bound) \<Rightarrow>
          if bound = inst then Ok protocol else Err (BE_UnknownInstance (instance_value inst))
      | None \<Rightarrow> Err (BE_UnknownInstance (instance_value inst)))"

section \<open>Consent\<close>

record consent_query =
  cq_protocol_id :: string
  cq_agent_instance :: agent_instance_id
  cq_tool :: string
  cq_scope :: string
  cq_now_ms :: u64

datatype consent_decision = CD_Allow | CD_Deny string

definition deny_all_check :: "consent_query \<Rightarrow> consent_decision" where
  "deny_all_check query = CD_Deny (bound_reason (''default-deny: no grant for '' @ cq_tool query))"

record fake_grant =
  fg_protocol :: string
  fg_tool :: string
  fg_scope :: string
  fg_expires_at_ms :: u64

record fake_ledger =
  fl_grants :: "fake_grant list"

definition fake_ledger_new :: fake_ledger where
  "fake_ledger_new = \<lparr> fl_grants = [] \<rparr>"

definition is_scope_byte :: "char \<Rightarrow> bool" where
  "is_scope_byte b \<longleftrightarrow>
     is_ascii_lowercase b \<or> is_ascii_digit b \<or> b = CHR ''_'' \<or> b = CHR ''.'' \<or> b = CHR ''-''"

text \<open>The in-place update of the first grant that \<open>find\<close> returns.\<close>

fun refresh_first :: "(fake_grant \<Rightarrow> bool) \<Rightarrow> u64 \<Rightarrow> fake_grant list \<Rightarrow> fake_grant list" where
  "refresh_first P e [] = []"
| "refresh_first P e (g # gs) =
     (if P g then g\<lparr> fg_expires_at_ms := e \<rparr> # gs else g # refresh_first P e gs)"

definition grant_matches :: "string \<Rightarrow> string \<Rightarrow> string \<Rightarrow> fake_grant \<Rightarrow> bool" where
  "grant_matches protocol tool scope g \<longleftrightarrow>
     fg_protocol g = protocol \<and> fg_tool g = tool \<and> fg_scope g = scope"

definition ledger_grant ::
  "string \<Rightarrow> string \<Rightarrow> string \<Rightarrow> u64 \<Rightarrow> fake_ledger \<Rightarrow> (unit, bridge_error) result \<times> fake_ledger" where
  "ledger_grant protocol tool scope expires_at_ms l =
     (case validate_protocol_id protocol of
        Err e \<Rightarrow> (Err e, l)
      | Ok _ \<Rightarrow>
        if tool = [] \<or> scope = []
        then (Err (BE_InvalidGrant ''tool and scope must not be empty''), l)
        else if CHR 0x00 \<in> set tool \<or> CHR 0x00 \<in> set scope
        then (Err (BE_InvalidGrant ''tool and scope must not contain NUL''), l)
        else case validate_tool_name tool of
          Err error \<Rightarrow> (Err (BE_InvalidGrant (bound_reason (tool_error_display error))), l)
        | Ok _ \<Rightarrow>
          if length scope > MAX_CONSENT_SCOPE_LEN
          then (Err (BE_InvalidGrant
                       (''scope too long (max '' @ show_nat MAX_CONSENT_SCOPE_LEN @ '')'')), l)
          else if \<not> list_all is_scope_byte scope
          then (Err (BE_InvalidGrant ''scope must be [a-z0-9_.-]''), l)
          else if list_ex (grant_matches protocol tool scope) (fl_grants l)
          then (Ok (), l\<lparr> fl_grants :=
                  refresh_first (grant_matches protocol tool scope) expires_at_ms (fl_grants l) \<rparr>)
          else if length (fl_grants l) \<ge> MAX_CONSENT_GRANTS
          then (Err (BE_LedgerFull MAX_CONSENT_GRANTS), l)
          else (Ok (), l\<lparr> fl_grants := fl_grants l @
                  [\<lparr> fg_protocol = protocol, fg_tool = tool, fg_scope = scope,
                     fg_expires_at_ms = expires_at_ms \<rparr>] \<rparr>))"

definition ledger_revoke :: "string \<Rightarrow> string \<Rightarrow> string \<Rightarrow> fake_ledger \<Rightarrow> bool \<times> fake_ledger" where
  "ledger_revoke protocol tool scope l =
     (let kept = filter (\<lambda>g. \<not> grant_matches protocol tool scope g) (fl_grants l)
      in (length kept \<noteq> length (fl_grants l), l\<lparr> fl_grants := kept \<rparr>))"

definition ledger_drain_expired ::
  "u64 \<Rightarrow> fake_ledger \<Rightarrow> (string \<times> string \<times> string) list \<times> fake_ledger" where
  "ledger_drain_expired now_ms l =
     (map (\<lambda>g. (fg_protocol g, fg_tool g, fg_scope g))
        (filter (\<lambda>g. now_ms \<ge> fg_expires_at_ms g) (fl_grants l)),
      l\<lparr> fl_grants := filter (\<lambda>g. \<not> now_ms \<ge> fg_expires_at_ms g) (fl_grants l) \<rparr>)"

definition ledger_check :: "fake_ledger \<Rightarrow> consent_query \<Rightarrow> consent_decision" where
  "ledger_check l query =
     (if list_ex (\<lambda>g. fg_protocol g = cq_protocol_id query \<and> fg_tool g = cq_tool query
                     \<and> fg_scope g = cq_scope query \<and> cq_now_ms query < fg_expires_at_ms g)
           (fl_grants l)
      then CD_Allow
      else CD_Deny (bound_reason
             (''no live consent for '' @ [CHR 0x27] @ cq_protocol_id query @ [CHR 0x27] @ '' on ''
              @ [CHR 0x27] @ cq_scope query @ [CHR 0x27] @ '' (tool '' @ cq_tool query @ '')'')))"

fun grant_turn_loop ::
  "string \<Rightarrow> u64 \<Rightarrow> (string \<times> string) list \<Rightarrow> (string \<times> string \<times> u64) list \<Rightarrow> fake_ledger
     \<Rightarrow> ((string \<times> string \<times> u64) list, bridge_error) result \<times> fake_ledger" where
  "grant_turn_loop protocol expires_at [] rendered l = (Ok rendered, l)"
| "grant_turn_loop protocol expires_at ((tool, scope) # grants) rendered l =
     (case ledger_grant protocol tool scope expires_at l of
        (Err e, l') \<Rightarrow> (Err e, l')
      | (Ok _, l') \<Rightarrow>
          grant_turn_loop protocol expires_at grants (rendered @ [(tool, scope, expires_at)]) l')"

definition grant_turn_set ::
  "string \<Rightarrow> (string \<times> string) list \<Rightarrow> u64 \<Rightarrow> u64 option \<Rightarrow> fake_ledger
     \<Rightarrow> ((string \<times> string \<times> u64) list, bridge_error) result \<times> fake_ledger" where
  "grant_turn_set protocol grants now_ms ttl_ms l =
     (let ttl = (case ttl_ms of Some t \<Rightarrow> t | None \<Rightarrow> DEFAULT_CONSENT_TTL_MS);
          expires_at = saturating_add now_ms ttl
      in grant_turn_loop protocol expires_at grants [] l)"

text \<open>The enforcement helpers take the ledger's \<open>check\<close>.\<close>

definition ensure_consented ::
  "(consent_query \<Rightarrow> consent_decision) \<Rightarrow> consent_query \<Rightarrow> (unit, bridge_error) result" where
  "ensure_consented check query =
     (case check query of
        CD_Allow \<Rightarrow> Ok ()
      | CD_Deny reason \<Rightarrow>
          Err (BE_ConsentDenied (bound_reason (cq_tool query)) (bound_reason reason)))"

definition ensure_consented_for_dispatch ::
  "(consent_query \<Rightarrow> consent_decision) \<Rightarrow> consent_query \<Rightarrow> (unit, tool_error) result" where
  "ensure_consented_for_dispatch check query =
     (case ensure_consented check query of
        Ok _ \<Rightarrow> Ok ()
      | Err error \<Rightarrow>
          Err (tool_error_normalized
                 (TE_Denied (bound_reason (cq_tool query))
                    (bound_reason (''consent denied: '' @ bridge_error_display error)))))"


section \<open>The consent interface\<close>

type_synonym consent_key = "string \<times> string \<times> string"

definition query_key :: "consent_query \<Rightarrow> consent_key" where
  "query_key q = (cq_protocol_id q, cq_tool q, cq_scope q)"

text \<open>
  A ledger is a partial function from exact triples to an expiry: a check allows the triples whose
  expiry lies strictly after the time of the query, and nothing else.
\<close>

locale consent_check =
  fixes check :: "'l \<Rightarrow> consent_query \<Rightarrow> consent_decision"
    and table :: "'l \<Rightarrow> consent_key \<rightharpoonup> u64"
    and wf :: "'l \<Rightarrow> bool"
  assumes check_Allow_iff:
    "wf l \<Longrightarrow> check l q = CD_Allow \<longleftrightarrow> (\<exists>e. table l (query_key q) = Some e \<and> cq_now_ms q < e)"
begin

text \<open>Consent only ever runs out: a query allowed at some time was allowed at every earlier time.\<close>

lemma allowed_earlier:
  "wf l \<Longrightarrow> check l q = CD_Allow \<Longrightarrow> t \<le> cq_now_ms q \<Longrightarrow> check l (q\<lparr> cq_now_ms := t \<rparr>) = CD_Allow"
  by (auto simp: check_Allow_iff query_key_def)

lemma ensure_consented_Ok_iff:
  "wf l \<Longrightarrow> ensure_consented (check l) q = Ok u
     \<longleftrightarrow> (\<exists>e. table l (query_key q) = Some e \<and> cq_now_ms q < e)"
  by (auto simp: ensure_consented_def check_Allow_iff [symmetric] split: consent_decision.splits)

lemma ensure_dispatch_Ok_iff:
  "wf l \<Longrightarrow> ensure_consented_for_dispatch (check l) q = Ok u
     \<longleftrightarrow> (\<exists>e. table l (query_key q) = Some e \<and> cq_now_ms q < e)"
  using ensure_consented_Ok_iff [of l q]
  by (auto simp: ensure_consented_for_dispatch_def split: result.splits)

end

locale consent_store = consent_check check table wf
  for check :: "'l \<Rightarrow> consent_query \<Rightarrow> consent_decision"
    and table :: "'l \<Rightarrow> consent_key \<rightharpoonup> u64" and wf :: "'l \<Rightarrow> bool" +
  fixes grant :: "string \<Rightarrow> string \<Rightarrow> string \<Rightarrow> u64 \<Rightarrow> 'l \<Rightarrow> (unit, bridge_error) result \<times> 'l"
    and revoke :: "string \<Rightarrow> string \<Rightarrow> string \<Rightarrow> 'l \<Rightarrow> bool \<times> 'l"
    and drain :: "u64 \<Rightarrow> 'l \<Rightarrow> consent_key list \<times> 'l"
  assumes grant_wf: "wf l \<Longrightarrow> grant p t s e l = (r, l') \<Longrightarrow> wf l'"
    and grant_Ok: "wf l \<Longrightarrow> grant p t s e l = (Ok u, l') \<Longrightarrow> table l' = (table l)((p, t, s) \<mapsto> e)"
    and grant_Err: "grant p t s e l = (Err b, l') \<Longrightarrow> l' = l"
    and revoke_wf: "wf l \<Longrightarrow> wf (snd (revoke p t s l))"
    and revoke_table: "wf l \<Longrightarrow> table (snd (revoke p t s l)) = (table l)((p, t, s) := None)"
    and drain_wf: "wf l \<Longrightarrow> wf (snd (drain now l))"
    and drain_table: "wf l \<Longrightarrow> table (snd (drain now l)) k =
          (case table l k of Some e \<Rightarrow> if now < e then Some e else None | None \<Rightarrow> None)"
begin

text \<open>A grant admits its triple until it expires, and changes no other triple.\<close>

lemma check_after_grant:
  assumes "wf l" and "grant p t s e l = (Ok u, l')"
  shows "check l' q = CD_Allow \<longleftrightarrow>
           (if query_key q = (p, t, s) then cq_now_ms q < e else check l q = CD_Allow)"
  using assms grant_wf [OF assms] grant_Ok [OF assms] by (auto simp: check_Allow_iff)

lemma check_after_revoke:
  assumes "wf l"
  shows "check (snd (revoke p t s l)) q = CD_Allow \<longleftrightarrow> query_key q \<noteq> (p, t, s) \<and> check l q = CD_Allow"
  using assms revoke_wf [OF assms] revoke_table [OF assms] by (auto simp: check_Allow_iff)

text \<open>Draining never changes the answer to a query at or after the drain.\<close>

lemma check_after_drain:
  assumes "wf l" and "now \<le> cq_now_ms q"
  shows "check (snd (drain now l)) q = CD_Allow \<longleftrightarrow> check l q = CD_Allow"
  using assms drain_wf [of l] drain_table [of l]
  by (auto simp: check_Allow_iff split: option.splits if_splits)

end

section \<open>Lemmas\<close>

definition segment_ok :: "string \<Rightarrow> bool" where
  "segment_ok s \<longleftrightarrow>
     s \<noteq> [] \<and> length s \<le> MAX_PROTOCOL_ID_SEGMENT_LEN \<and> is_ascii_lowercase (hd s)
     \<and> list_all protocol_id_char s"

lemma check_segment_Ok_iff [result_simps]: "check_segment raw s = Ok u \<longleftrightarrow> segment_ok s"
  by (auto simp: check_segment_def segment_ok_def split: list.splits)

lemma protocol_id_char_facts:
  "protocol_id_char c \<Longrightarrow> byte_val c < 128 \<and> \<not> is_whitespace [c] \<and> c \<noteq> CHR ''.''"
  by (auto simp: protocol_id_char_def ascii_class_defs is_whitespace_def Let_def)

lemma dotted_not_whitespace:
  assumes "list_all protocol_id_char a" and "list_all protocol_id_char b"
  shows "\<not> list_ex is_whitespace (str_chars (a @ CHR ''.'' # b))"
proof -
  let ?raw = "a @ CHR ''.'' # b"
  have *: "byte_val c < 128 \<and> \<not> is_whitespace [c]" if "c \<in> set ?raw" for c
    using that assms protocol_id_char_facts by (auto simp: list_all_iff is_whitespace_def)
  then have "list_all (\<lambda>c. byte_val c < 128) ?raw" unfolding list_all_iff by blast
  then have chars: "str_chars ?raw = map (\<lambda>c. [c]) ?raw"
    by (simp add: str_chars_def utf8_items_ascii del: map_append)
  show ?thesis unfolding chars list_ex_iff set_map using * by blast
qed

lemma validate_protocol_id_Ok_iff:
  "validate_protocol_id raw = Ok u \<longleftrightarrow>
     (\<exists>owner name. raw = owner @ CHR ''.'' # name \<and> segment_ok owner \<and> segment_ok name
        \<and> length raw \<le> MAX_PROTOCOL_ID_LEN)" (is "?l \<longleftrightarrow> ?r")
proof
  assume ?l
  then obtain a b where ab: "split_on (CHR ''.'') raw = [a, b]"
    by (auto simp: validate_protocol_id_def length_Suc_conv numeral_2_eq_2 split: if_splits)
  then have "raw = a @ CHR ''.'' # b" using split_on_pair_iff by blast
  moreover have "length raw \<le> MAX_PROTOCOL_ID_LEN"
    and segs: "check_all (check_segment raw) (split_on (CHR ''.'') raw) = Ok u"
    using \<open>?l\<close> by (auto simp: validate_protocol_id_def split: if_splits)
  moreover have "\<forall>s \<in> set [a, b]. segment_ok s"
    using segs unfolding ab check_all_Ok_iff check_segment_Ok_iff .
  ultimately show ?r by auto
next
  assume ?r
  then obtain a b where r: "raw = a @ CHR ''.'' # b" "segment_ok a" "segment_ok b"
    "length raw \<le> MAX_PROTOCOL_ID_LEN" by blast
  then have "CHR ''.'' \<notin> set a \<and> CHR ''.'' \<notin> set b"
    using protocol_id_char_facts by (auto simp: segment_ok_def list_all_iff)
  then have "split_on (CHR ''.'') raw = [a, b]"
    by (simp add: r split_on_append split_on_absent)
  moreover have "check_all (check_segment raw) [a, b] = Ok ()"
    using r unfolding check_all_Ok_iff check_segment_Ok_iff by simp
  ultimately show ?l
    using r dotted_not_whitespace [of a b]
    by (simp add: validate_protocol_id_def segment_ok_def del: check_all.simps)
qed


lemma protocol_agent_id_new_Ok:
  "protocol_agent_id_new raw = Ok p \<Longrightarrow>
     pid_as_str p = raw \<and> raw = pid_owner p @ CHR ''.'' # pid_name p
     \<and> segment_ok (pid_owner p) \<and> segment_ok (pid_name p)"
proof -
  assume new: "protocol_agent_id_new raw = Ok p"
  then have "validate_protocol_id raw = Ok ()" and p: "pid_as_str p = raw"
    by (auto simp: protocol_agent_id_new_def result_simps)
  then obtain a b where r: "raw = a @ CHR ''.'' # b" "segment_ok a" "segment_ok b"
    by (auto simp: validate_protocol_id_Ok_iff)
  then have "CHR ''.'' \<notin> set a"
    using protocol_id_char_facts by (auto simp: segment_ok_def list_all_iff)
  with r have "split_once (CHR ''.'') raw = Some (a, b)" by (simp add: split_once_Some_iff)
  with p r show ?thesis by (simp add: pid_owner_def pid_name_def)
qed

text \<open>The abstraction of the grant vector and its invariant.\<close>

definition grant_key :: "fake_grant \<Rightarrow> consent_key" where
  "grant_key g = (fg_protocol g, fg_tool g, fg_scope g)"

definition ledger_table :: "fake_ledger \<Rightarrow> consent_key \<rightharpoonup> u64" where
  "ledger_table l = map_of (map (\<lambda>g. (grant_key g, fg_expires_at_ms g)) (fl_grants l))"

definition grant_ok :: "fake_grant \<Rightarrow> bool" where
  "grant_ok g \<longleftrightarrow>
     validate_protocol_id (fg_protocol g) = Ok () \<and> valid_tool_name (fg_tool g)
     \<and> fg_scope g \<noteq> [] \<and> length (fg_scope g) \<le> MAX_CONSENT_SCOPE_LEN
     \<and> list_all is_scope_byte (fg_scope g)"

definition ledger_inv :: "fake_ledger \<Rightarrow> bool" where
  "ledger_inv l \<longleftrightarrow>
     length (fl_grants l) \<le> MAX_CONSENT_GRANTS \<and> distinct (map grant_key (fl_grants l))
     \<and> list_all grant_ok (fl_grants l)"

lemma grant_matches_key: "grant_matches p t s g \<longleftrightarrow> grant_key g = (p, t, s)"
  by (auto simp: grant_matches_def grant_key_def)

lemma list_ex_grant_matches:
  "list_ex (grant_matches p t s) gs \<longleftrightarrow> (p, t, s) \<in> set (map grant_key gs)"
  by (induction gs) (auto simp: grant_matches_key)

lemma refresh_first_keys [simp]: "map grant_key (refresh_first P e gs) = map grant_key gs"
  by (induction gs) (auto simp: grant_key_def)

lemma refresh_first_length [simp]: "length (refresh_first P e gs) = length gs"
  by (induction gs) auto

lemma refresh_first_ok: "list_all grant_ok gs \<Longrightarrow> list_all grant_ok (refresh_first P e gs)"
  by (induction gs) (auto simp: grant_ok_def)

lemma refresh_first_table:
  "(p, t, s) \<in> set (map grant_key gs) \<Longrightarrow>
   map_of (map (\<lambda>g. (grant_key g, fg_expires_at_ms g)) (refresh_first (grant_matches p t s) e gs))
     = (map_of (map (\<lambda>g. (grant_key g, fg_expires_at_ms g)) gs))((p, t, s) \<mapsto> e)"
  by (induction gs) (auto simp: grant_matches_key grant_key_def fun_eq_iff)

lemma map_of_snoc:
  "k \<notin> dom (map_of xs) \<Longrightarrow> map_of (xs @ [(k, v)]) = (map_of xs)(k \<mapsto> v)"
  by (auto simp: map_add_def fun_eq_iff domIff split: option.splits)

lemma ledger_grant_cases:
  assumes "ledger_grant p t s e l = (r, l')"
  obtains (Err) b where "r = Err b" "l' = l"
  | (Refresh) "r = Ok ()" "(p, t, s) \<in> set (map grant_key (fl_grants l))"
      "l' = l\<lparr> fl_grants := refresh_first (grant_matches p t s) e (fl_grants l) \<rparr>"
  | (Push) g where "r = Ok ()" "(p, t, s) \<notin> set (map grant_key (fl_grants l))"
      "length (fl_grants l) < MAX_CONSENT_GRANTS"
      "grant_key g = (p, t, s)" "fg_expires_at_ms g = e" "grant_ok g"
      "l' = l\<lparr> fl_grants := fl_grants l @ [g] \<rparr>"
proof -
  let ?g = "\<lparr> fg_protocol = p, fg_tool = t, fg_scope = s, fg_expires_at_ms = e \<rparr>"
  have g: "grant_key ?g = (p, t, s)" "fg_expires_at_ms ?g = e" by (simp_all add: grant_key_def)
  show thesis
  proof (cases "grant_ok ?g")
    case False
    show thesis
    proof (cases "validate_protocol_id p")
      case (Ok u)
      with False have "\<exists>b. r = Err b \<and> l' = l"
        using assms by (auto simp: grant_ok_def ledger_grant_def validate_tool_name_def split: if_splits)
      then show thesis using Err by blast
    next
      case (Err b)
      then have "r = Err b \<and> l' = l" using assms by (simp add: ledger_grant_def)
      then show thesis using that(1) by blast
    qed
  next
    case True
    then have "CHR 0x00 \<notin> set t" "CHR 0x00 \<notin> set s"
      by (auto simp: grant_ok_def valid_tool_name_def tool_name_char_def is_scope_byte_def
          ascii_class_defs list_all_iff)
    with True have *: "(r, l') =
        (if (p, t, s) \<in> set (map grant_key (fl_grants l))
         then (Ok (), l\<lparr> fl_grants := refresh_first (grant_matches p t s) e (fl_grants l) \<rparr>)
         else if length (fl_grants l) \<ge> MAX_CONSENT_GRANTS
         then (Err (BE_LedgerFull MAX_CONSENT_GRANTS), l)
         else (Ok (), l\<lparr> fl_grants := fl_grants l @ [?g] \<rparr>))"
      using assms
      by (simp add: grant_ok_def ledger_grant_def list_ex_grant_matches validate_tool_name_def
          valid_tool_name_def not_less del: set_map)
    show thesis
      using * Refresh Push [OF _ _ _ g True] Err by (simp split: if_splits)
  qed
qed

lemma ledger_grant_inv: "ledger_inv l \<Longrightarrow> ledger_grant p t s e l = (r, l') \<Longrightarrow> ledger_inv l'"
  by (erule ledger_grant_cases) (auto simp: ledger_inv_def refresh_first_ok simp del: set_map)

lemma ledger_grant_table:
  assumes "ledger_grant p t s e l = (Ok u, l')"
  shows "ledger_table l' = (ledger_table l)((p, t, s) \<mapsto> e)"
  using assms
proof (cases rule: ledger_grant_cases)
  case Refresh
  then show ?thesis by (simp add: ledger_table_def refresh_first_table del: set_map)
next
  case (Push g)
  then have "(p, t, s) \<notin> dom (ledger_table l)"
    by (simp add: ledger_table_def dom_map_of_conv_image_fst image_image)
  with Push show ?thesis
    by (simp add: ledger_table_def map_of_snoc del: map_of_append)
qed simp

lemma ledger_table_Some_iff:
  "ledger_inv l \<Longrightarrow> ledger_table l k = Some e
     \<longleftrightarrow> (\<exists>g \<in> set (fl_grants l). grant_key g = k \<and> fg_expires_at_ms g = e)"
  by (auto simp: ledger_table_def ledger_inv_def map_of_eq_Some_iff comp_def)

lemma ledger_inv_filter: "ledger_inv l \<Longrightarrow> ledger_inv (l\<lparr> fl_grants := filter P (fl_grants l) \<rparr>)"
  by (auto simp: ledger_inv_def distinct_map_filter list_all_iff intro: le_trans [OF length_filter_le])

lemma ledger_check_Allow_iff:
  "ledger_inv l \<Longrightarrow> ledger_check l q = CD_Allow
     \<longleftrightarrow> (\<exists>e. ledger_table l (query_key q) = Some e \<and> cq_now_ms q < e)"
  by (auto simp: ledger_check_def ledger_table_Some_iff list_ex_iff query_key_def grant_key_def)

lemma ledger_revoke_table:
  assumes "ledger_inv l"
  shows "ledger_table (snd (ledger_revoke p t s l)) = (ledger_table l)((p, t, s) := None)"
  using assms ledger_inv_filter [OF assms]
  by (intro ext option_eqI) (auto simp: ledger_revoke_def Let_def ledger_table_Some_iff grant_matches_key)

lemma ledger_drain_table:
  assumes "ledger_inv l"
  shows "ledger_table (snd (ledger_drain_expired now l)) k =
           (case ledger_table l k of Some e \<Rightarrow> if now < e then Some e else None | None \<Rightarrow> None)"
proof -
  have "ledger_table (snd (ledger_drain_expired now l)) k = Some v
        \<longleftrightarrow> ledger_table l k = Some v \<and> now < v" for v
    using assms ledger_inv_filter [OF assms]
    by (auto simp: ledger_drain_expired_def ledger_table_Some_iff not_le)
  then show ?thesis by (intro option_eqI) (auto split: option.splits)
qed

lemma ledger_revoke_inv: "ledger_inv l \<Longrightarrow> ledger_inv (snd (ledger_revoke p t s l))"
  by (simp add: ledger_revoke_def Let_def ledger_inv_filter)

lemma ledger_drain_inv: "ledger_inv l \<Longrightarrow> ledger_inv (snd (ledger_drain_expired now l))"
  by (simp add: ledger_drain_expired_def ledger_inv_filter)

lemma ledger_revoke_present:
  "fst (ledger_revoke p t s l) \<longleftrightarrow> ledger_table l (p, t, s) \<noteq> None"
  by (force simp: ledger_revoke_def Let_def ledger_table_def map_of_eq_None_iff grant_matches_key
      length_filter_full_iff)

interpretation deny_all: consent_check "\<lambda>_. deny_all_check" "\<lambda>_. Map.empty" "\<lambda>_. True"
  by unfold_locales (simp add: deny_all_check_def)

interpretation fake: consent_store ledger_check ledger_table ledger_inv
  ledger_grant ledger_revoke ledger_drain_expired
proof (unfold_locales, goal_cases)
  case (4 p t s e l b l')
  then show ?case by (rule ledger_grant_cases) auto
qed (rule ledger_check_Allow_iff ledger_grant_inv ledger_grant_table ledger_revoke_inv
       ledger_revoke_table ledger_drain_inv ledger_drain_table; assumption)+


lemma grant_turn_loop_Ok:
  assumes "ledger_inv l" and "grant_turn_loop p e gs rendered l = (Ok out, l')"
  shows "ledger_inv l' \<and> out = rendered @ map (\<lambda>(t, s). (t, s, e)) gs
         \<and> (\<forall>q. ledger_check l' q = CD_Allow \<longleftrightarrow>
              (if cq_protocol_id q = p \<and> (cq_tool q, cq_scope q) \<in> set gs then cq_now_ms q < e
               else ledger_check l q = CD_Allow))"
  using assms
proof (induction p e gs rendered l rule: grant_turn_loop.induct)
  case (2 p e t s gs rendered l)
  obtain l1 where g: "ledger_grant p t s e l = (Ok (), l1)"
    and rest: "grant_turn_loop p e gs (rendered @ [(t, s, e)]) l1 = (Ok out, l')"
    using "2.prems"(2) by (auto split: prod.splits result.splits)
  have inv: "ledger_inv l1" using ledger_grant_inv [OF "2.prems"(1) g] .
  show ?case
    using "2.IH" [OF g [symmetric] refl inv rest] fake.check_after_grant [OF "2.prems"(1) g]
    by (auto simp: query_key_def)
qed simp

text \<open>A batch that fails part-way keeps the pairs granted before the failure.\<close>

lemma grant_turn_loop_inv:
  "ledger_inv l \<Longrightarrow> grant_turn_loop p e gs rendered l = (r, l') \<Longrightarrow> ledger_inv l'"
  by (induction p e gs rendered l rule: grant_turn_loop.induct)
     (auto split: prod.splits result.splits dest: ledger_grant_inv)

lemma ledger_new_inv: "ledger_inv fake_ledger_new"
  by (simp add: ledger_inv_def fake_ledger_new_def)

lemma sample_protocol_id: "validate_protocol_id ''a.b'' = Ok ()"
proof -
  have "segment_ok ''a''" "segment_ok ''b''"
    by (simp_all add: segment_ok_def protocol_id_char_def ascii_class_defs
        MAX_PROTOCOL_ID_SEGMENT_LEN_def)
  then show ?thesis
    unfolding validate_protocol_id_Ok_iff
    by (intro exI [of _ "''a''"] exI [of _ "''b''"]) (simp add: MAX_PROTOCOL_ID_LEN_def)
qed

inductive bridge_reachable :: "identity_bridge \<Rightarrow> bool" where
  reach_new: "bridge_reachable identity_bridge_new"
| reach_bind: "bridge_reachable b \<Longrightarrow> protocol_agent_id_new raw = Ok p
     \<Longrightarrow> bridge_reachable (snd (bridge_bind p inst b))"

lemma bridge_reachable_valid:
  "bridge_reachable b \<Longrightarrow> ib_binding b = Some (p, i) \<Longrightarrow> validate_protocol_id (pid_as_str p) = Ok ()"
  by (induction rule: bridge_reachable.induct)
     (auto simp: identity_bridge_new_def bridge_bind_def protocol_agent_id_new_def result_simps
           split: option.splits if_splits)

section \<open>Properties\<close>

text \<open>
  A wire principal is accepted exactly when it is \<open>owner.name\<close> with both segments non-empty,
  of at most 64 bytes, starting with a lowercase letter and built from \<open>[a-z0-9_-]\<close>, and at most
  128 bytes in all; the accepted value splits back into its owner and name.
\<close>

theorem protocol_id_shape:
  "(\<exists>p. protocol_agent_id_new raw = Ok p) \<longleftrightarrow>
     (\<exists>owner name. raw = owner @ CHR ''.'' # name \<and> segment_ok owner \<and> segment_ok name
        \<and> length raw \<le> MAX_PROTOCOL_ID_LEN
        \<and> protocol_agent_id_new raw = Ok (ProtocolAgentId raw)
        \<and> pid_owner (ProtocolAgentId raw) = owner \<and> pid_name (ProtocolAgentId raw) = name)"
proof
  assume "\<exists>p. protocol_agent_id_new raw = Ok p"
  then obtain p where p: "protocol_agent_id_new raw = Ok p" by blast
  then have "validate_protocol_id raw = Ok ()" and "p = ProtocolAgentId raw"
    by (auto simp: protocol_agent_id_new_def result_simps)
  with protocol_agent_id_new_Ok [OF p] p show "\<exists>owner name. raw = owner @ CHR ''.'' # name
      \<and> segment_ok owner \<and> segment_ok name \<and> length raw \<le> MAX_PROTOCOL_ID_LEN
      \<and> protocol_agent_id_new raw = Ok (ProtocolAgentId raw)
      \<and> pid_owner (ProtocolAgentId raw) = owner \<and> pid_name (ProtocolAgentId raw) = name"
    by (auto simp: validate_protocol_id_Ok_iff)
qed blast

text \<open>
  C21. On a reachable bridge the two resolutions are inverse to each other and determined by the
  single binding, and once bound every further bind leaves the bridge as it is, succeeding exactly
  for the identical pair.
\<close>

theorem bridge_single_binding:
  assumes "bridge_reachable b" and "ib_binding b = Some (p, i)"
  shows "resolve_instance b (pid_as_str p) = Ok i \<and> resolve_protocol b i = Ok p
         \<and> (resolve_instance b s = Ok j \<longrightarrow> s = pid_as_str p \<and> j = i)
         \<and> (resolve_protocol b j = Ok q \<longrightarrow> q = p \<and> j = i)
         \<and> snd (bridge_bind q j b) = b
         \<and> (is_ok (fst (bridge_bind q j b)) \<longleftrightarrow> q = p \<and> j = i)"
  using assms bridge_reachable_valid [OF assms]
  by (auto simp: resolve_instance_def resolve_protocol_def bridge_bind_def result_simps
      split: if_splits)

theorem bridge_single_binding_witness:
  defines "p \<equiv> ProtocolAgentId ''a.b''" and "i \<equiv> AgentInstanceId 7"
  defines "b \<equiv> snd (bridge_bind p i identity_bridge_new)"
  shows "bridge_reachable b \<and> ib_binding b = Some (p, i)
         \<and> resolve_instance b ''a.b'' = Ok i \<and> snd (bridge_bind p (AgentInstanceId 8) b) = b"
proof -
  have "protocol_agent_id_new ''a.b'' = Ok p"
    by (simp add: protocol_agent_id_new_def p_def sample_protocol_id)
  then have r: "bridge_reachable b" unfolding b_def by (intro reach_bind reach_new)
  have bd: "ib_binding b = Some (p, i)"
    by (simp add: b_def bridge_bind_def identity_bridge_new_def)
  show ?thesis
    using bridge_single_binding [OF r bd] r bd by (simp add: p_def)
qed

text \<open>
  C20. The grant table refines a partial function from exact (principal, tool, scope) triples to an
  expiry. A check allows exactly the triples with a live entry; a successful grant sets one entry
  and a refused one changes nothing; revoking removes one entry; draining keeps every answer at or
  after its time; the invariant (at most 64 well-formed grants with distinct triples) is kept.
\<close>

theorem ledger_refines_table:
  assumes "ledger_inv l"
  shows "(ledger_check l q = CD_Allow \<longleftrightarrow>
            (\<exists>e. ledger_table l (query_key q) = Some e \<and> cq_now_ms q < e))
         \<and> (case ledger_grant p t s e l of
              (Ok _, l') \<Rightarrow> ledger_inv l' \<and> ledger_table l' = (ledger_table l)((p, t, s) \<mapsto> e)
            | (Err _, l') \<Rightarrow> l' = l)
         \<and> (case ledger_revoke p t s l of (present, l') \<Rightarrow>
              ledger_inv l' \<and> ledger_table l' = (ledger_table l)((p, t, s) := None)
              \<and> (present \<longleftrightarrow> ledger_table l (p, t, s) \<noteq> None))
         \<and> (case ledger_drain_expired now l of (expired, l') \<Rightarrow>
              ledger_inv l'
              \<and> (now \<le> cq_now_ms q \<longrightarrow> (ledger_check l' q = CD_Allow \<longleftrightarrow> ledger_check l q = CD_Allow))
              \<and> (\<forall>k. k \<in> set expired \<longleftrightarrow> (\<exists>x. ledger_table l k = Some x \<and> x \<le> now)))"
proof (intro conjI)
  show "ledger_check l q = CD_Allow \<longleftrightarrow>
          (\<exists>e. ledger_table l (query_key q) = Some e \<and> cq_now_ms q < e)"
    using assms by (rule fake.check_Allow_iff)
  show "case ledger_grant p t s e l of
          (Ok _, l') \<Rightarrow> ledger_inv l' \<and> ledger_table l' = (ledger_table l)((p, t, s) \<mapsto> e)
        | (Err _, l') \<Rightarrow> l' = l"
    using assms fake.grant_Err fake.grant_wf fake.grant_Ok
    by (auto split: prod.splits result.splits)
  show "case ledger_revoke p t s l of (present, l') \<Rightarrow>
          ledger_inv l' \<and> ledger_table l' = (ledger_table l)((p, t, s) := None)
          \<and> (present \<longleftrightarrow> ledger_table l (p, t, s) \<noteq> None)"
    using fake.revoke_wf [OF assms, of p t s] fake.revoke_table [OF assms, of p t s]
    by (simp add: case_prod_beta ledger_revoke_present)
  have "k \<in> set (fst (ledger_drain_expired now l)) \<longleftrightarrow> (\<exists>x. ledger_table l k = Some x \<and> x \<le> now)" for k
    using assms
    by (auto simp: ledger_drain_expired_def ledger_table_Some_iff grant_key_def)
  then show "case ledger_drain_expired now l of (expired, l') \<Rightarrow>
          ledger_inv l'
          \<and> (now \<le> cq_now_ms q \<longrightarrow> (ledger_check l' q = CD_Allow \<longleftrightarrow> ledger_check l q = CD_Allow))
          \<and> (\<forall>k. k \<in> set expired \<longleftrightarrow> (\<exists>x. ledger_table l k = Some x \<and> x \<le> now))"
    using fake.drain_wf [OF assms, of now] fake.check_after_drain [OF assms, of now q]
    by (simp add: case_prod_beta)
qed


theorem ledger_refines_table_witness:
  defines "g \<equiv> \<lparr> fg_protocol = ''a.b'', fg_tool = ''t'', fg_scope = ''s'', fg_expires_at_ms = 10 \<rparr>"
    and "q \<equiv> \<lparr> cq_protocol_id = ''a.b'', cq_agent_instance = AgentInstanceId 1, cq_tool = ''t'',
               cq_scope = ''s'', cq_now_ms = 9 \<rparr>"
  shows "ledger_inv \<lparr> fl_grants = [g] \<rparr>
         \<and> ledger_check \<lparr> fl_grants = [g] \<rparr> q = CD_Allow
         \<and> fst (ledger_revoke ''a.b'' ''t'' ''s'' \<lparr> fl_grants = [g] \<rparr>)"
proof -
  have inv: "ledger_inv \<lparr> fl_grants = [g] \<rparr>"
    by (simp add: sample_protocol_id ledger_inv_def grant_ok_def g_def valid_tool_name_def tool_name_char_def
        is_scope_byte_def ascii_class_defs MAX_CONSENT_GRANTS_def MAX_CONSENT_SCOPE_LEN_def
        MAX_TOOL_NAME_LEN_def)
  show ?thesis
    using ledger_refines_table [OF inv, where q = q and p = "''a.b''" and t = "''t''" and s = "''s''"
        and e = 0 and now = 0] inv
    by (simp add: ledger_table_def g_def q_def grant_key_def query_key_def case_prod_beta)
qed

text \<open>
  A turn-scoped batch that succeeds renders one entry per requested pair, in order, with the
  shared expiry, and afterwards the principal is allowed exactly those pairs until that expiry;
  every other query is answered as before. The expiry is the sum of now and the time to live, or
  the largest time stamp if the sum overflows.
\<close>

theorem turn_set_grants_exactly:
  assumes "ledger_inv l"
    and "grant_turn_set p pairs now ttl l = (Ok rendered, l')"
  defines "e \<equiv> saturating_add now (case ttl of Some t \<Rightarrow> t | None \<Rightarrow> DEFAULT_CONSENT_TTL_MS)"
  shows "ledger_inv l' \<and> rendered = map (\<lambda>(t, s). (t, s, e)) pairs
         \<and> unat e = min (unat now + unat (case ttl of Some t \<Rightarrow> t | None \<Rightarrow> DEFAULT_CONSENT_TTL_MS))
                        (2 ^ 64 - 1)
         \<and> (ledger_check l' q = CD_Allow \<longleftrightarrow>
              (if cq_protocol_id q = p \<and> (cq_tool q, cq_scope q) \<in> set pairs then cq_now_ms q < e
               else ledger_check l q = CD_Allow))"
proof -
  have "grant_turn_loop p e pairs [] l = (Ok rendered, l')"
    using assms(2) by (simp add: grant_turn_set_def e_def)
  from grant_turn_loop_Ok [OF assms(1) this] show ?thesis
    by (simp add: e_def unat_saturating_add)
qed

theorem turn_set_grants_exactly_witness:
  "ledger_inv fake_ledger_new
   \<and> (\<exists>l'. grant_turn_set ''a.b'' [(''t'', ''s'')] 5 (Some 10) fake_ledger_new
              = (Ok [(''t'', ''s'', 15)], l')
          \<and> ledger_check l' \<lparr> cq_protocol_id = ''a.b'', cq_agent_instance = AgentInstanceId 1,
                              cq_tool = ''t'', cq_scope = ''s'', cq_now_ms = 14 \<rparr> = CD_Allow)"
proof -
  obtain l' where g: "grant_turn_set ''a.b'' [(''t'', ''s'')] 5 (Some 10) fake_ledger_new
      = (Ok [(''t'', ''s'', 15)], l')"
    by (simp add: sample_protocol_id grant_turn_set_def ledger_grant_def fake_ledger_new_def validate_tool_name_def
        valid_tool_name_def tool_name_char_def is_scope_byte_def ascii_class_defs
        MAX_CONSENT_GRANTS_def MAX_CONSENT_SCOPE_LEN_def MAX_TOOL_NAME_LEN_def saturating_add_def)
  from turn_set_grants_exactly [OF ledger_new_inv g, of "\<lparr> cq_protocol_id = ''a.b'',
      cq_agent_instance = AgentInstanceId 1, cq_tool = ''t'', cq_scope = ''s'', cq_now_ms = 14 \<rparr>"]
  show ?thesis using g ledger_new_inv by (auto simp: saturating_add_def)
qed

end
