(* ===== verification/Artifacts.thy ===== *)
theory Artifacts
  imports Reasons
begin

text \<open>
  The bounded artifact store (\<open>bitty-ai-runtime/src/context.rs\<close>, first part): stable ids, the error
  vocabulary, retention with exact-generation resolution, explicit deletion with tombstones, and
  the absence taxonomy. The \<open>next_id\<close> counter is a 64-bit word, as in the source.
\<close>

definition MAX_STABLE_ID_LEN :: nat where
  "MAX_STABLE_ID_LEN = 64"

definition MAX_SUMMARY_BYTES :: nat where
  "MAX_SUMMARY_BYTES = 4 * 1024"

definition MAX_RECORD_BODY_BYTES :: nat where
  "MAX_RECORD_BODY_BYTES = 16 * 1024"

definition EXTERNALIZE_THRESHOLD_BYTES :: nat where
  "EXTERNALIZE_THRESHOLD_BYTES = 4 * 1024"

definition MAX_CONTEXT_RECORDS :: nat where
  "MAX_CONTEXT_RECORDS = 128"

definition MAX_ARTIFACTS :: nat where
  "MAX_ARTIFACTS = 64"

definition MAX_ARTIFACT_BYTES :: nat where
  "MAX_ARTIFACT_BYTES = 64 * 1024"

definition MAX_ARTIFACT_STORE_BYTES :: nat where
  "MAX_ARTIFACT_STORE_BYTES = 256 * 1024"

definition MAX_DELETED_REFS :: nat where
  "MAX_DELETED_REFS = 64"

definition BYTES_PER_TOKEN_ESTIMATE :: nat where
  "BYTES_PER_TOKEN_ESTIMATE = 4"

datatype context_error =
    CE_InvalidStableId string
  | CE_UnknownProvider string
  | CE_SummaryTooLarge nat nat
  | CE_BodyTooLarge nat nat
  | CE_TooManyRecords nat
  | CE_ArtifactTooLarge nat nat
  | CE_ArtifactStoreFull string
  | CE_ArtifactUnavailable string
  | CE_ArtifactDeleted string
  | CE_ArtifactExpired string
  | CE_BudgetExceeded nat nat
  | CE_DuplicateRecordId string
  | CE_StaleGeneration string u64 u64

fun context_error_display :: "context_error \<Rightarrow> string" where
  "context_error_display (CE_InvalidStableId i) = ''invalid stable id: '' @ i"
| "context_error_display (CE_UnknownProvider name) = ''unknown context provider: '' @ name"
| "context_error_display (CE_SummaryTooLarge limit actual) =
     ''context summary of '' @ show_nat actual @ '' bytes exceeds '' @ show_nat limit @ '' byte limit''"
| "context_error_display (CE_BodyTooLarge limit actual) =
     ''context body of '' @ show_nat actual @ '' bytes exceeds '' @ show_nat limit @ '' byte limit''"
| "context_error_display (CE_TooManyRecords limit) =
     ''context record count exceeds limit '' @ show_nat limit"
| "context_error_display (CE_ArtifactTooLarge limit actual) =
     ''artifact of '' @ show_nat actual @ '' bytes exceeds '' @ show_nat limit @ '' byte limit''"
| "context_error_display (CE_ArtifactStoreFull reason) = ''artifact store full: '' @ reason"
| "context_error_display (CE_ArtifactUnavailable reference) = ''artifact unavailable: '' @ reference"
| "context_error_display (CE_ArtifactDeleted reference) = ''artifact deleted: '' @ reference"
| "context_error_display (CE_ArtifactExpired reference) = ''artifact expired: '' @ reference"
| "context_error_display (CE_BudgetExceeded limit actual) =
     ''context budget exceeded: smallest record '' @ show_nat actual @ '' bytes over ''
       @ show_nat limit @ '' byte budget''"
| "context_error_display (CE_DuplicateRecordId i) = ''duplicate context record id: '' @ i"
| "context_error_display (CE_StaleGeneration i actual current) =
     ''context record '' @ i @ '' generation '' @ show_nat (unat actual)
       @ '' does not match request generation '' @ show_nat (unat current)"

section \<open>Stable ids\<close>

definition stable_id_char :: "char \<Rightarrow> bool" where
  "stable_id_char b \<longleftrightarrow> is_ascii_lowercase b \<or> is_ascii_digit b \<or> b = CHR ''_'' \<or> b = CHR ''-''"

definition validate_stable_id :: "string \<Rightarrow> (unit, context_error) result" where
  "validate_stable_id i =
     (if i \<noteq> [] \<and> length i \<le> MAX_STABLE_ID_LEN \<and> list_all stable_id_char i
      then Ok () else Err (CE_InvalidStableId i))"

datatype stable_id = StableId (stable_id_str: string)

definition stable_id_new :: "string \<Rightarrow> (stable_id, context_error) result" where
  "stable_id_new i = and_then (validate_stable_id i) (\<lambda>_. Ok (StableId i))"

section \<open>The store\<close>

datatype artifact_ref = ArtifactRef (ref_str: string)

datatype artifact_absence = AA_Available | AA_NeverRecorded | AA_Missing | AA_Deleted | AA_Expired

record artifact_entry =
  ae_reference :: string
  ae_bytes :: bytes
  ae_generation :: u64

record artifact_store =
  as_entries :: "artifact_entry list"
  as_total_bytes :: nat
  as_next_id :: u64
  as_deleted :: "string list"

definition artifact_store_new :: artifact_store where
  "artifact_store_new = \<lparr> as_entries = [], as_total_bytes = 0, as_next_id = 0, as_deleted = [] \<rparr>"

text \<open>The text \<open>artifact://{id}\<close>.\<close>

definition artifact_name :: "u64 \<Rightarrow> string" where
  "artifact_name i = ''artifact://'' @ show_nat (unat i)"

definition is_deleted :: "artifact_store \<Rightarrow> artifact_ref \<Rightarrow> bool" where
  "is_deleted s r \<longleftrightarrow> list_ex (\<lambda>tomb. tomb = ref_str r) (as_deleted s)"

definition find_entry :: "artifact_store \<Rightarrow> artifact_ref \<Rightarrow> artifact_entry option" where
  "find_entry s r = find (\<lambda>entry. ae_reference entry = ref_str r) (as_entries s)"

text \<open>The saturating accumulation of the decimal tail of a reference.\<close>

definition tail_id :: "string \<Rightarrow> u64" where
  "tail_id = foldl (\<lambda>i b. saturating_add (saturating_mul i 10) (of_nat (byte_val b - 48))) 0"

definition absence_reason :: "artifact_store \<Rightarrow> artifact_ref \<Rightarrow> u64 \<Rightarrow> artifact_absence" where
  "absence_reason s r current_generation =
     (case find_entry s r of
        Some entry \<Rightarrow>
          if ae_generation entry = current_generation then AA_Available else AA_Expired
      | None \<Rightarrow>
          if is_deleted s r then AA_Deleted
          else case strip_prefix ''artifact://'' (ref_str r) of
            Some tail \<Rightarrow>
              if tail \<noteq> [] \<and> list_all is_ascii_digit tail \<and> length tail \<le> 20
              then (if tail_id tail \<noteq> 0 \<and> tail_id tail \<le> as_next_id s then AA_Missing
                    else AA_NeverRecorded)
              else AA_NeverRecorded
          | None \<Rightarrow> AA_NeverRecorded)"

definition artifact_put ::
  "bytes \<Rightarrow> u64 \<Rightarrow> artifact_store \<Rightarrow> (artifact_ref, context_error) result \<times> artifact_store" where
  "artifact_put bs generation s =
     (if length bs > MAX_ARTIFACT_BYTES
      then (Err (CE_ArtifactTooLarge MAX_ARTIFACT_BYTES (length bs)), s)
      else if length (as_entries s) \<ge> MAX_ARTIFACTS
      then (Err (CE_ArtifactStoreFull (''at most '' @ show_nat MAX_ARTIFACTS @ '' artifacts'')), s)
      else if as_total_bytes s + length bs > MAX_ARTIFACT_STORE_BYTES
      then (Err (CE_ArtifactStoreFull
              (''at most '' @ show_nat MAX_ARTIFACT_STORE_BYTES @ '' retained bytes'')), s)
      else (let next_id = as_next_id s + 1;
                reference = artifact_name next_id
            in (Ok (ArtifactRef reference),
                s\<lparr> as_next_id := next_id,
                   as_total_bytes := as_total_bytes s + length bs,
                   as_entries := as_entries s
                     @ [\<lparr> ae_reference = reference, ae_bytes = bs, ae_generation = generation \<rparr>] \<rparr>)))"

definition artifact_resolve ::
  "artifact_store \<Rightarrow> artifact_ref \<Rightarrow> u64 \<Rightarrow> (bytes, context_error) result" where
  "artifact_resolve s r current_generation =
     (case find_entry s r of
        Some entry \<Rightarrow>
          if ae_generation entry \<noteq> current_generation then Err (CE_ArtifactExpired (ref_str r))
          else Ok (ae_bytes entry)
      | None \<Rightarrow>
          if is_deleted s r then Err (CE_ArtifactDeleted (ref_str r))
          else Err (CE_ArtifactUnavailable (ref_str r)))"

text \<open>\<open>entries.remove(position)\<close> at the first entry with the reference.\<close>

fun remove_first :: "('a \<Rightarrow> bool) \<Rightarrow> 'a list \<Rightarrow> 'a list" where
  "remove_first P [] = []"
| "remove_first P (x # xs) = (if P x then xs else x # remove_first P xs)"

definition artifact_invalidate :: "artifact_ref \<Rightarrow> artifact_store \<Rightarrow> bool \<times> artifact_store" where
  "artifact_invalidate r s =
     (case find_entry s r of
        Some entry \<Rightarrow>
          (True,
           s\<lparr> as_entries := remove_first (\<lambda>entry. ae_reference entry = ref_str r) (as_entries s),
              as_total_bytes := as_total_bytes s - length (ae_bytes entry),
              as_deleted :=
                (if \<not> is_deleted s r \<and> length (as_deleted s) < MAX_DELETED_REFS
                 then as_deleted s @ [ref_str r] else as_deleted s) \<rparr>)
      | None \<Rightarrow> (False, s))"

section \<open>Lemmas\<close>

definition issued :: "artifact_store \<Rightarrow> string set" where
  "issued s = {artifact_name i | i. 0 < i \<and> i \<le> as_next_id s}"

text \<open>
  The invariant: entries and tombstones are issued references, without repetition and disjoint,
  the byte count is the sum over the entries, and every bound holds.
\<close>

definition store_inv :: "artifact_store \<Rightarrow> bool" where
  "store_inv s \<longleftrightarrow>
     distinct (map ae_reference (as_entries s)) \<and> distinct (as_deleted s)
     \<and> set (map ae_reference (as_entries s)) \<inter> set (as_deleted s) = {}
     \<and> set (map ae_reference (as_entries s)) \<union> set (as_deleted s) \<subseteq> issued s
     \<and> as_total_bytes s = sum_list (map (length \<circ> ae_bytes) (as_entries s))
     \<and> length (as_entries s) \<le> MAX_ARTIFACTS \<and> as_total_bytes s \<le> MAX_ARTIFACT_STORE_BYTES
     \<and> length (as_deleted s) \<le> MAX_DELETED_REFS
     \<and> (\<forall>entry \<in> set (as_entries s). length (ae_bytes entry) \<le> MAX_ARTIFACT_BYTES)"

lemma artifact_name_inject [simp]: "artifact_name i = artifact_name j \<longleftrightarrow> i = j"
  by (simp add: artifact_name_def word_unat_eq_iff)

lemma store_inv_new: "store_inv artifact_store_new"
  by (simp add: store_inv_def artifact_store_new_def)

lemma issued_mono: "as_next_id s \<le> as_next_id t \<Longrightarrow> issued s \<subseteq> issued t"
  by (auto simp: issued_def)

lemma next_name_fresh:
  assumes "as_next_id s \<noteq> - 1"
  shows "artifact_name (as_next_id s + 1) \<notin> issued s"
    and "0 < as_next_id s + 1" and "as_next_id s \<le> as_next_id s + 1"
  using unat_succ [OF assms] by (auto simp: issued_def word_le_nat_alt word_less_nat_alt)

lemma artifact_put_Ok:
  "artifact_put bs g s = (Ok r, t) \<longleftrightarrow>
     length bs \<le> MAX_ARTIFACT_BYTES \<and> length (as_entries s) < MAX_ARTIFACTS
     \<and> as_total_bytes s + length bs \<le> MAX_ARTIFACT_STORE_BYTES
     \<and> r = ArtifactRef (artifact_name (as_next_id s + 1))
     \<and> t = s\<lparr> as_next_id := as_next_id s + 1, as_total_bytes := as_total_bytes s + length bs,
             as_entries := as_entries s @ [\<lparr> ae_reference = artifact_name (as_next_id s + 1),
                                             ae_bytes = bs, ae_generation = g \<rparr>] \<rparr>"
  by (auto simp: artifact_put_def Let_def not_less not_le)

lemma artifact_put_Err: "artifact_put bs g s = (Err e, t) \<Longrightarrow> t = s"
  by (auto simp: artifact_put_def Let_def split: if_splits)

lemma artifact_put_inv:
  assumes "store_inv s" "as_next_id s \<noteq> - 1" "artifact_put bs g s = (r, t)"
  shows "store_inv t"
proof (cases r)
  case (Ok x)
  have "issued s \<subseteq> issued t"
    using assms(3) Ok next_name_fresh(3) [OF assms(2)] by (intro issued_mono) (auto simp: artifact_put_Ok)
  moreover have "artifact_name (as_next_id s + 1) \<in> issued t"
    using assms(3) Ok next_name_fresh(2) [OF assms(2)] by (auto simp: artifact_put_Ok issued_def)
  ultimately show ?thesis
    using assms(1,3) Ok next_name_fresh(1) [OF assms(2)]
    by (auto simp: store_inv_def artifact_put_Ok)
next
  case (Err e)
  then show ?thesis using assms artifact_put_Err by blast
qed

lemma find_entry_None_iff:
  "find_entry s r = None \<longleftrightarrow> ref_str r \<notin> set (map ae_reference (as_entries s))"
  by (simp add: find_entry_def find_key_None_iff)

lemma find_entry_put:
  assumes "store_inv s" "as_next_id s \<noteq> - 1" "artifact_put bs g s = (Ok x, t)"
  shows "find_entry t r = (if r = x then Some \<lparr> ae_reference = ref_str x, ae_bytes = bs,
                                                ae_generation = g \<rparr>
                           else find_entry s r)"
proof -
  have "ref_str x \<notin> set (map ae_reference (as_entries s))"
    using assms next_name_fresh(1) [OF assms(2)] by (auto simp: artifact_put_Ok store_inv_def)
  then have "find_entry s x = None" by (simp only: find_entry_None_iff not_False_eq_True)
  with assms(3) show ?thesis
    by (cases r) (auto simp: artifact_put_Ok find_entry_def find_snoc_absent find_snoc_other)
qed

lemma put_not_deleted:
  assumes "store_inv s" "as_next_id s \<noteq> - 1" "artifact_put bs g s = (Ok x, t)"
  shows "\<not> is_deleted t x"
  using assms next_name_fresh(1) [OF assms(2)]
  by (auto simp: artifact_put_Ok store_inv_def is_deleted_def list_ex_iff)

lemma remove_first_split:
  "find P xs = Some x \<Longrightarrow> \<exists>ys zs. xs = ys @ x # zs \<and> remove_first P xs = ys @ zs"
proof (induction xs)
  case (Cons a xs)
  then show ?case
  proof (cases "P a")
    case False
    with Cons obtain ys zs where "xs = ys @ x # zs" "remove_first P xs = ys @ zs" by auto
    with False show ?thesis by (intro exI [of _ "a # ys"] exI [of _ zs]) simp
  qed (auto intro: exI [of _ "[]"])
qed simp

lemma artifact_invalidate_split:
  assumes "find_entry s r = Some entry"
  obtains ys zs where "as_entries s = ys @ entry # zs" "ae_reference entry = ref_str r"
    "as_entries (snd (artifact_invalidate r s)) = ys @ zs"
proof -
  from assms have f: "find (\<lambda>e. ae_reference e = ref_str r) (as_entries s) = Some entry"
    by (simp add: find_entry_def)
  then have "ae_reference entry = ref_str r" by (auto simp: find_Some_iff)
  with remove_first_split [OF f] assms that show thesis
    by (auto simp: artifact_invalidate_def)
qed

lemma artifact_invalidate_inv: "store_inv s \<Longrightarrow> store_inv (snd (artifact_invalidate r s))"
proof (cases "find_entry s r")
  case (Some entry)
  assume inv: "store_inv s"
  obtain ys zs where *: "as_entries s = ys @ entry # zs" "ae_reference entry = ref_str r"
    "as_entries (snd (artifact_invalidate r s)) = ys @ zs"
    using artifact_invalidate_split [OF Some] by blast
  have next_id: "issued (snd (artifact_invalidate r s)) = issued s"
    by (simp add: artifact_invalidate_def Some issued_def)
  have total: "as_total_bytes (snd (artifact_invalidate r s)) = as_total_bytes s - length (ae_bytes entry)"
    by (simp add: artifact_invalidate_def Some)
  have del: "as_deleted (snd (artifact_invalidate r s)) =
      (if \<not> is_deleted s r \<and> length (as_deleted s) < MAX_DELETED_REFS
       then as_deleted s @ [ref_str r] else as_deleted s)"
    by (simp add: artifact_invalidate_def Some)
  show ?thesis
    using inv *(1,2) unfolding store_inv_def *(3) next_id total del
    by (auto simp: is_deleted_def list_ex_iff)
qed (simp add: artifact_invalidate_def)


text \<open>The saturating accumulation reads back every 64-bit value exactly.\<close>

abbreviation tail_step :: "u64 \<Rightarrow> char \<Rightarrow> u64" where
  "tail_step i b \<equiv> saturating_add (saturating_mul i 10) (of_nat (byte_val b - 48))"

lemma decimal_fold_ge: "m \<le> foldl (\<lambda>n c. n * 10 + digit_value c) m ds"
proof (induction ds arbitrary: m)
  case (Cons d ds)
  have "m \<le> m * 10 + digit_value d" by simp
  also have "\<dots> \<le> foldl (\<lambda>n c. n * 10 + digit_value c) (m * 10 + digit_value d) ds" by (rule Cons.IH)
  finally show ?case by simp
qed simp

lemma unat_tail_fold:
  "foldl (\<lambda>n c. n * 10 + digit_value c) (unat i) ds < 2 ^ 64 \<Longrightarrow>
     unat (foldl tail_step i ds) = foldl (\<lambda>n c. n * 10 + digit_value c) (unat i) ds"
proof (induction ds arbitrary: i)
  case (Cons d ds)
  have "unat i * 10 + digit_value d < 2 ^ 64"
    using Cons.prems decimal_fold_ge [of "unat i * 10 + digit_value d" ds] by simp
  then have "unat (tail_step i d) = unat i * 10 + digit_value d"
    by (simp add: unat_saturating_add unat_saturating_mul unat_of_nat digit_value_def)
  with Cons show ?case by simp
qed simp

lemma tail_id_show: "tail_id (show_nat (unat i)) = i"
proof -
  have "unat (tail_id (show_nat (unat i))) = decimal_value (show_nat (unat i))"
    using unat_tail_fold [of 0 "show_nat (unat i)"] unsigned_less [of i]
      decimal_value_show_nat [of "unat i"]
    by (simp add: tail_id_def decimal_value_def)
  then show ?thesis by (simp add: word_unat_eq_iff)
qed

lemma length_show_u64: "length (show_nat (unat (i :: u64))) \<le> 20"
proof -
  have "unat i < 2 ^ LENGTH(64)" by (rule unsigned_less)
  then have "unat i < 2 ^ 64" by simp
  then show ?thesis using length_show_nat_le [of "unat i" 19] by simp
qed

lemma absence_minted:
  "find_entry s r = None \<Longrightarrow> \<not> is_deleted s r \<Longrightarrow> r = ArtifactRef (artifact_name i) \<Longrightarrow>
   absence_reason s r g = (if 0 < i \<and> i \<le> as_next_id s then AA_Missing else AA_NeverRecorded)"
  using strip_prefix_Some_iff [of "''artifact://''" "artifact_name i" "show_nat (unat i)"]
  by (auto simp: absence_reason_def tail_id_show length_show_u64 show_nat_digits artifact_name_def
      word_neq_0_conv)

section \<open>Properties\<close>

text \<open>
  C19. Retaining bytes makes exactly one new reference resolve: at the generation it was stored with
  it returns those bytes, at any other generation it is expired, and every other reference resolves
  as before. Invalidating it afterwards makes it fail at every generation, as deleted unless the
  tombstones are full, again without effect on other references. The store invariant (bounds, byte
  accounting, no reference both live and deleted) holds throughout.
\<close>

theorem artifact_lifecycle:
  assumes "store_inv s" and "as_next_id s \<noteq> - 1" and put: "artifact_put bs g s = (Ok r, t)"
    and inval: "artifact_invalidate r t = (removed, u)"
  shows "store_inv t \<and> store_inv u \<and> removed
         \<and> artifact_resolve t r g = Ok bs
         \<and> (g' \<noteq> g \<longrightarrow> artifact_resolve t r g' = Err (CE_ArtifactExpired (ref_str r)))
         \<and> artifact_resolve u r g' =
              Err (if length (as_deleted s) < MAX_DELETED_REFS then CE_ArtifactDeleted (ref_str r)
                   else CE_ArtifactUnavailable (ref_str r))
         \<and> (r' \<noteq> r \<longrightarrow> artifact_resolve t r' g' = artifact_resolve s r' g'
                     \<and> artifact_resolve u r' g' = artifact_resolve s r' g')"
proof -
  have inv: "store_inv t" using artifact_put_inv [OF assms(1,2) put] .
  have fe: "find_entry t r' = (if r' = r then Some \<lparr> ae_reference = ref_str r, ae_bytes = bs,
      ae_generation = g \<rparr> else find_entry s r')" for r'
    by (rule find_entry_put [OF assms(1,2) put])
  have del: "as_deleted t = as_deleted s" using put by (auto simp: artifact_put_Ok)
  have nd: "\<not> is_deleted t r" using put_not_deleted [OF assms(1,2) put] .
  have u: "u = snd (artifact_invalidate r t)" and removed
    using inval fe [of r] by (auto simp: artifact_invalidate_def)
  obtain ys zs e where sp: "as_entries t = ys @ e # zs" "ae_reference e = ref_str r" "as_entries u = ys @ zs"
    using artifact_invalidate_split [of t r] fe [of r] u by (metis (no_types, lifting))
  then have "ref_str r \<notin> set (map ae_reference (ys @ zs))"
    using inv by (auto simp: store_inv_def)
  then have fu: "find_entry u r' = (if r' = r then None else find_entry t r')" for r'
    using sp artifact_ref.expand [of r' r]
    by (auto simp: find_entry_None_iff) (auto simp: find_entry_def find_append split: option.splits)
  have du: "as_deleted u = (if length (as_deleted s) < MAX_DELETED_REFS
      then as_deleted s @ [ref_str r] else as_deleted s)"
    using u fe [of r] nd del by (auto simp: artifact_invalidate_def)
  have "artifact_resolve u r' g' = artifact_resolve s r' g'" if "r' \<noteq> r"
    using that fe fu du artifact_ref.expand [of r' r]
    by (auto simp: artifact_resolve_def is_deleted_def split: option.splits)
  moreover have "artifact_resolve t r' g' = artifact_resolve s r' g'" if "r' \<noteq> r"
    using that fe del by (auto simp: artifact_resolve_def is_deleted_def)
  moreover have "store_inv u" using artifact_invalidate_inv [OF inv] u by simp
  ultimately show ?thesis
    using inv \<open>removed\<close> fe fu du nd del by (auto simp: artifact_resolve_def is_deleted_def)
qed

theorem artifact_lifecycle_witness:
  "store_inv artifact_store_new
   \<and> (\<exists>t u. artifact_put ''x'' 3 artifact_store_new = (Ok (ArtifactRef (artifact_name 1)), t)
          \<and> artifact_invalidate (ArtifactRef (artifact_name 1)) t = (True, u)
          \<and> artifact_resolve t (ArtifactRef (artifact_name 1)) 3 = Ok ''x''
          \<and> artifact_resolve u (ArtifactRef (artifact_name 1)) 3
                = Err (CE_ArtifactDeleted (artifact_name 1)))"
proof -
  obtain t where put: "artifact_put ''x'' 3 artifact_store_new = (Ok (ArtifactRef (artifact_name 1)), t)"
    by (simp add: artifact_put_def artifact_store_new_def Let_def MAX_ARTIFACT_BYTES_def
        MAX_ARTIFACTS_def MAX_ARTIFACT_STORE_BYTES_def)
  obtain removed u where inval: "artifact_invalidate (ArtifactRef (artifact_name 1)) t = (removed, u)"
    by (cases "artifact_invalidate (ArtifactRef (artifact_name 1)) t")
  show ?thesis
    using artifact_lifecycle [OF store_inv_new _ put inval, of 3] put inval store_inv_new
    by (auto simp: artifact_store_new_def MAX_DELETED_REFS_def)
qed

text \<open>
  The absence taxonomy and resolution agree on every reference and generation, and a dangling
  minted reference is reported missing exactly when its number was handed out by this store.
\<close>

theorem absence_taxonomy_agrees:
  "(case absence_reason s r g of
      AA_Available \<Rightarrow> (\<exists>bs. artifact_resolve s r g = Ok bs)
    | AA_Expired \<Rightarrow> artifact_resolve s r g = Err (CE_ArtifactExpired (ref_str r))
    | AA_Deleted \<Rightarrow> artifact_resolve s r g = Err (CE_ArtifactDeleted (ref_str r))
    | AA_Missing \<Rightarrow> artifact_resolve s r g = Err (CE_ArtifactUnavailable (ref_str r))
    | AA_NeverRecorded \<Rightarrow> artifact_resolve s r g = Err (CE_ArtifactUnavailable (ref_str r)))
   \<and> (r = ArtifactRef (artifact_name i) \<longrightarrow>
        artifact_resolve s r g = Err (CE_ArtifactUnavailable (ref_str r)) \<longrightarrow>
        absence_reason s r g = (if 0 < i \<and> i \<le> as_next_id s then AA_Missing else AA_NeverRecorded))"
proof (intro conjI impI)
  show "case absence_reason s r g of
      AA_Available \<Rightarrow> (\<exists>bs. artifact_resolve s r g = Ok bs)
    | AA_Expired \<Rightarrow> artifact_resolve s r g = Err (CE_ArtifactExpired (ref_str r))
    | AA_Deleted \<Rightarrow> artifact_resolve s r g = Err (CE_ArtifactDeleted (ref_str r))
    | AA_Missing \<Rightarrow> artifact_resolve s r g = Err (CE_ArtifactUnavailable (ref_str r))
    | AA_NeverRecorded \<Rightarrow> artifact_resolve s r g = Err (CE_ArtifactUnavailable (ref_str r))"
    by (auto simp: absence_reason_def artifact_resolve_def split: option.splits)
next
  assume r: "r = ArtifactRef (artifact_name i)"
    and "artifact_resolve s r g = Err (CE_ArtifactUnavailable (ref_str r))"
  then have "find_entry s r = None \<and> \<not> is_deleted s r"
    by (auto simp: artifact_resolve_def split: option.splits if_splits)
  then show "absence_reason s r g = (if 0 < i \<and> i \<le> as_next_id s then AA_Missing else AA_NeverRecorded)"
    using absence_minted r by blast
qed

theorem absence_taxonomy_agrees_witness:
  "artifact_resolve artifact_store_new (ArtifactRef (artifact_name 1)) 0
     = Err (CE_ArtifactUnavailable (artifact_name 1))
   \<and> absence_reason artifact_store_new (ArtifactRef (artifact_name 1)) 0 = AA_NeverRecorded"
proof -
  have "artifact_resolve artifact_store_new (ArtifactRef (artifact_name 1)) 0
      = Err (CE_ArtifactUnavailable (artifact_name 1))"
    by (simp add: artifact_resolve_def artifact_store_new_def find_entry_def is_deleted_def)
  with absence_taxonomy_agrees [of artifact_store_new "ArtifactRef (artifact_name 1)" 0 1]
  show ?thesis by (simp add: artifact_store_new_def)
qed

end
