(* ===== verification/Context_Assembly.thy ===== *)
theory Context_Assembly
  imports Artifacts "HOL-Library.Multiset" "HOL-Library.Product_Lexorder"
begin

text \<open>
  Bounded context assembly (\<open>bitty-ai-runtime/src/context.rs\<close>, second part): record validation,
  supersede and duplicate pruning, two-phase externalization of large bodies, greedy selection under
  the byte budget by effective priority, and the commit into the artifact store. Each loop of
  \<open>assemble\<close> is one definition; \<open>assemble\<close> composes them with the source's early returns.
\<close>

definition DEFAULT_CONTEXT_BUDGET_BYTES :: nat where
  "DEFAULT_CONTEXT_BUDGET_BYTES = 32 * 1024"

definition KNOWN_PROVIDERS :: "string list" where
  "KNOWN_PROVIDERS = [''workspace'', ''project'', ''git'', ''diagnostics'', ''terminal'']"

datatype context_priority = CP_Low | CP_Normal | CP_High | CP_Critical

text \<open>The derived order is the declaration order; \<open>priority as u8\<close> is the discriminant.\<close>

fun priority_u8 :: "context_priority \<Rightarrow> nat" where
  "priority_u8 CP_Low = 0"
| "priority_u8 CP_Normal = 1"
| "priority_u8 CP_High = 2"
| "priority_u8 CP_Critical = 3"

lemma priority_u8_inject [simp]: "priority_u8 p = priority_u8 q \<longleftrightarrow> p = q"
  by (cases p; cases q) auto

instantiation context_priority :: linorder
begin

definition less_eq_context_priority :: "context_priority \<Rightarrow> context_priority \<Rightarrow> bool" where
  "less_eq_context_priority p q \<longleftrightarrow> priority_u8 p \<le> priority_u8 q"

definition less_context_priority :: "context_priority \<Rightarrow> context_priority \<Rightarrow> bool" where
  "less_context_priority p q \<longleftrightarrow> priority_u8 p < priority_u8 q"

instance
  by standard (auto simp: less_eq_context_priority_def less_context_priority_def)

end

record context_request =
  req_max_tokens :: "u32 option"
  req_max_bytes :: "u64 option"
  req_current_generation :: u64

definition estimate_tokens :: "nat \<Rightarrow> u64" where
  "estimate_tokens n = of_nat ((n + (BYTES_PER_TOKEN_ESTIMATE - 1)) div BYTES_PER_TOKEN_ESTIMATE)"

definition effective_budget_bytes :: "context_request \<Rightarrow> nat" where
  "effective_budget_bytes req =
     (let budget = (case req_max_bytes req of Some b \<Rightarrow> unat b | None \<Rightarrow> DEFAULT_CONTEXT_BUDGET_BYTES)
      in case req_max_tokens req of
           Some tokens \<Rightarrow> min budget (unat tokens * BYTES_PER_TOKEN_ESTIMATE)
         | None \<Rightarrow> budget)"

section \<open>Records\<close>

datatype record_body = RB_Inline bytes | RB_Artifact artifact_ref

record context_record =
  cr_id :: string
  cr_provider :: string
  cr_owner :: stable_id
  cr_generation :: u64
  cr_collected_at_ms :: u64
  cr_priority :: context_priority
  cr_summary :: string
  cr_body :: record_body
  cr_supersedes :: "string option"
  cr_is_untrusted_surface :: bool

definition record_validate :: "context_record \<Rightarrow> (unit, context_error) result" where
  "record_validate r =
     (if \<not> List.member KNOWN_PROVIDERS (cr_provider r) then Err (CE_UnknownProvider (cr_provider r))
      else if length (cr_summary r) > MAX_SUMMARY_BYTES
      then Err (CE_SummaryTooLarge MAX_SUMMARY_BYTES (length (cr_summary r)))
      else case cr_body r of
        RB_Inline bs \<Rightarrow>
          if length bs > MAX_RECORD_BODY_BYTES
          then Err (CE_BodyTooLarge MAX_RECORD_BODY_BYTES (length bs)) else Ok ()
      | RB_Artifact _ \<Rightarrow> Ok ())"

definition footprint_bytes :: "context_record \<Rightarrow> nat" where
  "footprint_bytes r =
     length (cr_summary r) +
     (case cr_body r of RB_Inline bs \<Rightarrow> length bs | RB_Artifact reference \<Rightarrow> length (ref_str reference))"

definition effective_priority :: "context_record \<Rightarrow> context_priority" where
  "effective_priority r =
     (if cr_is_untrusted_surface r then min (cr_priority r) CP_Normal else cr_priority r)"

datatype assembled_content = AC_Inline bytes | AC_Reference artifact_ref

fun content_byte_len :: "assembled_content \<Rightarrow> nat" where
  "content_byte_len (AC_Inline bs) = length bs"
| "content_byte_len (AC_Reference reference) = length (ref_str reference)"

record assembled_record =
  ar_id :: string
  ar_provider :: string
  ar_summary :: string
  ar_content :: assembled_content
  ar_is_untrusted_surface :: bool

definition span_header :: "assembled_record \<Rightarrow> string" where
  "span_header r =
     ''['' @ (if ar_is_untrusted_surface r then ''untrusted'' else ''trusted'') @ '':''
       @ ar_provider r @ '':'' @ ar_id r @ '']''"

record assembled_context =
  ac_records :: "assembled_record list"
  ac_context_refs :: "string list"
  ac_omitted_ids :: "string list"
  ac_pruned_ids :: "string list"
  ac_externalized :: nat
  ac_truncated_bytes :: u64
  ac_truncated_tokens_estimate :: u64
  ac_truncated_providers :: "string list"
  ac_budget_bytes :: nat

section \<open>Assembly\<close>

text \<open>The duplicate-id scan; \<open>seen\<close> is the hash set.\<close>

fun check_unique :: "string set \<Rightarrow> context_record list \<Rightarrow> (unit, context_error) result" where
  "check_unique seen [] = Ok ()"
| "check_unique seen (r # rs) =
     (if cr_id r \<in> seen then Err (CE_DuplicateRecordId (cr_id r))
      else check_unique (insert (cr_id r) seen) rs)"

definition check_generation :: "u64 \<Rightarrow> context_record \<Rightarrow> (unit, context_error) result" where
  "check_generation current r =
     (if cr_generation r \<noteq> current
      then Err (CE_StaleGeneration (cr_id r) (cr_generation r) current) else Ok ())"

definition superseded_ids :: "context_record list \<Rightarrow> string list" where
  "superseded_ids rs =
     List.map_filter cr_supersedes (filter (\<lambda>r. \<not> cr_is_untrusted_surface r) rs)"

definition same_content :: "context_record \<Rightarrow> context_record \<Rightarrow> bool" where
  "same_content r kept \<longleftrightarrow>
     cr_provider kept = cr_provider r \<and> cr_owner kept = cr_owner r
     \<and> cr_summary kept = cr_summary r \<and> cr_body kept = cr_body r"

definition keep_new :: "context_record \<Rightarrow> context_record \<Rightarrow> bool" where
  "keep_new kept r =
     (if \<not> cr_is_untrusted_surface kept \<and> cr_is_untrusted_surface r then False
      else if cr_is_untrusted_surface kept \<and> \<not> cr_is_untrusted_surface r then True
      else cr_collected_at_ms r > cr_collected_at_ms kept)"

text \<open>The position of the first element that \<open>iter_mut().find\<close> returns.\<close>

fun position :: "('a \<Rightarrow> bool) \<Rightarrow> 'a list \<Rightarrow> nat option" where
  "position P [] = None"
| "position P (x # xs) = (if P x then Some 0 else map_option Suc (position P xs))"

fun dedup_loop ::
  "string list \<Rightarrow> nat \<Rightarrow> context_record list \<Rightarrow> (nat \<times> context_record) list \<Rightarrow> string list
     \<Rightarrow> (nat \<times> context_record) list \<times> string list" where
  "dedup_loop superseded index [] deduped pruned = (deduped, pruned)"
| "dedup_loop superseded index (r # rs) deduped pruned =
     (if List.member superseded (cr_id r)
      then dedup_loop superseded (Suc index) rs deduped (pruned @ [cr_id r])
      else case position (\<lambda>slot. same_content r (snd slot)) deduped of
        Some i \<Rightarrow>
          if keep_new (snd (deduped ! i)) r
          then dedup_loop superseded (Suc index) rs (deduped[i := (index, r)])
                 (pruned @ [cr_id (snd (deduped ! i))])
          else dedup_loop superseded (Suc index) rs deduped (pruned @ [cr_id r])
      | None \<Rightarrow> dedup_loop superseded (Suc index) rs (deduped @ [(index, r)]) pruned)"

type_synonym staged_record = "nat \<times> context_record \<times> bytes option"

fun stage_loop ::
  "u64 \<Rightarrow> u64 \<Rightarrow> (nat \<times> context_record) list \<Rightarrow> staged_record list
     \<Rightarrow> (staged_record list, context_error) result" where
  "stage_loop base predicted [] staged = Ok staged"
| "stage_loop base predicted ((index, r) # rs) staged =
     (case cr_body r of
        RB_Inline bs \<Rightarrow>
          if length bs > EXTERNALIZE_THRESHOLD_BYTES
          then (if length bs > MAX_ARTIFACT_BYTES
                then Err (CE_ArtifactTooLarge MAX_ARTIFACT_BYTES (length bs))
                else stage_loop base (predicted + 1) rs
                       (staged @ [(index,
                          r\<lparr> cr_body := RB_Artifact (ArtifactRef (artifact_name (base + (predicted + 1)))) \<rparr>,
                          Some bs)]))
          else stage_loop base predicted rs (staged @ [(index, r, None)])
      | RB_Artifact _ \<Rightarrow> stage_loop base predicted rs (staged @ [(index, r, None)]))"

definition staged_rec :: "staged_record \<Rightarrow> context_record" where
  "staged_rec s = fst (snd s)"

text \<open>
  The sort key of the selection order: \<open>Reverse(effective_priority as u8)\<close>, then the position. The
  discriminants are at most 3, so reversing is subtracting from 3.
\<close>

definition selection_order :: "staged_record list \<Rightarrow> nat list" where
  "selection_order staged =
     sort_key (\<lambda>p. (3 - priority_u8 (effective_priority (staged_rec (staged ! p))), p))
       [0..<length staged]"

record selection =
  sel_included :: "bool list"
  sel_used :: nat
  sel_omitted_ids :: "string list"
  sel_truncated_bytes :: u64
  sel_truncated_providers :: "string list"

fun select_loop :: "staged_record list \<Rightarrow> nat \<Rightarrow> nat list \<Rightarrow> selection \<Rightarrow> selection" where
  "select_loop staged budget [] sel = sel"
| "select_loop staged budget (p # ps) sel =
     (let r = staged_rec (staged ! p);
          need = footprint_bytes r
      in if sel_used sel + need \<le> budget
         then select_loop staged budget ps
                (sel\<lparr> sel_included := (sel_included sel)[p := True], sel_used := sel_used sel + need \<rparr>)
         else select_loop staged budget ps
                (sel\<lparr> sel_omitted_ids := sel_omitted_ids sel @ [cr_id r],
                      sel_truncated_bytes := sel_truncated_bytes sel + of_nat need,
                      sel_truncated_providers :=
                        (if List.member (sel_truncated_providers sel) (cr_provider r)
                         then sel_truncated_providers sel
                         else sel_truncated_providers sel @ [cr_provider r]) \<rparr>))"

definition selection_start :: "nat \<Rightarrow> selection" where
  "selection_start n =
     \<lparr> sel_included = replicate n False, sel_used = 0, sel_omitted_ids = [],
       sel_truncated_bytes = 0, sel_truncated_providers = [] \<rparr>"

text \<open>The pending bodies of the included records, in staged order.\<close>

definition included_pending :: "bool list \<Rightarrow> staged_record list \<Rightarrow> bytes list" where
  "included_pending included staged =
     List.map_filter (\<lambda>(kept, s). if kept then snd (snd s) else None) (zip included staged)"

fun commit_loop ::
  "u64 \<Rightarrow> (bool \<times> staged_record) list \<Rightarrow> staged_record list \<Rightarrow> nat \<Rightarrow> artifact_store
     \<Rightarrow> (staged_record list \<times> nat, context_error) result \<times> artifact_store" where
  "commit_loop generation [] acc committed store = (Ok (acc, committed), store)"
| "commit_loop generation ((kept, (index, r, pending)) # rest) acc committed store =
     (if kept
      then (case pending of
              Some bs \<Rightarrow>
                (case artifact_put bs generation store of
                   (Err e, store') \<Rightarrow> (Err e, store')
                 | (Ok reference, store') \<Rightarrow>
                     commit_loop generation rest
                       (acc @ [(index, r\<lparr> cr_body := RB_Artifact reference \<rparr>, None)]) (Suc committed) store')
            | None \<Rightarrow> commit_loop generation rest (acc @ [(index, r, None)]) committed store)
      else commit_loop generation rest (acc @ [(index, r, pending)]) committed store)"

definition assembled_of :: "context_record \<Rightarrow> assembled_record" where
  "assembled_of r =
     \<lparr> ar_id = cr_id r, ar_provider = cr_provider r, ar_summary = cr_summary r,
       ar_content = (case cr_body r of RB_Inline bs \<Rightarrow> AC_Inline bs
                                     | RB_Artifact reference \<Rightarrow> AC_Reference reference),
       ar_is_untrusted_surface = cr_is_untrusted_surface r \<rparr>"

text \<open>The records selected, in caller order.\<close>

definition selected_records :: "bool list \<Rightarrow> staged_record list \<Rightarrow> context_record list" where
  "selected_records included staged =
     map snd (sort_key fst
       (map (\<lambda>(_, (index, r, _)). (index, r)) (filter fst (zip included staged))))"

text \<open>\<open>assemble\<close> from the selection on: budget, store capacity, commit and output.\<close>

definition select_and_commit ::
  "context_request \<Rightarrow> string list \<Rightarrow> staged_record list \<Rightarrow> artifact_store
     \<Rightarrow> (assembled_context, context_error) result \<times> artifact_store" where
  "select_and_commit req pruned staged store =
     (let budget = effective_budget_bytes req;
          sel = select_loop staged budget (selection_order staged) (selection_start (length staged));
          included = sel_included sel;
          pending = included_pending included staged
      in if staged \<noteq> [] \<and> \<not> list_ex id included
         then (Err (CE_BudgetExceeded budget
                      (Min (set (map (footprint_bytes \<circ> staged_rec) staged)))), store)
         else if length (as_entries store) + length pending > MAX_ARTIFACTS
         then (Err (CE_ArtifactStoreFull (''at most '' @ show_nat MAX_ARTIFACTS @ '' artifacts'')), store)
         else if as_total_bytes store + sum_list (map length pending) > MAX_ARTIFACT_STORE_BYTES
         then (Err (CE_ArtifactStoreFull
                (''at most '' @ show_nat MAX_ARTIFACT_STORE_BYTES @ '' retained bytes'')), store)
         else case commit_loop (req_current_generation req) (zip included staged) [] 0 store of
           (Err e, store') \<Rightarrow> (Err e, store')
         | (Ok (staged', committed_count), store') \<Rightarrow>
           (let selected = selected_records included staged'
            in (Ok \<lparr> ac_records = map assembled_of selected,
                     ac_context_refs = map cr_id selected,
                     ac_omitted_ids = sel_omitted_ids sel,
                     ac_pruned_ids = pruned,
                     ac_externalized = committed_count,
                     ac_truncated_bytes = sel_truncated_bytes sel,
                     ac_truncated_tokens_estimate = estimate_tokens (unat (sel_truncated_bytes sel)),
                     ac_truncated_providers = sel_truncated_providers sel,
                     ac_budget_bytes = budget \<rparr>, store')))"

definition assemble ::
  "context_record list \<Rightarrow> context_request \<Rightarrow> artifact_store
     \<Rightarrow> (assembled_context, context_error) result \<times> artifact_store" where
  "assemble rs req store =
     (if length rs > MAX_CONTEXT_RECORDS then (Err (CE_TooManyRecords MAX_CONTEXT_RECORDS), store)
      else case check_all record_validate rs of
        Err e \<Rightarrow> (Err e, store)
      | Ok _ \<Rightarrow>
      (case check_unique {} rs of
        Err e \<Rightarrow> (Err e, store)
      | Ok _ \<Rightarrow>
      (case check_all (check_generation (req_current_generation req)) rs of
        Err e \<Rightarrow> (Err e, store)
      | Ok _ \<Rightarrow>
      (case dedup_loop (superseded_ids rs) 0 rs [] [] of (deduped, pruned) \<Rightarrow>
       case stage_loop (as_next_id store) 0 deduped [] of
         Err e \<Rightarrow> (Err e, store)
       | Ok staged \<Rightarrow> select_and_commit req pruned staged store))))"

section \<open>Validation and pruning\<close>

lemma check_unique_Ok_iff:
  "check_unique seen rs = Ok u \<longleftrightarrow> distinct (map cr_id rs) \<and> cr_id ` set rs \<inter> seen = {}"
  by (induction rs arbitrary: seen) auto

lemma check_generation_Ok_iff [result_simps]:
  "check_generation g r = Ok u \<longleftrightarrow> cr_generation r = g"
  by (auto simp: check_generation_def)

lemma position_Some:
  "position P xs = Some i \<Longrightarrow> i < length xs \<and> P (xs ! i)"
  by (induction xs arbitrary: i) (auto split: if_splits)

lemma position_None_iff: "position P xs = None \<longleftrightarrow> (\<forall>x \<in> set xs. \<not> P x)"
  by (induction xs) auto

text \<open>The invariant rule of the pruning loop, one premise per branch of its body.\<close>

lemma dedup_invariant:
  assumes "dedup_loop sl 0 rs [] [] = (ds', pr')" and init: "I 0 [] []"
    and superseded: "\<And>n r ds pr. I n ds pr \<Longrightarrow> n < length rs \<Longrightarrow> rs ! n = r \<Longrightarrow> cr_id r \<in> set sl
           \<Longrightarrow> I (Suc n) ds (pr @ [cr_id r])"
    and fresh: "\<And>n r ds pr. I n ds pr \<Longrightarrow> n < length rs \<Longrightarrow> rs ! n = r \<Longrightarrow> cr_id r \<notin> set sl
           \<Longrightarrow> (\<forall>x \<in> set ds. \<not> same_content r (snd x)) \<Longrightarrow> I (Suc n) (ds @ [(n, r)]) pr"
    and replaced: "\<And>n r ds pr i. I n ds pr \<Longrightarrow> n < length rs \<Longrightarrow> rs ! n = r \<Longrightarrow> cr_id r \<notin> set sl
           \<Longrightarrow> i < length ds \<Longrightarrow> same_content r (snd (ds ! i)) \<Longrightarrow> keep_new (snd (ds ! i)) r
           \<Longrightarrow> I (Suc n) (ds[i := (n, r)]) (pr @ [cr_id (snd (ds ! i))])"
    and dropped: "\<And>n r ds pr i. I n ds pr \<Longrightarrow> n < length rs \<Longrightarrow> rs ! n = r \<Longrightarrow> cr_id r \<notin> set sl
           \<Longrightarrow> i < length ds \<Longrightarrow> same_content r (snd (ds ! i)) \<Longrightarrow> \<not> keep_new (snd (ds ! i)) r
           \<Longrightarrow> I (Suc n) ds (pr @ [cr_id r])"
  shows "I (length rs) ds' pr'"
proof -
  have "I (length rs) ds' pr'"
    if "n \<le> length rs" "I n ds pr" "dedup_loop sl n (drop n rs) ds pr = (ds', pr')" for n ds pr
    using that
  proof (induction "length rs - n" arbitrary: n ds pr)
    case (Suc k)
    define r where "r = rs ! n"
    have n: "n < length rs" "rs ! n = r" "k = length rs - Suc n" "Suc n \<le> length rs"
      and dr: "drop n rs = r # drop (Suc n) rs"
      using Suc.hyps(2) by (auto simp: r_def Cons_nth_drop_Suc)
    note IH = Suc.hyps(1) [OF n(3,4)] and loop = Suc.prems(3) [unfolded dr]
    consider "cr_id r \<in> set sl"
      | "cr_id r \<notin> set sl" "position (\<lambda>x. same_content r (snd x)) ds = None"
      | i where "cr_id r \<notin> set sl" "position (\<lambda>x. same_content r (snd x)) ds = Some i"
      by blast
    then show ?case
    proof cases
      case 1
      then show ?thesis
        using IH [OF superseded [OF Suc.prems(2) n(1,2) 1]] loop by simp
    next
      case 2
      then have "\<forall>x \<in> set ds. \<not> same_content r (snd x)" by (simp add: position_None_iff)
      then show ?thesis
        using IH [OF fresh [OF Suc.prems(2) n(1,2) 2(1)]] loop 2 by (simp add: case_prod_beta)
    next
      case (3 i)
      then have i: "i < length ds" "same_content r (snd (ds ! i))" using position_Some by fastforce+
      then show ?thesis
        using IH [OF replaced [OF Suc.prems(2) n(1,2) 3(1) i]]
          IH [OF dropped [OF Suc.prems(2) n(1,2) 3(1) i]] loop 3
        by (simp add: case_prod_beta split: if_splits)
    qed
  qed simp
  from this [OF _ init] assms(1) show ?thesis by simp
qed

lemma mset_map_update:
  "i < length xs \<Longrightarrow> add_mset (f (xs ! i)) (mset (map f (xs[i := x]))) = add_mset (f x) (mset (map f xs))"
  by (simp add: map_update mset_update)

text \<open>Every record is accounted for exactly once by the survivors and the pruned ids.\<close>

lemma dedup_accounts:
  assumes "dedup_loop sl 0 rs [] [] = (ds, pr)"
  shows "mset (map (cr_id \<circ> snd) ds) + mset pr = mset (map cr_id rs)"
proof -
  have "mset (map (cr_id \<circ> snd) ds) + mset pr = mset (map cr_id (take (length rs) rs))"
    using assms
  proof (rule dedup_invariant [where
        I = "\<lambda>n ds pr. mset (map (cr_id \<circ> snd) ds) + mset pr = mset (map cr_id (take n rs))"], goal_cases)
    case (4 n r ds pr i)
    let ?ids = "\<lambda>ds. mset (map (cr_id \<circ> snd) ds)"
    have "add_mset (cr_id (snd (ds ! i))) (?ids (ds[i := (n, r)]) + mset pr)
        = add_mset (cr_id r) (?ids ds + mset pr)"
      using mset_map_update [OF 4(5), of "cr_id \<circ> snd" "(n, r)"]
      by (metis comp_apply snd_conv union_mset_add_mset_left)
    with 4 show ?case by (simp add: take_Suc_conv_app_nth)
  qed (auto simp: take_Suc_conv_app_nth)
  then show ?thesis by simp
qed

text \<open>Survivors are input records at their own index, and indices do not repeat.\<close>

lemma dedup_sources:
  assumes "dedup_loop sl 0 rs [] [] = (ds, pr)"
  shows "(\<forall>x \<in> set ds. fst x < length rs \<and> rs ! fst x = snd x) \<and> distinct (map fst ds)"
  using assms
proof (rule dedup_invariant [where
      I = "\<lambda>n ds pr. (\<forall>x \<in> set ds. fst x < n \<and> rs ! fst x = snd x) \<and> distinct (map fst ds)"], goal_cases)
  case (4 n r ds pr i)
  then have "n \<notin> set (map fst ds)" by auto
  then have "distinct (map fst (ds[i := (n, r)]))"
    using 4 by (auto simp: map_update intro: distinct_list_update)
  with 4 show ?case by (auto dest!: set_update_subset_insert [THEN subsetD])
qed (auto simp: less_Suc_eq)

text \<open>
  Pruning is lossless: every record that is not superseded by a trusted link has a survivor with the
  same content, and a trusted one a trusted survivor.
\<close>

definition represented :: "context_record \<Rightarrow> context_record list \<Rightarrow> bool" where
  "represented r rs \<longleftrightarrow>
     (\<exists>k \<in> set rs. same_content r k \<and> (\<not> cr_is_untrusted_surface r \<longrightarrow> \<not> cr_is_untrusted_surface k))"

lemma same_content_trans: "same_content r k \<Longrightarrow> same_content k k' \<Longrightarrow> same_content r k'"
  by (simp add: same_content_def)

lemma same_content_sym: "same_content r k \<Longrightarrow> same_content k r"
  by (simp add: same_content_def)

lemma dedup_lossless:
  assumes "dedup_loop sl 0 rs [] [] = (ds, pr)" and "r \<in> set rs" and "cr_id r \<notin> set sl"
  shows "represented r (map snd ds)"
proof -
  have "\<forall>i < length rs. cr_id (rs ! i) \<notin> set sl \<longrightarrow> represented (rs ! i) (map snd ds)"
    using assms(1)
  proof (rule dedup_invariant [where I = "\<lambda>n ds pr. \<forall>i < n. cr_id (rs ! i) \<notin> set sl \<longrightarrow>
        represented (rs ! i) (map snd ds)"], goal_cases)
    case (4 n r ds pr i)
    have "represented x (map snd (ds[i := (n, r)]))" if "represented x (map snd ds)" for x
    proof -
      from that obtain k where k: "k \<in> set (map snd ds)" "same_content x k"
        "\<not> cr_is_untrusted_surface x \<longrightarrow> \<not> cr_is_untrusted_surface k" by (auto simp: represented_def)
      show ?thesis
      proof (cases "k = snd (ds ! i)")
        case True
        then have "same_content x r"
          using k(2) 4(6) same_content_sym same_content_trans by blast
        moreover have "\<not> cr_is_untrusted_surface x \<longrightarrow> \<not> cr_is_untrusted_surface r"
          using k(3) 4(7) True by (auto simp: keep_new_def)
        ultimately show ?thesis using 4(5) by (auto simp: represented_def map_update set_update_memI)
      next
        case False
        then obtain j where "j < length ds" "j \<noteq> i" "snd (ds ! j) = k"
          using k(1) by (auto simp: in_set_conv_nth) (metis snd_conv)
        then have "k \<in> set (map snd (ds[i := (n, r)]))"
          by (metis length_list_update length_map nth_list_update_neq nth_map nth_mem)
        then show ?thesis using k by (auto simp: represented_def)
      qed
    qed
    moreover have "represented r (map snd (ds[i := (n, r)]))"
      using 4(5) by (auto simp: represented_def same_content_def map_update set_update_memI)
    ultimately show ?case using 4 by (auto simp: less_Suc_eq)
  next
    case (5 n r ds pr i)
    then have "represented r (map snd ds)"
      unfolding represented_def keep_new_def by (intro bexI [of _ "snd (ds ! i)"]) auto
    with 5 show ?case by (auto simp: less_Suc_eq)
  qed (auto simp: less_Suc_eq represented_def same_content_def)
  with assms show ?thesis by (auto simp: in_set_conv_nth)
qed


section \<open>Staging and selection\<close>

fun oversized :: "record_body \<Rightarrow> bool" where
  "oversized (RB_Inline bs) \<longleftrightarrow> length bs > EXTERNALIZE_THRESHOLD_BYTES"
| "oversized (RB_Artifact _) \<longleftrightarrow> False"

text \<open>The input record a staged record stands for.\<close>

fun unstage :: "staged_record \<Rightarrow> nat \<times> context_record" where
  "unstage (i, r, None) = (i, r)"
| "unstage (i, r, Some bs) = (i, r\<lparr> cr_body := RB_Inline bs \<rparr>)"

text \<open>Pending records carry consecutive predicted references.\<close>

fun staged_ok :: "u64 \<Rightarrow> u64 \<Rightarrow> staged_record list \<Rightarrow> bool" where
  "staged_ok base j [] \<longleftrightarrow> True"
| "staged_ok base j ((i, r, None) # ss) \<longleftrightarrow> \<not> oversized (cr_body r) \<and> staged_ok base j ss"
| "staged_ok base j ((i, r, Some bs) # ss) \<longleftrightarrow>
     oversized (RB_Inline bs) \<and> length bs \<le> MAX_ARTIFACT_BYTES
     \<and> cr_body r = RB_Artifact (ArtifactRef (artifact_name (base + (j + 1))))
     \<and> staged_ok base (j + 1) ss"

lemma stage_loop_Ok:
  "stage_loop base j ds acc = Ok out \<Longrightarrow> \<exists>ss. out = acc @ ss \<and> map unstage ss = ds \<and> staged_ok base j ss"
proof (induction base j ds acc rule: stage_loop.induct)
  case (2 base j i r ds acc)
  show ?case
  proof (cases "oversized (cr_body r)")
    case True
    then obtain bs where bs: "cr_body r = RB_Inline bs" "EXTERNALIZE_THRESHOLD_BYTES < length bs"
      by (cases "cr_body r") auto
    let ?s = "(i, r\<lparr> cr_body := RB_Artifact (ArtifactRef (artifact_name (base + (j + 1)))) \<rparr>, Some bs)"
    have le: "length bs \<le> MAX_ARTIFACT_BYTES"
      and "stage_loop base (j + 1) ds (acc @ [?s]) = Ok out"
      using 2(4) bs by (auto split: if_splits)
    then obtain ss where "out = (acc @ [?s]) @ ss" "map unstage ss = ds" "staged_ok base (j + 1) ss"
      using "2.IH"(1) [OF bs] by auto
    with bs le show ?thesis by (intro exI [of _ "?s # ss"]) simp
  next
    case False
    then have "stage_loop base j ds (acc @ [(i, r, None)]) = Ok out"
      using 2(4) by (auto split: record_body.splits)
    then obtain ss where "out = (acc @ [(i, r, None)]) @ ss" "map unstage ss = ds" "staged_ok base j ss"
      using "2.IH"(2,3) False by (cases "cr_body r") force+
    with False show ?thesis by (intro exI [of _ "(i, r, None) # ss"]) simp
  qed
qed simp

lemma unstage_index: "fst (unstage s) = fst s"
  by (cases s rule: unstage.cases) auto

lemma unstage_frame:
  "cr_id (snd (unstage s)) = cr_id (staged_rec s)"
  "cr_provider (snd (unstage s)) = cr_provider (staged_rec s)"
  "cr_summary (snd (unstage s)) = cr_summary (staged_rec s)"
  "cr_is_untrusted_surface (snd (unstage s)) = cr_is_untrusted_surface (staged_rec s)"
  "effective_priority (snd (unstage s)) = effective_priority (staged_rec s)"
  by (cases s rule: unstage.cases; simp add: staged_rec_def effective_priority_def)+

lemma selection_order_perm: "mset (selection_order staged) = mset [0..<length staged]"
  by (simp add: selection_order_def)

lemma selection_order_distinct [simp]: "distinct (selection_order staged)"
  by (simp add: selection_order_def)

lemma selection_order_set [simp]: "set (selection_order staged) = {0..<length staged}"
  by (simp add: selection_order_def)

lemma selection_order_sorted:
  "sorted_wrt (\<lambda>p q. effective_priority (staged_rec (staged ! q)) \<le> effective_priority (staged_rec (staged ! p)))
     (selection_order staged)"
proof -
  let ?key = "\<lambda>p. (3 - priority_u8 (effective_priority (staged_rec (staged ! p))), p)"
  have u8: "priority_u8 x \<le> 3" for x by (cases x) auto
  have "sorted (map ?key (selection_order staged))" by (simp add: selection_order_def)
  then have "sorted_wrt (\<lambda>p q. ?key p \<le> ?key q) (selection_order staged)" by (simp add: sorted_wrt_map)
  then show ?thesis
  proof (rule sorted_wrt_mono_rel [rotated])
    fix p q assume "?key p \<le> ?key q"
    then have "3 - priority_u8 (effective_priority (staged_rec (staged ! p)))
        \<le> 3 - priority_u8 (effective_priority (staged_rec (staged ! q)))"
      by (auto simp: less_eq_prod_def)
    then show "effective_priority (staged_rec (staged ! q)) \<le> effective_priority (staged_rec (staged ! p))"
      using u8 [of "effective_priority (staged_rec (staged ! p))"]
        u8 [of "effective_priority (staged_rec (staged ! q))"]
      unfolding less_eq_context_priority_def by linarith
  qed
qed

abbreviation need :: "staged_record list \<Rightarrow> nat \<Rightarrow> nat" where
  "need staged p \<equiv> footprint_bytes (staged_rec (staged ! p))"

text \<open>What the greedy loop computes, relative to the final selection \<open>sel'\<close>.\<close>

lemma select_loop_spec:
  fixes staged :: "staged_record list" and budget :: nat
  assumes "distinct ps" and "\<forall>p \<in> set ps. p < length (sel_included sel) \<and> \<not> sel_included sel ! p"
  defines "sel' \<equiv> select_loop staged budget ps sel"
  shows "length (sel_included sel') = length (sel_included sel)
    \<and> (\<forall>q. q \<notin> set ps \<longrightarrow> sel_included sel' ! q = sel_included sel ! q)
    \<and> sel_used sel' = sel_used sel + sum_list (map (need staged) (filter (\<lambda>p. sel_included sel' ! p) ps))
    \<and> (sel_used sel \<le> budget \<longrightarrow> sel_used sel' \<le> budget)
    \<and> sel_omitted_ids sel' = sel_omitted_ids sel
         @ map (\<lambda>p. cr_id (staged_rec (staged ! p))) (filter (\<lambda>p. \<not> sel_included sel' ! p) ps)
    \<and> sel_truncated_bytes sel' = sel_truncated_bytes sel
         + of_nat (sum_list (map (need staged) (filter (\<lambda>p. \<not> sel_included sel' ! p) ps)))
    \<and> (\<forall>p \<in> set ps. \<not> sel_included sel' ! p \<longrightarrow>
         budget < sel_used sel
           + sum_list (map (need staged) (filter (\<lambda>q. sel_included sel' ! q) (takeWhile (\<lambda>q. q \<noteq> p) ps)))
           + need staged p)"
  using assms(1,2) unfolding sel'_def
proof (induction ps arbitrary: sel)
  case (Cons p ps)
  show ?case
  proof (cases "sel_used sel + need staged p \<le> budget")
    case True
    let ?sel = "sel\<lparr> sel_included := (sel_included sel)[p := True], sel_used := sel_used sel + need staged p \<rparr>"
    have step: "select_loop staged budget (p # ps) sel = select_loop staged budget ps ?sel"
      using True by (simp add: Let_def)
    have "\<forall>q \<in> set ps. q < length (sel_included ?sel) \<and> \<not> sel_included ?sel ! q"
      using Cons.prems by (auto simp: nth_list_update)
    note IH = Cons.IH [OF _ this]
    have p: "sel_included (select_loop staged budget ps ?sel) ! p"
      using IH Cons.prems by simp
    show ?thesis
      unfolding step using IH Cons.prems p True
      by (auto simp: nth_list_update add.assoc)
  next
    case False
    let ?sel = "sel\<lparr> sel_omitted_ids := sel_omitted_ids sel @ [cr_id (staged_rec (staged ! p))],
        sel_truncated_bytes := sel_truncated_bytes sel + of_nat (need staged p),
        sel_truncated_providers :=
          (if List.member (sel_truncated_providers sel) (cr_provider (staged_rec (staged ! p)))
           then sel_truncated_providers sel
           else sel_truncated_providers sel @ [cr_provider (staged_rec (staged ! p))]) \<rparr>"
    have step: "select_loop staged budget (p # ps) sel = select_loop staged budget ps ?sel"
      using False by (simp add: Let_def)
    have "\<forall>q \<in> set ps. q < length (sel_included ?sel) \<and> \<not> sel_included ?sel ! q"
      using Cons.prems by auto
    note IH = Cons.IH [OF _ this]
    have p: "\<not> sel_included (select_loop staged budget ps ?sel) ! p"
      using IH Cons.prems by simp
    show ?thesis
      unfolding step using IH Cons.prems p False
      by (auto simp: add.assoc)
  qed
qed simp


section \<open>Commit\<close>

definition pending_of :: "(bool \<times> staged_record) list \<Rightarrow> bytes list" where
  "pending_of ks = List.map_filter (\<lambda>(kept, s). if kept then snd (snd s) else None) ks"

lemma pending_of_simps [simp]:
  "pending_of [] = []"
  "pending_of ((True, (i, r, Some bs)) # ks) = bs # pending_of ks"
  "pending_of ((True, (i, r, None)) # ks) = pending_of ks"
  "pending_of ((False, s) # ks) = pending_of ks"
  by (simp_all add: pending_of_def List.map_filter_simps)

lemma included_pending_eq: "included_pending inc ss = pending_of (zip inc ss)"
  by (simp add: included_pending_def pending_of_def)

text \<open>After the pre-validation no \<open>store\<close> call of the commit can fail.\<close>

lemma commit_no_error:
  assumes "length (as_entries st) + length (pending_of ks) \<le> MAX_ARTIFACTS"
    and "as_total_bytes st + sum_list (map length (pending_of ks)) \<le> MAX_ARTIFACT_STORE_BYTES"
    and "\<forall>bs \<in> set (pending_of ks). length bs \<le> MAX_ARTIFACT_BYTES"
  shows "\<exists>out st'. commit_loop g ks acc n st = (Ok out, st')"
  using assms
proof (induction ks arbitrary: acc n st)
  case (Cons k ks)
  obtain kept i r pending where k: "k = (kept, i, r, pending)" by (cases k)
  show ?case
  proof (cases "kept \<and> pending \<noteq> None")
    case True
    then obtain bs where p: "pending = Some bs" "kept" by auto
    define st1 where "st1 = st\<lparr> as_next_id := as_next_id st + 1,
        as_total_bytes := as_total_bytes st + length bs,
        as_entries := as_entries st @ [\<lparr> ae_reference = artifact_name (as_next_id st + 1),
          ae_bytes = bs, ae_generation = g \<rparr>] \<rparr>"
    have "artifact_put bs g st = (Ok (ArtifactRef (artifact_name (as_next_id st + 1))), st1)"
      using Cons.prems k p by (simp add: artifact_put_Ok st1_def)
    moreover have "\<exists>out st'. commit_loop g ks acc' n' st1 = (Ok out, st')" for acc' n'
      using Cons.prems k p by (intro Cons.IH) (auto simp: st1_def)
    ultimately show ?thesis using k p by simp
  next
    case False
    with Cons k show ?thesis by (cases kept; cases pending) auto
  qed
qed simp

definition extends :: "artifact_store \<Rightarrow> artifact_store \<Rightarrow> bool" where
  "extends s t \<longleftrightarrow> (\<forall>r g bs. artifact_resolve s r g = Ok bs \<longrightarrow> artifact_resolve t r g = Ok bs)"

lemma extends_refl [simp]: "extends s s"
  by (simp add: extends_def)

lemma extends_trans: "extends s t \<Longrightarrow> extends t u \<Longrightarrow> extends s u"
  by (simp add: extends_def)

lemma artifact_put_extends:
  assumes "store_inv s" "as_next_id s \<noteq> - 1" "artifact_put bs g s = (Ok x, t)"
  shows "extends s t" and "artifact_resolve t x g = Ok bs"
proof -
  have fe: "find_entry t r = (if r = x then Some \<lparr> ae_reference = ref_str x, ae_bytes = bs,
      ae_generation = g \<rparr> else find_entry s r)" for r
    by (rule find_entry_put [OF assms])
  have "find_entry s x = None"
    using assms next_name_fresh(1) [OF assms(2)]
    by (auto simp: artifact_put_Ok find_entry_None_iff store_inv_def)
  then show "extends s t"
    using fe by (auto simp: extends_def artifact_resolve_def split: option.splits if_splits)
  show "artifact_resolve t x g = Ok bs" using fe [of x] by (simp add: artifact_resolve_def)
qed

definition committed_as :: "u64 \<Rightarrow> artifact_store \<Rightarrow> staged_record \<Rightarrow> staged_record \<Rightarrow> bool" where
  "committed_as g st s s' \<longleftrightarrow>
     fst s' = fst s \<and> footprint_bytes (staged_rec s') \<le> footprint_bytes (staged_rec s)
     \<and> (case snd (snd s) of
          None \<Rightarrow> staged_rec s' = staged_rec s
        | Some bs \<Rightarrow> (\<exists>reference. staged_rec s' = (staged_rec s)\<lparr> cr_body := RB_Artifact reference \<rparr>
                                \<and> artifact_resolve st reference g = Ok bs))"

lemma committed_as_extends: "committed_as g st s s' \<Longrightarrow> extends st st' \<Longrightarrow> committed_as g st' s s'"
  by (auto simp: committed_as_def extends_def split: option.splits)

lemma unat_plus_small:
  fixes a b :: u64
  shows "unat a + unat b < 2 ^ 64 \<Longrightarrow> unat (a + b) = unat a + unat b"
  by (simp add: unat_word_ariths)

lemma artifact_name_length_mono:
  "unat i \<le> unat j \<Longrightarrow> length (artifact_name i) \<le> length (artifact_name j)"
  by (simp add: artifact_name_def length_show_nat_mono)

text \<open>
  The commit replaces predicted references by issued ones. The issued number never exceeds the
  predicted one, since only included records advance it, so no footprint grows.
\<close>

lemma commit_loop_spec:
  assumes "store_inv st" and "staged_ok base j (map snd ks)"
    and "as_next_id st = base + c" and "unat c \<le> unat j"
    and "unat base + unat j + length ks < 2 ^ 64 - 1"
    and "commit_loop g ks acc n st = (Ok (out, m), st')"
  shows "\<exists>ss'. out = acc @ ss' \<and> m = n + length (pending_of ks) \<and> store_inv st' \<and> extends st st'
           \<and> list_all2 (\<lambda>(kept, s) s'. if kept then committed_as g st' s s' else s' = s) ks ss'"
  using assms
proof (induction ks arbitrary: acc n st j c)
  case (Cons k rest)
  obtain kept i r pending where k: "k = (kept, i, r, pending)" by (cases k)
  note prems = Cons.prems [unfolded k]
  show ?case
  proof (cases pending)
    case None
    have "commit_loop g rest (acc @ [(i, r, None)]) n st = (Ok (out, m), st')"
      using prems(6) None by (cases kept) auto
    from Cons.IH [OF prems(1) _ prems(3,4) _ this] prems(2,5) None obtain ss' where ss': "out = (acc @ [(i, r, None)]) @ ss'" "m = n + length (pending_of rest)"
      "store_inv st'" "extends st st'"
      "list_all2 (\<lambda>(kept, s) s'. if kept then committed_as g st' s s' else s' = s) rest ss'"
      by auto
    then show ?thesis
      using None k by (intro exI [of _ "(i, r, None) # ss'"]) (cases kept; simp add: committed_as_def)
  next
    case (Some bs)
    have j1: "unat (j + 1) = Suc (unat j)" using prems(5) by (intro unat_succ) (auto simp: unat_minus_one_max)
    have staged: "staged_ok base (j + 1) (map snd rest)"
      and body: "cr_body r = RB_Artifact (ArtifactRef (artifact_name (base + (j + 1))))"
      using prems(2) Some by auto
    have room: "unat base + unat (j + 1) + length rest < 2 ^ 64 - 1" using prems(5) j1 by simp
    show ?thesis
    proof (cases kept)
      case False
      then have "commit_loop g rest (acc @ [(i, r, pending)]) n st = (Ok (out, m), st')"
        using prems(6) by simp
      from Cons.IH [OF prems(1) staged prems(3) _ room this] j1 prems(4)
      obtain ss' where "out = (acc @ [(i, r, pending)]) @ ss'" "m = n + length (pending_of rest)"
        "store_inv st'" "extends st st'"
        "list_all2 (\<lambda>(kept, s) s'. if kept then committed_as g st' s s' else s' = s) rest ss'"
        by auto
      then show ?thesis using False k by (intro exI [of _ "(i, r, pending) # ss'"]) simp
    next
      case True
      obtain x st1 where put: "artifact_put bs g st = (Ok x, st1)"
        and rest: "commit_loop g rest (acc @ [(i, r\<lparr> cr_body := RB_Artifact x \<rparr>, None)]) (Suc n) st1
                     = (Ok (out, m), st')"
        using prems(6) Some True by (auto split: prod.splits result.splits)
      have c1: "unat (c + 1) = Suc (unat c)" using prems(4,5) by (intro unat_succ) (auto simp: unat_minus_one_max)
      have nx: "as_next_id st \<noteq> - 1"
        using prems(3-5) unat_plus_small [of base c] unat_minus_one_max [where 'l = 64] by auto
      have inv1: "store_inv st1" using artifact_put_inv [OF prems(1) nx put] .
      have x: "x = ArtifactRef (artifact_name (base + (c + 1)))" and n1: "as_next_id st1 = base + (c + 1)"
        using put prems(3) by (auto simp: artifact_put_Ok add.assoc)
      have "length (ref_str x) \<le> length (artifact_name (base + (j + 1)))"
        unfolding x using prems(4,5) j1 c1 unat_plus_small [of base "c + 1"] unat_plus_small [of base "j + 1"]
        by (simp add: artifact_name_length_mono)
      then have com: "committed_as g st1 (i, r, Some bs) (i, r\<lparr> cr_body := RB_Artifact x \<rparr>, None)"
        using artifact_put_extends(2) [OF prems(1) nx put] body
        by (auto simp: committed_as_def staged_rec_def footprint_bytes_def intro: exI [of _ x])
      from Cons.IH [OF inv1 staged n1 _ room rest] c1 j1 prems(4)
      obtain ss' where ss': "out = (acc @ [(i, r\<lparr> cr_body := RB_Artifact x \<rparr>, None)]) @ ss'"
        "m = Suc n + length (pending_of rest)" "store_inv st'" "extends st1 st'"
        "list_all2 (\<lambda>(kept, s) s'. if kept then committed_as g st' s s' else s' = s) rest ss'"
        by auto
      moreover have "extends st st'"
        using artifact_put_extends(1) [OF prems(1) nx put] ss'(4) by (rule extends_trans)
      ultimately show ?thesis
        using True Some k committed_as_extends [OF com ss'(4)]
        by (intro exI [of _ "(i, r\<lparr> cr_body := RB_Artifact x \<rparr>, None) # ss'"]) simp
    qed
  qed
qed simp


end
