(* ===== verification/Context_Theorems.thy ===== *)
theory Context_Theorems
  imports Context_Assembly
begin

text \<open>
  The correctness of context assembly as a whole: atomicity on error, the byte budget, the accounting
  of every input record, the fidelity of the assembled content, and the priority discipline of
  omissions. The loops are treated in \<open>Context_Assembly\<close>; \<open>assemble_view\<close> collects what they give.
\<close>

section \<open>The whole assembly\<close>

lemma staged_pending_small:
  "staged_ok base j ss \<Longrightarrow> bs \<in> set (pending_of (zip inc ss)) \<Longrightarrow> length bs \<le> MAX_ARTIFACT_BYTES"
proof (induction base j ss arbitrary: inc rule: staged_ok.induct)
  case (2 base j i r ss)
  then show ?case by (cases inc) (auto, metis (full_types) pending_of_simps(3,4))
next
  case (3 base j i r b ss)
  then show ?case
    by (cases inc) (auto, metis (full_types) pending_of_simps(2,4) set_ConsD)
qed simp

text \<open>Every early return keeps the store; the rest is \<open>select_and_commit\<close> on a well-staged list.\<close>

lemma assemble_cases:
  assumes "assemble rs req st = (r, st')"
  obtains (early) e where "r = Err e" "st' = st"
  | (late) ds pr ss where "length rs \<le> MAX_CONTEXT_RECORDS" "distinct (map cr_id rs)"
      "dedup_loop (superseded_ids rs) 0 rs [] [] = (ds, pr)"
      "map unstage ss = ds" "staged_ok (as_next_id st) 0 ss"
      "select_and_commit req pr ss st = (r, st')"
proof -
  obtain ds pr where d: "dedup_loop (superseded_ids rs) 0 rs [] [] = (ds, pr)" by fastforce
  show thesis
  proof (cases "length rs \<le> MAX_CONTEXT_RECORDS \<and> is_ok (check_all record_validate rs)
      \<and> is_ok (check_unique {} rs) \<and> is_ok (check_all (check_generation (req_current_generation req)) rs)
      \<and> is_ok (stage_loop (as_next_id st) 0 ds [])")
    case False
    then have "\<exists>e. assemble rs req st = (Err e, st)"
      using d by (auto simp: assemble_def split: result.splits)
    then show thesis using assms early by auto
  next
    case True
    then obtain ss where ss: "stage_loop (as_next_id st) 0 ds [] = Ok ss" by (auto simp: is_ok_iff)
    have "select_and_commit req pr ss st = (r, st')"
      using True assms ss d by (auto simp: assemble_def is_ok_iff)
    moreover have "distinct (map cr_id rs)" using True by (auto simp: is_ok_iff check_unique_Ok_iff)
    ultimately show thesis using True d stage_loop_Ok [OF ss] late by auto
  qed
qed

lemma select_and_commit_Err:
  assumes ok: "staged_ok base j ss" and err: "select_and_commit req pr ss st = (Err e, st')"
  shows "st' = st"
proof -
  define inc where "inc = sel_included (select_loop ss (effective_budget_bytes req)
      (selection_order ss) (selection_start (length ss)))"
  have small: "\<forall>bs \<in> set (pending_of (zip inc ss)). length bs \<le> MAX_ARTIFACT_BYTES"
    using staged_pending_small [OF ok] by blast
  show ?thesis
  proof (cases "length (as_entries st) + length (pending_of (zip inc ss)) \<le> MAX_ARTIFACTS
      \<and> as_total_bytes st + sum_list (map length (pending_of (zip inc ss))) \<le> MAX_ARTIFACT_STORE_BYTES")
    case True
    with commit_no_error [OF _ _ small] obtain out n st2 where
      "commit_loop (req_current_generation req) (zip inc ss) [] 0 st = (Ok (out, n), st2)"
      by (metis surj_pair)
    with True err show ?thesis
      by (simp add: select_and_commit_def Let_def included_pending_eq flip: inc_def split: if_splits)
  next
    case False
    with err show ?thesis
      by (auto simp: select_and_commit_def Let_def included_pending_eq simp flip: inc_def split: if_splits)
  qed
qed

lemma select_and_commit_Ok:
  assumes "select_and_commit req pr ss st = (Ok ctx, st')"
  obtains sel ss' where
    "sel = select_loop ss (effective_budget_bytes req) (selection_order ss) (selection_start (length ss))"
    "commit_loop (req_current_generation req) (zip (sel_included sel) ss) [] 0 st
       = (Ok (ss', ac_externalized ctx), st')"
    "ac_records ctx = map assembled_of (selected_records (sel_included sel) ss')"
    "ac_context_refs ctx = map cr_id (selected_records (sel_included sel) ss')"
    "ac_omitted_ids ctx = sel_omitted_ids sel" "ac_pruned_ids ctx = pr"
  using assms that
  by (auto simp: select_and_commit_def Let_def split: if_splits result.splits prod.splits)

lemma sum_perm: "mset xs = mset ys \<Longrightarrow> sum_list (map f xs) = sum_list (map f ys)"
  for f :: "'a \<Rightarrow> nat"
  by (metis mset_map sum_mset_sum_list)

lemma sum_filter_perm:
  "mset xs = mset ys \<Longrightarrow> sum_list (map f (filter P xs)) = sum_list (map f (filter P ys))"
  for f :: "'a \<Rightarrow> nat"
  by (metis mset_filter mset_map sum_mset_sum_list)

lemma mset_map_filter_perm:
  "mset xs = mset ys \<Longrightarrow> mset (map f (filter P xs)) = mset (map f (filter P ys))"
  by (metis mset_filter mset_map)

lemma filter_zip_positions:
  "length inc = length ss \<Longrightarrow>
   filter fst (zip inc ss) = map (\<lambda>p. (True, ss ! p)) (filter (\<lambda>p. inc ! p) [0..<length ss])"
proof (induction inc ss rule: list_induct2)
  case (Cons i inc s ss)
  have "filter (\<lambda>p. (i # inc) ! p) [0..<length (s # ss)]
      = (if i then [0] else []) @ map Suc (filter (\<lambda>p. inc ! p) [0..<length ss])"
    by (simp add: upt_conv_Cons filter_map comp_def flip: map_Suc_upt del: upt_Suc)
  with Cons.IH show ?case by (auto simp: comp_def)
qed simp

text \<open>The selected records as a multiset: the committed record at every included position.\<close>

lemma mset_selected:
  "length inc = length ss \<Longrightarrow>
   mset (selected_records inc ss) =
     mset (map (\<lambda>p. staged_rec (ss ! p)) (filter (\<lambda>p. inc ! p) [0..<length ss]))"
  by (simp add: selected_records_def filter_zip_positions staged_rec_def case_prod_beta comp_def
      multiset.map_comp)

lemma committed_id: "committed_as g st s s' \<Longrightarrow> cr_id (staged_rec s') = cr_id (staged_rec s)"
  by (auto simp: committed_as_def split: option.splits)

lemma mset_map_partition:
  "mset (map f (filter P xs)) + mset (map f (filter (\<lambda>x. \<not> P x) xs)) = mset (map f xs)"
  by (induction xs) auto

lemma sorted_indices_subseq:
  assumes "sorted is" "distinct is" "set is \<subseteq> {..<n}"
  shows "subseq (map f is) (map f [0..<n])"
proof -
  have "is = filter (\<lambda>i. i \<in> set is) [0..<n]"
    using assms by (intro sorted_distinct_set_unique) (auto intro: sorted_wrt_filter)
  then have "subseq is [0..<n]" by (metis subseq_filter_left)
  then show ?thesis by (rule subseq_map)
qed

lemma selected_in_order:
  assumes src: "\<forall>x \<in> set ds. fst x < length rs \<and> rs ! fst x = snd x" and dist: "distinct (map fst ds)"
    and "map unstage ss = ds" and len: "length inc = length ss" "length ss' = length ss"
    and com: "\<And>p. p < length ss \<Longrightarrow> inc ! p \<Longrightarrow> committed_as g st (ss ! p) (ss' ! p)"
  shows "subseq (map cr_id (selected_records inc ss')) (map cr_id rs)"
proof -
  define kept where "kept = filter (\<lambda>p. inc ! p) [0..<length ss]"
  define xs where "xs = map (\<lambda>p. (fst (ss' ! p), staged_rec (ss' ! p))) kept"
  define ys where "ys = sort_key fst xs"
  have sel: "selected_records inc ss' = map snd ys"
    using len by (simp add: selected_records_def filter_zip_positions ys_def xs_def kept_def staged_rec_def
        case_prod_beta comp_def)
  have pos: "fst (ss' ! p) = fst (ds ! p) \<and> cr_id (staged_rec (ss' ! p)) = cr_id (snd (ds ! p))
      \<and> ds ! p \<in> set ds" if "p \<in> set kept" for p
    using that com [of p] committed_id [OF com, of p] len
    by (auto simp: kept_def unstage_frame unstage_index committed_as_def simp flip: assms(3))
  have "map fst xs = map (\<lambda>p. fst (ds ! p)) kept" using pos by (simp add: xs_def)
  moreover have "distinct (map (\<lambda>p. fst (ds ! p)) kept)"
  proof -
    have "inj_on (\<lambda>p. fst (ds ! p)) {..<length ds}"
      using dist by (auto simp: inj_on_def distinct_conv_nth)
    moreover have "set kept \<subseteq> {..<length ds}" using assms(3) by (auto simp: kept_def)
    ultimately show ?thesis by (auto simp: distinct_map kept_def intro: inj_on_subset)
  qed
  ultimately have "distinct (map fst ys)"
    unfolding ys_def by (metis mset_eq_imp_distinct_iff mset_map mset_sort)
  moreover have "sorted (map fst ys)" by (simp add: ys_def)
  moreover have ys: "fst y < length rs \<and> cr_id (rs ! fst y) = cr_id (snd y)" if "y \<in> set ys" for y
    using that pos src by (auto simp: ys_def xs_def)
  then have "set (map fst ys) \<subseteq> {..<length rs}" by auto
  ultimately have "subseq (map (\<lambda>i. cr_id (rs ! i)) (map fst ys)) (map (\<lambda>i. cr_id (rs ! i)) [0..<length rs])"
    by (intro sorted_indices_subseq)
  moreover have "map (\<lambda>i. cr_id (rs ! i)) (map fst ys) = map cr_id (map snd ys)" using ys by simp
  moreover have "map (\<lambda>i. cr_id (rs ! i)) [0..<length rs] = map cr_id rs"
    by (rule nth_equalityI) simp_all
  ultimately show ?thesis by (simp only: sel)
qed

text \<open>
  Everything known of a successful assembly, by positions of the staged list: \<open>f p\<close> is the input
  record at position \<open>p\<close>, \<open>c p\<close> the committed one.
\<close>

lemma assemble_view:
  assumes asm: "assemble rs req st = (Ok ctx, st')" and inv: "store_inv st"
    and room: "unat (as_next_id st) + MAX_CONTEXT_RECORDS < 2 ^ 64 - 1"
  obtains (view) ds ss ss' sel where
    "dedup_loop (superseded_ids rs) 0 rs [] [] = (ds, ac_pruned_ids ctx)"
    "map unstage ss = ds" "staged_ok (as_next_id st) 0 ss"
    "sel = select_loop ss (effective_budget_bytes req) (selection_order ss) (selection_start (length ss))"
    "length (sel_included sel) = length ss" "length ss' = length ss"
    "\<And>p. p < length ss \<Longrightarrow> sel_included sel ! p \<Longrightarrow>
       committed_as (req_current_generation req) st' (ss ! p) (ss' ! p)"
    "ac_records ctx = map assembled_of (selected_records (sel_included sel) ss')"
    "ac_context_refs ctx = map cr_id (selected_records (sel_included sel) ss')"
    "ac_omitted_ids ctx = sel_omitted_ids sel"
    "store_inv st'" "extends st st'" "distinct (map cr_id rs)"
proof -
  from asm obtain ds pr ss where *: "length rs \<le> MAX_CONTEXT_RECORDS" "distinct (map cr_id rs)"
    "dedup_loop (superseded_ids rs) 0 rs [] [] = (ds, pr)"
    "map unstage ss = ds" "staged_ok (as_next_id st) 0 ss"
    "select_and_commit req pr ss st = (Ok ctx, st')"
    by (cases rule: assemble_cases) auto
  from *(6) obtain sel ss' where
    sel: "sel = select_loop ss (effective_budget_bytes req) (selection_order ss) (selection_start (length ss))"
    and commit: "commit_loop (req_current_generation req) (zip (sel_included sel) ss) [] 0 st
       = (Ok (ss', ac_externalized ctx), st')"
    and recs: "ac_records ctx = map assembled_of (selected_records (sel_included sel) ss')"
    "ac_context_refs ctx = map cr_id (selected_records (sel_included sel) ss')"
    "ac_omitted_ids ctx = sel_omitted_ids sel" "ac_pruned_ids ctx = pr"
    by (rule select_and_commit_Ok)
  have len: "length (sel_included sel) = length ss"
    using select_loop_spec [of "selection_order ss" "selection_start (length ss)" ss
        "effective_budget_bytes req"] sel by (simp add: selection_start_def)
  have "size (mset (map (cr_id \<circ> snd) ds)) \<le> size (mset (map cr_id rs))"
    using dedup_accounts [OF *(3)] by (metis le_add1 size_union)
  then have "length ss \<le> MAX_CONTEXT_RECORDS" using *(1) by (simp flip: *(4))
  then have small: "unat (as_next_id st) + unat (0 :: u64) + length (zip (sel_included sel) ss) < 2 ^ 64 - 1"
    using room len by simp
  have "staged_ok (as_next_id st) 0 (map snd (zip (sel_included sel) ss))"
    using *(5) len by simp
  from commit_loop_spec [OF inv this _ _ small commit]
  have store: "store_inv st'" "extends st st'"
    and com: "list_all2 (\<lambda>(kept, s) s'. if kept then committed_as (req_current_generation req) st' s s'
       else s' = s) (zip (sel_included sel) ss) ss'" by auto
  from com have len': "length ss' = length ss" using len by (auto dest: list_all2_lengthD)
  have kept: "committed_as (req_current_generation req) st' (ss ! p) (ss' ! p)"
    if "p < length ss" "sel_included sel ! p" for p
    using that len list_all2_nthD [OF com, of p] by simp
  show thesis
    by (rule that [of ds ss sel ss']) (use * sel recs len len' kept store in simp_all)
qed

lemma assembled_footprint:
  "length (ar_summary (assembled_of r)) + content_byte_len (ar_content (assembled_of r)) = footprint_bytes r"
  by (simp add: assembled_of_def footprint_bytes_def split: record_body.splits)

text \<open>The surviving records are the assembled and the omitted ones.\<close>

lemma survivors_reported:
  assumes "map unstage ss = ds" and len: "length (sel_included sel) = length ss" "length ss' = length ss"
    and sel: "sel = select_loop ss budget (selection_order ss) (selection_start (length ss))"
    and com: "\<And>p. p < length ss \<Longrightarrow> sel_included sel ! p \<Longrightarrow> committed_as g st (ss ! p) (ss' ! p)"
  shows "mset (map cr_id (selected_records (sel_included sel) ss')) + mset (sel_omitted_ids sel)
           = mset (map (cr_id \<circ> snd) ds)"
proof -
  let ?id = "\<lambda>p. cr_id (staged_rec (ss ! p))" and ?all = "[0..<length ss]"
  have "mset (map cr_id (selected_records (sel_included sel) ss')) = image_mset cr_id (mset (selected_records (sel_included sel) ss'))"
    by simp
  also have "\<dots> = mset (map (\<lambda>p. cr_id (staged_rec (ss' ! p))) (filter (\<lambda>p. sel_included sel ! p) ?all))"
    using mset_selected [of "sel_included sel" ss'] len by (simp add: multiset.map_comp comp_def)
  also have "\<dots> = mset (map ?id (filter (\<lambda>p. sel_included sel ! p) ?all))"
    using committed_id [OF com] by (intro arg_cong [where f = mset] map_cong) auto
  finally have refs: "mset (map cr_id (selected_records (sel_included sel) ss')) = mset (map ?id (filter (\<lambda>p. sel_included sel ! p) ?all))" .
  have "sel_omitted_ids sel = map ?id (filter (\<lambda>p. \<not> sel_included sel ! p) (selection_order ss))"
    using select_loop_spec [of "selection_order ss" "selection_start (length ss)" ss
        budget] sel by (simp add: selection_start_def)
  then have omitted: "mset (sel_omitted_ids sel) = mset (map ?id (filter (\<lambda>p. \<not> sel_included sel ! p) ?all))"
    using mset_map_filter_perm [OF selection_order_perm] by metis
  have "mset (map cr_id (selected_records (sel_included sel) ss')) + mset (sel_omitted_ids sel) = mset (map ?id ?all)"
    unfolding refs omitted by (rule mset_map_partition)
  also have "map ?id ?all = map (cr_id \<circ> snd) ds"
    unfolding assms(1) [symmetric] by (rule nth_equalityI) (simp_all add: unstage_frame)
  finally show ?thesis .
qed

lemma staged_ok_elem:
  "staged_ok base j ss \<Longrightarrow> s \<in> set ss \<Longrightarrow>
     (case snd (snd s) of
        None \<Rightarrow> \<not> oversized (cr_body (staged_rec s))
      | Some bs \<Rightarrow> oversized (RB_Inline bs)
          \<and> (\<exists>i. cr_body (staged_rec s) = RB_Artifact (ArtifactRef (artifact_name i))))"
  by (induction base j ss rule: staged_ok.induct) (auto simp: staged_rec_def)

lemma selected_positions:
  assumes "length inc = length ss" and "r \<in> set (selected_records inc ss)"
  obtains p where "p < length ss" "inc ! p" "r = staged_rec (ss ! p)"
proof -
  have "r \<in># mset (map (\<lambda>p. staged_rec (ss ! p)) (filter (\<lambda>p. inc ! p) [0..<length ss]))"
    using assms mset_selected [of inc ss] by (metis set_mset_mset)
  then show thesis using that by auto
qed

lemma selected_positionI:
  assumes "length inc = length ss" "p < length ss" "inc ! p"
  shows "staged_rec (ss ! p) \<in> set (selected_records inc ss)"
proof -
  have "staged_rec (ss ! p) \<in># mset (map (\<lambda>p. staged_rec (ss ! p)) (filter (\<lambda>p. inc ! p) [0..<length ss]))"
    using assms by auto
  then show ?thesis using assms(1) mset_selected [of inc ss] by (metis set_mset_mset)
qed

text \<open>The most a record can count against the budget; an issued reference has at most 31 bytes.\<close>

definition max_footprint :: "context_record \<Rightarrow> nat" where
  "max_footprint r =
     length (cr_summary r) +
     (case cr_body r of
        RB_Inline bs \<Rightarrow> if length bs > EXTERNALIZE_THRESHOLD_BYTES then 31 else length bs
      | RB_Artifact reference \<Rightarrow> length (ref_str reference))"

lemma artifact_name_length: "length (artifact_name i) \<le> 31"
  using length_show_u64 [of i] by (simp add: artifact_name_def)

lemma need_le_max:
  assumes "staged_ok base j ss" and "s \<in> set ss"
  shows "footprint_bytes (staged_rec s) \<le> max_footprint (snd (unstage s))"
  using staged_ok_elem [OF assms] artifact_name_length
  by (cases s rule: unstage.cases; cases "cr_body (staged_rec s)")
     (auto simp: staged_rec_def footprint_bytes_def max_footprint_def)

lemma sorted_wrt_before:
  "sorted_wrt R xs \<Longrightarrow> p \<in> set xs \<Longrightarrow> q \<in> set (takeWhile (\<lambda>x. x \<noteq> p) xs) \<Longrightarrow> R q p"
  by (induction xs) (auto split: if_splits)

lemma superseded_ids_iff:
  "i \<in> set (superseded_ids rs) \<longleftrightarrow>
     (\<exists>t \<in> set rs. \<not> cr_is_untrusted_surface t \<and> cr_supersedes t = Some i)"
  by (force simp: superseded_ids_def List.map_filter_def image_iff)

section \<open>A worked example\<close>

text \<open>
  Two trusted records under a budget of 13 bytes: the first has a body over the threshold, is
  externalized and assembled; the second no longer fits.
\<close>

definition sample_record :: "string \<Rightarrow> bytes \<Rightarrow> context_record" where
  "sample_record i bs =
     \<lparr> cr_id = i, cr_provider = ''git'', cr_owner = StableId ''o'', cr_generation = 7,
       cr_collected_at_ms = 0, cr_priority = CP_High, cr_summary = [], cr_body = RB_Inline bs,
       cr_supersedes = None, cr_is_untrusted_surface = False \<rparr>"

definition sample_records :: "context_record list" where
  "sample_records = [sample_record ''a'' (replicate 5000 CHR ''x''), sample_record ''b'' ''yy'']"

definition sample_request :: "u64 \<Rightarrow> context_request" where
  "sample_request b = \<lparr> req_max_tokens = None, req_max_bytes = Some b, req_current_generation = 7 \<rparr>"

lemma sample_checks:
  "check_all record_validate sample_records = Ok ()" "check_unique {} sample_records = Ok ()"
  "check_all (check_generation 7) sample_records = Ok ()" "length sample_records \<le> MAX_CONTEXT_RECORDS"
  by (simp_all add: sample_records_def sample_record_def record_validate_def KNOWN_PROVIDERS_def
      check_generation_def MAX_SUMMARY_BYTES_def MAX_RECORD_BODY_BYTES_def MAX_CONTEXT_RECORDS_def)

definition sample_staged :: "staged_record list" where
  "sample_staged =
     [(0, (sample_record ''a'' [])\<lparr> cr_body := RB_Artifact (ArtifactRef ''artifact://1'') \<rparr>,
         Some (replicate 5000 CHR ''x'')),
      (1, sample_record ''b'' ''yy'', None)]"

lemma artifact_name_1: "artifact_name 1 = ''artifact://1''"
proof -
  have "digit_char 1 = CHR ''1''" by code_simp
  then show ?thesis by (simp add: artifact_name_def show_nat.simps)
qed

lemma sample_bodies_differ: "replicate 5000 CHR ''x'' \<noteq> ''yy''"
proof
  assume "replicate 5000 CHR ''x'' = ''yy''"
  then have "length (replicate 5000 CHR ''x'') = length ''yy''" by (rule arg_cong)
  then show False by (simp only: length_replicate list.size)
qed

lemma sample_dedup:
  "dedup_loop (superseded_ids sample_records) 0 sample_records [] []
     = ([(0, sample_record ''a'' (replicate 5000 CHR ''x'')), (1, sample_record ''b'' ''yy'')], [])"
  using sample_bodies_differ
  by (simp add: sample_records_def superseded_ids_def List.map_filter_def sample_record_def
      same_content_def)

lemma sample_stage:
  "stage_loop 0 0 [(0, sample_record ''a'' (replicate 5000 CHR ''x'')), (1, sample_record ''b'' ''yy'')] []
     = Ok sample_staged"
  by (simp add: sample_staged_def sample_record_def EXTERNALIZE_THRESHOLD_BYTES_def MAX_ARTIFACT_BYTES_def
      artifact_name_1)

lemma sample_order: "selection_order sample_staged = [0, 1]"
  by (simp add: selection_order_def sample_staged_def staged_rec_def sample_record_def
      effective_priority_def upt_rec)

lemma sample_needs: "need sample_staged 0 = 12" "need sample_staged 1 = 2"
  by (simp_all add: sample_staged_def staged_rec_def sample_record_def footprint_bytes_def)

lemma sample_select:
  "select_loop sample_staged 13 (selection_order sample_staged) (selection_start (length sample_staged)) =
     \<lparr> sel_included = [True, False], sel_used = 12, sel_omitted_ids = [''b''],
       sel_truncated_bytes = 2, sel_truncated_providers = [''git''] \<rparr>"
  using sample_needs
  by (simp add: sample_order selection_start_def Let_def)
     (simp add: sample_staged_def staged_rec_def sample_record_def numeral_2_eq_2)

lemma sample_assembly:
  "\<exists>ctx st. assemble sample_records (sample_request 13) artifact_store_new = (Ok ctx, st)
     \<and> ac_context_refs ctx = [''a''] \<and> ac_omitted_ids ctx = [''b''] \<and> ac_pruned_ids ctx = []"
proof -
  define new where "new = artifact_store_new"
  have start: "as_next_id new = 0" "as_entries new = []" "as_total_bytes new = 0"
    by (simp_all add: new_def artifact_store_new_def)
  have budget: "effective_budget_bytes (sample_request 13) = 13" "req_current_generation (sample_request 13) = 7"
    by (simp_all add: effective_budget_bytes_def sample_request_def)
  obtain st where commit: "commit_loop 7 (zip [True, False] sample_staged) [] 0 new
      = (Ok ([(0, (sample_record ''a'' [])\<lparr> cr_body := RB_Artifact (ArtifactRef ''artifact://1'') \<rparr>, None),
              (1, sample_record ''b'' ''yy'', None)], 1), st)"
    using start artifact_name_1
    by (simp add: sample_staged_def artifact_put_def MAX_ARTIFACT_BYTES_def MAX_ARTIFACTS_def
        MAX_ARTIFACT_STORE_BYTES_def Let_def)
  have pend: "included_pending [True, False] sample_staged = [replicate 5000 CHR ''x'']"
    by (simp add: included_pending_def sample_staged_def List.map_filter_simps)
  have "\<exists>ctx. select_and_commit (sample_request 13) [] sample_staged new = (Ok ctx, st)
      \<and> ac_context_refs ctx = [''a''] \<and> ac_omitted_ids ctx = [''b''] \<and> ac_pruned_ids ctx = []"
    using commit start pend
    by (simp add: select_and_commit_def budget sample_select Let_def MAX_ARTIFACTS_def
        MAX_ARTIFACT_STORE_BYTES_def selected_records_def sample_record_def)
  moreover have "assemble sample_records (sample_request 13) new
      = select_and_commit (sample_request 13) [] sample_staged new"
    using sample_checks sample_dedup sample_stage start by (simp add: assemble_def budget)
  ultimately show ?thesis unfolding new_def [symmetric] by auto
qed

lemma sample_room: "unat (as_next_id artifact_store_new) + MAX_CONTEXT_RECORDS < 2 ^ 64 - 1"
  by (simp add: artifact_store_new_def MAX_CONTEXT_RECORDS_def)

section \<open>Properties\<close>

text \<open>
  C14. A failed assembly leaves the artifact store exactly as it was: the commit is only reached
  when none of its stores can fail.
\<close>

theorem assemble_error_atomic:
  assumes "assemble rs req st = (Err e, st')"
  shows "st' = st"
  using assms by (cases rule: assemble_cases) (auto dest: select_and_commit_Err)

theorem assemble_error_atomic_witness:
  "\<exists>e st. assemble (replicate 129 (sample_record ''a'' [])) (sample_request 13) artifact_store_new = (Err e, st)
          \<and> st = artifact_store_new"
proof -
  obtain e st where r: "assemble (replicate 129 (sample_record ''a'' [])) (sample_request 13)
      artifact_store_new = (Err e, st)"
    by (simp add: assemble_def MAX_CONTEXT_RECORDS_def)
  from assemble_error_atomic [OF r] r show ?thesis by blast
qed

text \<open>
  C15. The assembled records fit the effective byte budget of the request, counting summaries and
  inline bodies or the text of the references that were really issued.
\<close>

theorem assemble_within_budget:
  assumes "assemble rs req st = (Ok ctx, st')" and "store_inv st"
    and "unat (as_next_id st) + MAX_CONTEXT_RECORDS < 2 ^ 64 - 1"
  shows "sum_list (map (\<lambda>a. length (ar_summary a) + content_byte_len (ar_content a)) (ac_records ctx))
           \<le> effective_budget_bytes req"
  using assms
proof (cases rule: assemble_view)
  case (view ds ss ss' sel)
  let ?kept = "filter (\<lambda>p. sel_included sel ! p) [0..<length ss]"
  have "sum_list (map (\<lambda>a. length (ar_summary a) + content_byte_len (ar_content a)) (ac_records ctx))
      = sum_list (map footprint_bytes (selected_records (sel_included sel) ss'))"
    by (simp add: view(8) comp_def assembled_footprint)
  also have "\<dots> = sum_list (map footprint_bytes (map (\<lambda>p. staged_rec (ss' ! p)) ?kept))"
    using mset_selected [of "sel_included sel" ss'] view(5,6) by (intro sum_perm) simp
  also have "\<dots> \<le> sum_list (map (need ss) ?kept)"
    unfolding map_map by (rule sum_list_mono) (use view(7) in \<open>simp add: committed_as_def\<close>)
  also have "\<dots> = sum_list (map (need ss) (filter (\<lambda>p. sel_included sel ! p) (selection_order ss)))"
    by (rule sum_filter_perm) (simp add: selection_order_perm)
  also have "\<dots> \<le> effective_budget_bytes req"
    using select_loop_spec [of "selection_order ss" "selection_start (length ss)" ss
        "effective_budget_bytes req"] view(4) by (simp add: selection_start_def)
  finally show ?thesis .
qed

theorem assemble_within_budget_witness:
  "\<exists>ctx st. assemble sample_records (sample_request 13) artifact_store_new = (Ok ctx, st)
     \<and> sum_list (map (\<lambda>a. length (ar_summary a) + content_byte_len (ar_content a)) (ac_records ctx)) \<le> 13"
proof -
  obtain ctx st where r: "assemble sample_records (sample_request 13) artifact_store_new = (Ok ctx, st)"
    using sample_assembly by blast
  from assemble_within_budget [OF r store_inv_new sample_room] r show ?thesis
    by (auto simp: effective_budget_bytes_def sample_request_def)
qed

text \<open>
  C16. Every input record is reported exactly once: as assembled, as omitted for the budget, or as
  pruned. The assembled records appear in the caller's order.
\<close>

theorem assemble_accounts_for_records:
  assumes "assemble rs req st = (Ok ctx, st')" and "store_inv st"
    and "unat (as_next_id st) + MAX_CONTEXT_RECORDS < 2 ^ 64 - 1"
  shows "mset (ac_context_refs ctx) + mset (ac_omitted_ids ctx) + mset (ac_pruned_ids ctx)
           = mset (map cr_id rs)
         \<and> map ar_id (ac_records ctx) = ac_context_refs ctx
         \<and> subseq (ac_context_refs ctx) (map cr_id rs)"
  using assms
proof (cases rule: assemble_view)
  case (view ds ss ss' sel)
  have "mset (ac_context_refs ctx) + mset (ac_omitted_ids ctx) = mset (map (cr_id \<circ> snd) ds)"
    unfolding view(9,10) using view(2,5,6,4,7) by (rule survivors_reported)
  moreover have "subseq (ac_context_refs ctx) (map cr_id rs)"
    unfolding view(9) using dedup_sources [OF view(1)] view(2,5-7)
    by (intro selected_in_order [where ss = ss]) auto
  ultimately show ?thesis
    using dedup_accounts [OF view(1)] by (simp add: view(8,9) assembled_of_def)
qed

theorem assemble_accounts_for_records_witness:
  "\<exists>ctx st. assemble sample_records (sample_request 13) artifact_store_new = (Ok ctx, st)
     \<and> mset (ac_context_refs ctx) + mset (ac_omitted_ids ctx) + mset (ac_pruned_ids ctx) = {# ''a'', ''b'' #}
     \<and> subseq (ac_context_refs ctx) [''a'', ''b'']"
proof -
  obtain ctx st where r: "assemble sample_records (sample_request 13) artifact_store_new = (Ok ctx, st)"
    using sample_assembly by blast
  from assemble_accounts_for_records [OF r store_inv_new sample_room] r show ?thesis
    by (auto simp: sample_records_def sample_record_def add_mset_commute)
qed

text \<open>
  C17. Assembly is faithful: every assembled record carries the id, provider, summary and trust of an
  input record; its content is that record's body, or, for an inline body over the threshold, a
  reference that the resulting store resolves to exactly those bytes at the request's generation.
  Whatever resolved before still resolves to the same bytes.
\<close>

theorem assemble_content_faithful:
  assumes "assemble rs req st = (Ok ctx, st')" and "store_inv st"
    and "unat (as_next_id st) + MAX_CONTEXT_RECORDS < 2 ^ 64 - 1"
  shows "store_inv st'
    \<and> (\<forall>r g bs. artifact_resolve st r g = Ok bs \<longrightarrow> artifact_resolve st' r g = Ok bs)
    \<and> (\<forall>a \<in> set (ac_records ctx). \<exists>r \<in> set rs.
          ar_id a = cr_id r \<and> ar_provider a = cr_provider r \<and> ar_summary a = cr_summary r
          \<and> ar_is_untrusted_surface a = cr_is_untrusted_surface r
          \<and> (case cr_body r of
               RB_Artifact reference \<Rightarrow> ar_content a = AC_Reference reference
             | RB_Inline bs \<Rightarrow>
                 if length bs > EXTERNALIZE_THRESHOLD_BYTES
                 then \<exists>reference. ar_content a = AC_Reference reference
                        \<and> artifact_resolve st' reference (req_current_generation req) = Ok bs
                 else ar_content a = AC_Inline bs))"
  using assms
proof (cases rule: assemble_view)
  case (view ds ss ss' sel)
  have "\<exists>r \<in> set rs. ar_id a = cr_id r \<and> ar_provider a = cr_provider r \<and> ar_summary a = cr_summary r
          \<and> ar_is_untrusted_surface a = cr_is_untrusted_surface r
          \<and> (case cr_body r of
               RB_Artifact reference \<Rightarrow> ar_content a = AC_Reference reference
             | RB_Inline bs \<Rightarrow>
                 if length bs > EXTERNALIZE_THRESHOLD_BYTES
                 then \<exists>reference. ar_content a = AC_Reference reference
                        \<and> artifact_resolve st' reference (req_current_generation req) = Ok bs
                 else ar_content a = AC_Inline bs)"
    if "a \<in> set (ac_records ctx)" for a
  proof -
    from that obtain x where x: "x \<in> set (selected_records (sel_included sel) ss')" "a = assembled_of x"
      unfolding view(8) by auto
    have "length (sel_included sel) = length ss'" using view(5,6) by simp
    from this x(1) obtain p where p: "p < length ss'" "sel_included sel ! p" "x = staged_rec (ss' ! p)"
      by (rule selected_positions)
    then have pl: "p < length ss" using view(6) by simp
    obtain i r pend where s: "ss ! p = (i, r, pend)" by (cases "ss ! p")
    have "unstage (ss ! p) \<in> set ds" using pl view(2) by auto
    then have mem: "snd (unstage (ss ! p)) \<in> set rs" using dedup_sources [OF view(1)] by (metis nth_mem)
    have com: "committed_as (req_current_generation req) st' (i, r, pend) (ss' ! p)"
      using view(7) [OF pl p(2)] s by simp
    have big: "case pend of None \<Rightarrow> \<not> oversized (cr_body r) | Some bs \<Rightarrow> oversized (RB_Inline bs)"
      using staged_ok_elem [OF view(3) nth_mem [OF pl]] s by (auto simp: staged_rec_def split: option.splits)
    show ?thesis
    proof (cases pend)
      case None
      with com have "staged_rec (ss' ! p) = r" by (simp add: committed_as_def staged_rec_def)
      then show ?thesis
        using mem None big s p(3) x(2)
        by (intro bexI [of _ r]) (auto simp: assembled_of_def split: record_body.splits)
    next
      case (Some bs)
      with com obtain reference where "staged_rec (ss' ! p) = r\<lparr> cr_body := RB_Artifact reference \<rparr>"
        "artifact_resolve st' reference (req_current_generation req) = Ok bs"
        by (auto simp: committed_as_def staged_rec_def)
      then show ?thesis
        using mem Some big s p(3) x(2)
        by (intro bexI [of _ "r\<lparr> cr_body := RB_Inline bs \<rparr>"]) (auto simp: assembled_of_def)
    qed
  qed
  then show ?thesis using view(11,12) by (auto simp: extends_def)
qed

theorem assemble_content_faithful_witness:
  "\<exists>ctx st. assemble sample_records (sample_request 13) artifact_store_new = (Ok ctx, st)
     \<and> store_inv st \<and> (\<forall>a \<in> set (ac_records ctx). \<exists>r \<in> set sample_records. ar_id a = cr_id r)"
proof -
  obtain ctx st where r: "assemble sample_records (sample_request 13) artifact_store_new = (Ok ctx, st)"
    using sample_assembly by blast
  from assemble_content_faithful [OF r store_inv_new sample_room] r show ?thesis by metis
qed

text \<open>
  Pruning loses nothing and cannot be driven by untrusted records: a record that no trusted
  record supersedes has a record with the same provider, owner, summary and body that is assembled
  or omitted for the budget, and a trusted record has a trusted one.
\<close>

theorem pruning_is_lossless:
  assumes "assemble rs req st = (Ok ctx, st')" and "store_inv st"
    and "unat (as_next_id st) + MAX_CONTEXT_RECORDS < 2 ^ 64 - 1"
    and "r \<in> set rs" and "\<not> (\<exists>t \<in> set rs. \<not> cr_is_untrusted_surface t \<and> cr_supersedes t = Some (cr_id r))"
  shows "\<exists>k \<in> set rs. same_content r k
           \<and> (\<not> cr_is_untrusted_surface r \<longrightarrow> \<not> cr_is_untrusted_surface k)
           \<and> cr_id k \<in> set (ac_context_refs ctx) \<union> set (ac_omitted_ids ctx)"
  using assms(1-3)
proof (cases rule: assemble_view)
  case (view ds ss ss' sel)
  have "represented r (map snd ds)"
    using dedup_lossless [OF view(1) assms(4)] assms(5) by (simp add: superseded_ids_iff)
  then obtain k where k: "k \<in> set (map snd ds)" "same_content r k"
    "\<not> cr_is_untrusted_surface r \<longrightarrow> \<not> cr_is_untrusted_surface k" by (auto simp: represented_def)
  have "mset (ac_context_refs ctx) + mset (ac_omitted_ids ctx) = mset (map (cr_id \<circ> snd) ds)"
    unfolding view(9,10) using view(2,5,6,4,7) by (rule survivors_reported)
  then have "set (ac_context_refs ctx) \<union> set (ac_omitted_ids ctx) = set (map (cr_id \<circ> snd) ds)"
    by (metis set_mset_mset set_mset_union)
  then have "cr_id k \<in> set (ac_context_refs ctx) \<union> set (ac_omitted_ids ctx)" using k(1) by auto
  moreover have "k \<in> set rs" using k(1) dedup_sources [OF view(1)] by (auto, metis nth_mem snd_conv fst_conv)
  ultimately show ?thesis using k by blast
qed

theorem pruning_is_lossless_witness:
  "\<exists>ctx st. assemble sample_records (sample_request 13) artifact_store_new = (Ok ctx, st)
     \<and> (\<exists>k \<in> set sample_records. same_content (sample_record ''b'' ''yy'') k
          \<and> cr_id k \<in> set (ac_context_refs ctx) \<union> set (ac_omitted_ids ctx))"
proof -
  obtain ctx st where r: "assemble sample_records (sample_request 13) artifact_store_new = (Ok ctx, st)"
    using sample_assembly by blast
  have "sample_record ''b'' ''yy'' \<in> set sample_records"
    and "\<not> (\<exists>t \<in> set sample_records. \<not> cr_is_untrusted_surface t
            \<and> cr_supersedes t = Some (cr_id (sample_record ''b'' ''yy'')))"
    by (simp_all add: sample_records_def sample_record_def)
  from pruning_is_lossless [OF r store_inv_new sample_room this] r show ?thesis by blast
qed

text \<open>
  C18. A record is omitted only under budget pressure from records of at least its own effective
  priority: it and some assembled records of that priority or higher exceed the budget. So a
  trusted record above normal priority is never crowded out by untrusted ones.
\<close>

theorem omitted_only_for_priority:
  assumes "assemble rs req st = (Ok ctx, st')" and "store_inv st"
    and "unat (as_next_id st) + MAX_CONTEXT_RECORDS < 2 ^ 64 - 1"
    and "i \<in> set (ac_omitted_ids ctx)"
  shows "\<exists>r \<in> set rs. cr_id r = i \<and>
           (\<exists>ks. set ks \<subseteq> set rs \<and> distinct (map cr_id ks)
              \<and> (\<forall>k \<in> set ks. cr_id k \<in> set (ac_context_refs ctx)
                     \<and> effective_priority r \<le> effective_priority k
                     \<and> (\<not> cr_is_untrusted_surface r \<and> CP_Normal < cr_priority r
                         \<longrightarrow> \<not> cr_is_untrusted_surface k))
              \<and> effective_budget_bytes req < sum_list (map max_footprint ks) + max_footprint r)"
  using assms(1-3)
proof (cases rule: assemble_view)
  case (view ds ss ss' sel)
  note spec = select_loop_spec [of "selection_order ss" "selection_start (length ss)" ss
        "effective_budget_bytes req", folded view(4)]
  obtain p where p: "p < length ss" "\<not> sel_included sel ! p" "i = cr_id (staged_rec (ss ! p))"
    using assms(4) spec unfolding view(10) by (auto simp: selection_start_def)
  define before where "before = filter (\<lambda>q. sel_included sel ! q) (takeWhile (\<lambda>q. q \<noteq> p) (selection_order ss))"
  define orig where "orig = (\<lambda>q. snd (unstage (ss ! q)))"
  have qs: "q < length ss" "sel_included sel ! q"
    "effective_priority (staged_rec (ss ! p)) \<le> effective_priority (staged_rec (ss ! q))"
    if "q \<in> set before" for q
    using that p(1) set_takeWhileD sorted_wrt_before [OF selection_order_sorted [of ss], of p q]
    by (fastforce simp: before_def)+
  have orig: "orig q \<in> set rs \<and> cr_id (orig q) = cr_id (staged_rec (ss ! q))
      \<and> effective_priority (orig q) = effective_priority (staged_rec (ss ! q))
      \<and> need ss q \<le> max_footprint (orig q)" if "q < length ss" for q
  proof -
    have "unstage (ss ! q) \<in> set ds" using that view(2) by auto
    then have "orig q \<in> set rs" using dedup_sources [OF view(1)] by (metis nth_mem orig_def)
    with that show ?thesis
      using need_le_max [OF view(3), of "ss ! q"] by (simp add: orig_def unstage_frame)
  qed
  have refs: "cr_id (orig q) \<in> set (ac_context_refs ctx)" if "q \<in> set before" for q
    using selected_positionI [of "sel_included sel" ss' q] qs [OF that] view(5,6) orig [of q]
      committed_id [OF view(7) [of q]] by (auto simp: view(9)) (metis image_eqI)
  have "effective_budget_bytes req < sum_list (map (need ss) before) + need ss p"
    using spec p(1,2) by (simp add: selection_start_def before_def)
  also have "\<dots> \<le> sum_list (map (max_footprint \<circ> orig) before) + max_footprint (orig p)"
    using orig qs(1) p(1) by (intro add_mono sum_list_mono) auto
  finally have pressure: "effective_budget_bytes req
      < sum_list (map max_footprint (map orig before)) + max_footprint (orig p)" by simp
  have "distinct (map (cr_id \<circ> snd) ds)"
    using dedup_accounts [OF view(1)] view(13)
    by (metis distinct_append mset_append mset_eq_imp_distinct_iff)
  then have "inj_on (\<lambda>q. cr_id (orig q)) {..<length ss}"
    using view(2) unfolding inj_on_def orig_def distinct_conv_nth by (auto, metis)
  moreover have "set before \<subseteq> {..<length ss}" using qs(1) by auto
  ultimately have "inj_on (\<lambda>q. cr_id (orig q)) (set before)" by (rule inj_on_subset)
  moreover have "distinct before" by (simp add: before_def)
  ultimately have dist: "distinct (map cr_id (map orig before))"
    by (simp add: distinct_map [of _ before] comp_def)
  have "effective_priority (orig p) \<le> effective_priority (orig q)" if "q \<in> set before" for q
    using orig [of p] orig [of q] qs [OF that] p(1) by simp
  moreover have "\<not> cr_is_untrusted_surface k"
    if "effective_priority (orig p) \<le> effective_priority k"
      "\<not> cr_is_untrusted_surface (orig p)" "CP_Normal < cr_priority (orig p)" for k
    using that by (auto simp: effective_priority_def)
  ultimately show ?thesis
    using orig [OF p(1)] p(3) orig qs(1) refs dist pressure
    by (intro bexI [of _ "orig p"] conjI exI [of _ "map orig before"]) auto
qed

theorem omitted_only_for_priority_witness:
  "\<exists>ctx st. assemble sample_records (sample_request 13) artifact_store_new = (Ok ctx, st)
     \<and> ''b'' \<in> set (ac_omitted_ids ctx)
     \<and> (\<exists>ks. set ks \<subseteq> set sample_records \<and> (\<forall>k \<in> set ks. cr_id k \<in> set (ac_context_refs ctx)))"
proof -
  obtain ctx st where r: "assemble sample_records (sample_request 13) artifact_store_new = (Ok ctx, st)"
    and b: "''b'' \<in> set (ac_omitted_ids ctx)"
    using sample_assembly by auto
  from omitted_only_for_priority [OF r store_inv_new sample_room b] r b show ?thesis by metis
qed


text \<open>
  Ties of the selection follow the slot of the deduplicated list, not the caller order: an
  untrusted copy of a trusted record placed first moves that record ahead of an earlier trusted one
  of the same priority, which then no longer fits.
\<close>

theorem ties_follow_slot_not_caller_order:
  "(\<exists>ctx. assemble [sample_record ''t1'' ''zz'', sample_record ''t2'' ''yy''] (sample_request 3)
              artifact_store_new = (Ok ctx, artifact_store_new)
          \<and> ac_context_refs ctx = [''t1''] \<and> ac_omitted_ids ctx = [''t2''])
   \<and> (\<exists>ctx. assemble [(sample_record ''u'' ''yy'')\<lparr> cr_is_untrusted_surface := True \<rparr>,
                     sample_record ''t1'' ''zz'', sample_record ''t2'' ''yy''] (sample_request 3)
              artifact_store_new = (Ok ctx, artifact_store_new)
          \<and> ac_context_refs ctx = [''t2''] \<and> ac_omitted_ids ctx = [''t1''])"
proof -
  have req: "effective_budget_bytes (sample_request 3) = Suc (Suc (Suc 0))"
    "req_current_generation (sample_request 3) = 7"
    by (simp_all add: effective_budget_bytes_def sample_request_def)
  show ?thesis
    by (intro conjI; simp add: req assemble_def select_and_commit_def sample_record_def
      record_validate_def KNOWN_PROVIDERS_def check_generation_def MAX_SUMMARY_BYTES_def
      MAX_RECORD_BODY_BYTES_def MAX_CONTEXT_RECORDS_def superseded_ids_def List.map_filter_simps
      same_content_def keep_new_def EXTERNALIZE_THRESHOLD_BYTES_def
      selection_order_def staged_rec_def effective_priority_def upt_rec footprint_bytes_def
      selection_start_def numeral_2_eq_2 included_pending_def MAX_ARTIFACTS_def MAX_ARTIFACT_STORE_BYTES_def
      artifact_store_new_def selected_records_def Let_def)
qed

end
