(* ===== verification/Tool_Bus.thy ===== *)
theory Tool_Bus
  imports Bridge Artifacts
begin

text \<open>
  The tool bus (\<open>bitty-ai-runtime/src/tool.rs\<close>, second half): authorization, the consent gate,
  batch admission, dispatch through an executor, and the bounded usage ring. Everything outside the
  crate (the authorizer and ledger tables, the executor) lives in a world of type \<open>'w\<close>: the hooks read
  it, the executor changes it.
\<close>

definition MAX_TOOL_CALLS_PER_TURN :: nat where
  "MAX_TOOL_CALLS_PER_TURN = 8"

definition MAX_TOOL_ARGUMENTS_BYTES :: nat where
  "MAX_TOOL_ARGUMENTS_BYTES = 16 * 1024"

definition MAX_TOOL_RESULT_BYTES :: nat where
  "MAX_TOOL_RESULT_BYTES = 16 * 1024"

definition MAX_USAGE_EVENTS :: nat where
  "MAX_USAGE_EVENTS = 32"

section \<open>Authorization vocabulary\<close>

record auth_base =
  ab_agent_instance_id :: agent_instance_id
  ab_session_id :: session_id
  ab_level :: agent_level

record auth_context =
  ax_base :: auth_base
  ax_tool :: string
  ax_required_scope :: string
  ax_read_only :: bool

datatype auth_decision = AD_Allow | AD_Deny string

definition deny_all_authorize :: "auth_context \<Rightarrow> auth_decision" where
  "deny_all_authorize ctx = AD_Deny (''default-deny: no grant for '' @ ax_tool ctx)"

record tool_call =
  tc_name :: string
  tc_arguments :: bytes

section \<open>Outcomes\<close>

datatype tool_status =
    TS_Success
  | TS_Failed string
  | TS_Denied string
  | TS_Refused tool_error
  | TS_Unknown string

fun is_admission_refusal :: "tool_status \<Rightarrow> bool" where
  "is_admission_refusal (TS_Refused _) = True"
| "is_admission_refusal _ = False"

fun is_ack_loss :: "tool_status \<Rightarrow> bool" where
  "is_ack_loss (TS_Unknown _) = True"
| "is_ack_loss _ = False"

fun tool_status_normalized :: "tool_status \<Rightarrow> tool_status" where
  "tool_status_normalized (TS_Failed reason) = TS_Failed (bound_reason reason)"
| "tool_status_normalized (TS_Denied reason) = TS_Denied (bound_reason reason)"
| "tool_status_normalized (TS_Unknown reason) = TS_Unknown (bound_reason reason)"
| "tool_status_normalized (TS_Refused cause) = TS_Refused (tool_error_normalized cause)"
| "tool_status_normalized TS_Success = TS_Success"

datatype result_disposition = RD_Accepted | RD_Rejected tool_error

fun is_rejection :: "result_disposition \<Rightarrow> bool" where
  "is_rejection (RD_Rejected _) = True"
| "is_rejection RD_Accepted = False"

record tool_execution =
  te_execution_id :: execution_id
  te_tool :: string
  te_status :: tool_status
  te_result_disposition :: result_disposition
  te_summary :: string
  te_data :: bytes
  te_is_untrusted_surface :: bool

record tool_success =
  su_summary :: string
  su_data :: bytes

definition tool_success_new :: "string \<Rightarrow> bytes \<Rightarrow> (tool_success, tool_error) result" where
  "tool_success_new summary data =
     (if length summary > MAX_SUMMARY_BYTES
      then Err (TE_SummaryTooLarge MAX_SUMMARY_BYTES (length summary))
      else if length data > MAX_TOOL_RESULT_BYTES
      then Err (TE_ResultTooLarge MAX_TOOL_RESULT_BYTES (length data))
      else Ok \<lparr> su_summary = summary, su_data = data \<rparr>)"

record execution_context =
  ec_execution_id :: execution_id
  ec_now_ms :: u64

text \<open>
  A \<open>ToolExecutor\<close> as the bus calls it: \<open>execute_with_context\<close> with the executor's own state, and
  everything it reaches, in the world.
\<close>

type_synonym 'w tool_executor =
  "string \<Rightarrow> bytes \<Rightarrow> execution_context \<Rightarrow> 'w \<Rightarrow> (tool_success, tool_error) result \<times> 'w"

record recording_executor =
  rx_script :: "(tool_success, tool_error) result list"
  rx_calls :: "(execution_id \<times> string \<times> bytes) list"

definition recording_new :: recording_executor where
  "recording_new = \<lparr> rx_script = [], rx_calls = [] \<rparr>"

definition recording_push_success :: "string \<Rightarrow> bytes \<Rightarrow> recording_executor \<Rightarrow> recording_executor" where
  "recording_push_success summary data x =
     x\<lparr> rx_script := rx_script x @ [Ok \<lparr> su_summary = summary, su_data = data \<rparr>] \<rparr>"

definition recording_push_error :: "tool_error \<Rightarrow> recording_executor \<Rightarrow> recording_executor" where
  "recording_push_error e x = x\<lparr> rx_script := rx_script x @ [Err e] \<rparr>"

definition recording_execute :: "recording_executor tool_executor" where
  "recording_execute tool arguments ctx x =
     (let x' = x\<lparr> rx_calls := rx_calls x @ [(ec_execution_id ctx, tool, arguments)] \<rparr>
      in case rx_script x of
           [] \<Rightarrow> (Ok \<lparr> su_summary = [], su_data = [] \<rparr>, x')
         | r # rest \<Rightarrow> (r, x'\<lparr> rx_script := rest \<rparr>))"

text \<open>The scripted executor with a cancel hook acts on the session handle it holds.\<close>

record fake_executor =
  fx_script :: "(tool_success, tool_error) result list"
  fx_calls :: "(string \<times> bytes) list"
  fx_cancel_hook :: "nat option"

definition fake_execute ::
  "string \<Rightarrow> bytes \<Rightarrow> u64 \<Rightarrow> fake_executor \<times> session
     \<Rightarrow> (tool_success, tool_error) result \<times> fake_executor \<times> session" where
  "fake_execute tool arguments now_ms = (\<lambda>(x, ses).
     let x' = x\<lparr> fx_calls := fx_calls x @ [(tool, arguments)] \<rparr>;
         ses' = (case fx_cancel_hook x of
                   Some index \<Rightarrow> if length (fx_calls x') = index then session_cancel ses else ses
                 | None \<Rightarrow> ses)
     in case fx_script x of
          [] \<Rightarrow> (Ok \<lparr> su_summary = [], su_data = [] \<rparr>, x', ses')
        | r # rest \<Rightarrow> (r, x'\<lparr> fx_script := rest \<rparr>, ses'))"

section \<open>Usage events\<close>

record usage_site =
  us_placement :: "tool_placement option"
  us_server_id :: "string option"
  us_task_id :: "string option"

record usage_event =
  ue_execution_id :: execution_id
  ue_tool :: string
  ue_scope :: string
  ue_protocol_id :: string
  ue_caller :: auth_base
  ue_occurred_at_ms :: u64
  ue_site :: usage_site
  ue_status :: tool_status
  ue_result_disposition :: result_disposition
  ue_reason :: string
  ue_args_digest :: u64

definition args_digest :: "bytes \<Rightarrow> u64" where
  "args_digest args = fnv1a64 args"

record usage_filter =
  uf_tool :: "string option"
  uf_scope :: "string option"
  uf_protocol_id :: "string option"
  uf_agent_instance_id :: "agent_instance_id option"
  uf_session_id :: "session_id option"
  uf_placement :: "tool_placement option"

definition filter_match_all :: usage_filter where
  "filter_match_all = \<lparr> uf_tool = None, uf_scope = None, uf_protocol_id = None,
     uf_agent_instance_id = None, uf_session_id = None, uf_placement = None \<rparr>"

definition filter_matches :: "usage_filter \<Rightarrow> usage_event \<Rightarrow> bool" where
  "filter_matches f event \<longleftrightarrow>
     (case uf_tool f of Some tool \<Rightarrow> ue_tool event = tool | None \<Rightarrow> True)
     \<and> (case uf_scope f of Some scope \<Rightarrow> ue_scope event = scope | None \<Rightarrow> True)
     \<and> (case uf_protocol_id f of Some p \<Rightarrow> ue_protocol_id event = p | None \<Rightarrow> True)
     \<and> (case uf_agent_instance_id f of
          Some i \<Rightarrow> ab_agent_instance_id (ue_caller event) = i | None \<Rightarrow> True)
     \<and> (case uf_session_id f of Some i \<Rightarrow> ab_session_id (ue_caller event) = i | None \<Rightarrow> True)
     \<and> (case uf_placement f of Some p \<Rightarrow> us_placement (ue_site event) = Some p | None \<Rightarrow> True)"

section \<open>The bus\<close>

record 'w tool_bus =
  tb_registry :: tool_registry
  tb_authorizer :: "('w \<Rightarrow> auth_context \<Rightarrow> auth_decision) option"
  tb_consent :: "('w \<Rightarrow> consent_query \<Rightarrow> consent_decision) option"
  tb_protocol_id :: "string option"
  tb_calls_this_turn :: nat
  tb_usage :: "usage_event list"

definition tool_bus_new :: "tool_registry \<Rightarrow> 'w tool_bus" where
  "tool_bus_new registry =
     \<lparr> tb_registry = registry, tb_authorizer = None, tb_consent = None, tb_protocol_id = None,
       tb_calls_this_turn = 0, tb_usage = [] \<rparr>"

definition with_authorizer ::
  "('w \<Rightarrow> auth_context \<Rightarrow> auth_decision) \<Rightarrow> 'w tool_bus \<Rightarrow> 'w tool_bus" where
  "with_authorizer authorizer bus = bus\<lparr> tb_authorizer := Some authorizer \<rparr>"

definition with_consent ::
  "('w \<Rightarrow> consent_query \<Rightarrow> consent_decision) \<Rightarrow> string \<Rightarrow> 'w tool_bus \<Rightarrow> 'w tool_bus" where
  "with_consent ledger protocol_id bus =
     bus\<lparr> tb_consent := Some ledger, tb_protocol_id := Some protocol_id \<rparr>"

definition begin_turn :: "'w tool_bus \<Rightarrow> 'w tool_bus" where
  "begin_turn bus = bus\<lparr> tb_calls_this_turn := 0 \<rparr>"

text \<open>A site label: bounded, and dropped when empty.\<close>

definition bound_label :: "string option \<Rightarrow> string option" where
  "bound_label l =
     (case l of
        None \<Rightarrow> None
      | Some s \<Rightarrow> if bound_reason s = [] then None else Some (bound_reason s))"

definition usage_normalized :: "usage_event \<Rightarrow> usage_event" where
  "usage_normalized event =
     event\<lparr> ue_tool := bound_reason (ue_tool event),
            ue_scope := bound_reason (ue_scope event),
            ue_protocol_id := bound_reason (ue_protocol_id event),
            ue_status := tool_status_normalized (ue_status event),
            ue_reason := bound_reason (ue_reason event),
            ue_site := (ue_site event)\<lparr> us_server_id := bound_label (us_server_id (ue_site event)),
                                       us_task_id := bound_label (us_task_id (ue_site event)) \<rparr> \<rparr>"

definition push_usage :: "usage_event \<Rightarrow> 'w tool_bus \<Rightarrow> 'w tool_bus" where
  "push_usage event bus =
     bus\<lparr> tb_usage :=
            (if length (tb_usage bus) \<ge> MAX_USAGE_EVENTS then tl (tb_usage bus) else tb_usage bus)
            @ [usage_normalized event] \<rparr>"

definition list_usage :: "usage_filter \<Rightarrow> nat \<Rightarrow> 'w tool_bus \<Rightarrow> usage_event list" where
  "list_usage f limit bus = take limit (filter (filter_matches f) (tb_usage bus))"

fun status_reason :: "tool_status \<Rightarrow> string" where
  "status_reason TS_Success = []"
| "status_reason (TS_Failed reason) = bound_reason reason"
| "status_reason (TS_Denied reason) = bound_reason reason"
| "status_reason (TS_Unknown reason) = bound_reason reason"
| "status_reason (TS_Refused cause) = bound_reason (tool_error_display cause)"

definition observe_dispatch ::
  "execution_id \<Rightarrow> tool_call \<Rightarrow> auth_base \<Rightarrow> u64 \<Rightarrow> tool_status \<Rightarrow> result_disposition
     \<Rightarrow> 'w tool_bus \<Rightarrow> 'w tool_bus" where
  "observe_dispatch eid call base now_ms status disposition bus =
     (let (scope, placement) =
            (case tool_lookup (tb_registry bus) (tc_name call) of
               Some spec \<Rightarrow> (spec_required_scope spec, spec_placement spec)
             | None \<Rightarrow> ([], None))
      in push_usage
           \<lparr> ue_execution_id = eid, ue_tool = tc_name call, ue_scope = scope,
             ue_protocol_id = (case tb_protocol_id bus of Some p \<Rightarrow> p | None \<Rightarrow> []),
             ue_caller = base, ue_occurred_at_ms = now_ms,
             ue_site = \<lparr> us_placement = placement, us_server_id = None, us_task_id = None \<rparr>,
             ue_status = status, ue_result_disposition = disposition,
             ue_reason = status_reason status, ue_args_digest = args_digest (tc_arguments call) \<rparr>
           bus)"

definition authorize_call ::
  "'w tool_bus \<Rightarrow> 'w \<Rightarrow> auth_base \<Rightarrow> tool_call \<Rightarrow> (unit, tool_error) result" where
  "authorize_call bus w base call =
     and_then (validate_tool_name (tc_name call)) (\<lambda>_.
     case tool_lookup (tb_registry bus) (tc_name call) of
       None \<Rightarrow> Err (TE_UnknownTool (tc_name call))
     | Some spec \<Rightarrow>
       if length (tc_arguments call) > MAX_TOOL_ARGUMENTS_BYTES
       then Err (TE_ArgumentsTooLarge MAX_TOOL_ARGUMENTS_BYTES (length (tc_arguments call)))
       else if ab_level base = AL_Inspect \<and> \<not> spec_read_only spec
       then Err (TE_Denied (tc_name call) ''inspect tier is read-only; elevation required'')
       else case tb_authorizer bus of
         None \<Rightarrow> Err (TE_Denied (tc_name call) ''no authorizer installed (fail closed)'')
       | Some authorizer \<Rightarrow>
         (case authorizer w \<lparr> ax_base = base, ax_tool = tc_name call,
                             ax_required_scope = spec_required_scope spec,
                             ax_read_only = spec_read_only spec \<rparr> of
            AD_Allow \<Rightarrow> Ok ()
          | AD_Deny reason \<Rightarrow> Err (tool_error_normalized (TE_Denied (tc_name call) reason))))"

definition check_consent ::
  "'w tool_bus \<Rightarrow> 'w \<Rightarrow> tool_call \<Rightarrow> auth_base \<Rightarrow> u64 \<Rightarrow> (unit, tool_error) result" where
  "check_consent bus w call base now_ms =
     (case (tb_consent bus, tb_protocol_id bus) of
        (Some ledger, Some protocol_id) \<Rightarrow>
          (case tool_lookup (tb_registry bus) (tc_name call) of
             None \<Rightarrow> Err (TE_UnknownTool (tc_name call))
           | Some spec \<Rightarrow>
             ensure_consented_for_dispatch (ledger w)
               \<lparr> cq_protocol_id = protocol_id, cq_agent_instance = ab_agent_instance_id base,
                 cq_tool = tc_name call, cq_scope = spec_required_scope spec, cq_now_ms = now_ms \<rparr>)
      | _ \<Rightarrow> Err (tool_error_normalized
               (TE_Denied (tc_name call) ''no consent ledger installed (fail closed)'')))"

definition precheck ::
  "'w tool_bus \<Rightarrow> 'w \<Rightarrow> tool_call list \<Rightarrow> auth_base \<Rightarrow> nat \<Rightarrow> (unit, tool_error) result" where
  "precheck bus w calls base configured_limit =
     and_then (check_all (authorize_call bus w base) calls) (\<lambda>_.
     let effective_limit = min configured_limit MAX_TOOL_CALLS_PER_TURN
     in if saturating_add_usize (length calls) (tb_calls_this_turn bus) > effective_limit
        then Err (TE_CallLimitExceeded effective_limit) else Ok ())"

definition narrowing_omits :: "string list option \<Rightarrow> string \<Rightarrow> bool" where
  "narrowing_omits allowed tool =
     (case allowed of None \<Rightarrow> False | Some list \<Rightarrow> \<not> list_ex (\<lambda>entry. entry = tool) list)"

definition narrowing_denial :: "tool_call \<Rightarrow> tool_error" where
  "narrowing_denial call =
     tool_error_normalized (TE_Denied (tc_name call)
       (''tool '' @ [CHR 0x27] @ tc_name call @ [CHR 0x27] @ '' omitted by per-call narrowing''))"

definition precheck_narrowed ::
  "'w tool_bus \<Rightarrow> 'w \<Rightarrow> tool_call list \<Rightarrow> auth_base \<Rightarrow> nat \<Rightarrow> string list option
     \<Rightarrow> (unit, tool_error) result" where
  "precheck_narrowed bus w calls base configured_limit allowed =
     and_then
       (check_all (\<lambda>call. if narrowing_omits allowed (tc_name call) then Err (narrowing_denial call)
                          else Ok ()) calls)
       (\<lambda>_. precheck bus w calls base configured_limit)"

section \<open>Dispatch\<close>

definition refused :: "execution_id \<Rightarrow> tool_call \<Rightarrow> tool_error \<Rightarrow> tool_execution" where
  "refused eid call cause =
     \<lparr> te_execution_id = eid, te_tool = tc_name call, te_status = TS_Refused cause,
       te_result_disposition = RD_Accepted, te_summary = ''refused before dispatch'', te_data = [],
       te_is_untrusted_surface = False \<rparr>"

definition result_rejected :: "execution_id \<Rightarrow> tool_call \<Rightarrow> tool_error \<Rightarrow> tool_execution" where
  "result_rejected eid call cause =
     \<lparr> te_execution_id = eid, te_tool = tc_name call, te_status = TS_Success,
       te_result_disposition = RD_Rejected cause, te_summary = ''executed; result rejected by bus'',
       te_data = [], te_is_untrusted_surface = True \<rparr>"

definition ack_loss :: "execution_id \<Rightarrow> tool_call \<Rightarrow> string \<Rightarrow> tool_execution" where
  "ack_loss eid call reason =
     \<lparr> te_execution_id = eid, te_tool = tc_name call, te_status = TS_Unknown (bound_reason reason),
       te_result_disposition = RD_Accepted, te_summary = ''effect uncertain; reconcile before retry'',
       te_data = [], te_is_untrusted_surface = True \<rparr>"

text \<open>A terminal record for a host that answered with an error: status, summary, no data.\<close>

definition host_answered :: "execution_id \<Rightarrow> tool_call \<Rightarrow> tool_status \<Rightarrow> string \<Rightarrow> tool_execution" where
  "host_answered eid call status summary =
     \<lparr> te_execution_id = eid, te_tool = tc_name call, te_status = status,
       te_result_disposition = RD_Accepted, te_summary = summary, te_data = [],
       te_is_untrusted_surface = True \<rparr>"

text \<open>The terminal record of an executor outcome, or the error that is passed on.\<close>

fun outcome_execution ::
  "execution_id \<Rightarrow> tool_call \<Rightarrow> (tool_success, tool_error) result \<Rightarrow> (tool_execution, tool_error) result" where
  "outcome_execution eid call (Ok success) =
     (if length (su_summary success) > MAX_SUMMARY_BYTES
      then Ok (result_rejected eid call
                 (TE_SummaryTooLarge MAX_SUMMARY_BYTES (length (su_summary success))))
      else if length (su_data success) > MAX_TOOL_RESULT_BYTES
      then Ok (result_rejected eid call
                 (TE_ResultTooLarge MAX_TOOL_RESULT_BYTES (length (su_data success))))
      else Ok \<lparr> te_execution_id = eid, te_tool = tc_name call, te_status = TS_Success,
                te_result_disposition = RD_Accepted, te_summary = su_summary success,
                te_data = su_data success, te_is_untrusted_surface = True \<rparr>)"
| "outcome_execution eid call (Err (TE_EffectUnknown name reason)) = Ok (ack_loss eid call reason)"
| "outcome_execution eid call (Err (TE_Denied name reason)) =
     Ok (host_answered eid call (TS_Denied (bound_reason reason)) ''host denied execution'')"
| "outcome_execution eid call (Err (TE_Failed name reason)) =
     Ok (host_answered eid call (TS_Failed (bound_reason reason)) ''host reported failure'')"
| "outcome_execution eid call (Err (TE_ProtocolRejected name reason)) =
     Ok (host_answered eid call (TS_Failed (bound_reason reason)) ''protocol rejected before execution'')"
| "outcome_execution eid call (Err error) = Err error"

text \<open>Every terminal record is observed before it is returned.\<close>

definition observed ::
  "execution_id \<Rightarrow> tool_call \<Rightarrow> auth_base \<Rightarrow> u64 \<Rightarrow> tool_execution \<Rightarrow> 'w tool_bus \<Rightarrow> 'w tool_bus" where
  "observed eid call base now_ms x bus =
     observe_dispatch eid call base now_ms (te_status x) (te_result_disposition x) bus"

definition dispatch ::
  "'w tool_executor \<Rightarrow> tool_call \<Rightarrow> auth_base \<Rightarrow> execution_id \<Rightarrow> u64 \<Rightarrow> 'w tool_bus \<Rightarrow> 'w
     \<Rightarrow> (tool_execution, tool_error) result \<times> 'w tool_bus \<times> 'w" where
  "dispatch execute call base eid now_ms bus w =
     (case authorize_call bus w base call of
        Err error \<Rightarrow>
          (let x = refused eid call error in (Ok x, observed eid call base now_ms x bus, w))
      | Ok _ \<Rightarrow>
     (case check_consent bus w call base now_ms of
        Err denial \<Rightarrow>
          (let x = refused eid call denial in (Ok x, observed eid call base now_ms x bus, w))
      | Ok _ \<Rightarrow>
     if tb_calls_this_turn bus \<ge> MAX_TOOL_CALLS_PER_TURN
     then (let x = refused eid call (TE_CallLimitExceeded MAX_TOOL_CALLS_PER_TURN)
           in (Ok x, observed eid call base now_ms x bus, w))
     else (let (outcome, w') = execute (tc_name call) (tc_arguments call)
                                 \<lparr> ec_execution_id = eid, ec_now_ms = now_ms \<rparr> w;
               bus' = bus\<lparr> tb_calls_this_turn := tb_calls_this_turn bus + 1 \<rparr>
           in case outcome_execution eid call outcome of
                Ok x \<Rightarrow> (Ok x, observed eid call base now_ms x bus', w')
              | Err error \<Rightarrow> (Err error, bus', w'))))"

definition dispatch_narrowed ::
  "'w tool_executor \<Rightarrow> tool_call \<Rightarrow> auth_base \<Rightarrow> execution_id \<Rightarrow> u64 \<Rightarrow> string list option
     \<Rightarrow> 'w tool_bus \<Rightarrow> 'w \<Rightarrow> (tool_execution, tool_error) result \<times> 'w tool_bus \<times> 'w" where
  "dispatch_narrowed execute call base eid now_ms allowed bus w =
     (if narrowing_omits allowed (tc_name call)
      then (let x = refused eid call (narrowing_denial call)
            in (Ok x, observed eid call base now_ms x bus, w))
      else dispatch execute call base eid now_ms bus w)"


text \<open>A sequence of dispatches within one turn, each with its own call, caller, id and time.\<close>

fun dispatch_many ::
  "'w tool_executor \<Rightarrow> (tool_call \<times> auth_base \<times> execution_id \<times> u64) list \<Rightarrow> 'w tool_bus \<Rightarrow> 'w
     \<Rightarrow> (tool_execution, tool_error) result list \<times> 'w tool_bus \<times> 'w" where
  "dispatch_many execute [] bus w = ([], bus, w)"
| "dispatch_many execute ((call, base, eid, now_ms) # rest) bus w =
     (case dispatch execute call base eid now_ms bus w of (r, bus', w') \<Rightarrow>
      case dispatch_many execute rest bus' w' of (rs, bus'', w'') \<Rightarrow> (r # rs, bus'', w''))"

section \<open>What admits a call\<close>

definition authorized :: "'w tool_bus \<Rightarrow> 'w \<Rightarrow> auth_base \<Rightarrow> tool_call \<Rightarrow> bool" where
  "authorized bus w base call \<longleftrightarrow>
     valid_tool_name (tc_name call) \<and> length (tc_arguments call) \<le> MAX_TOOL_ARGUMENTS_BYTES \<and>
     (\<exists>spec authorizer.
        tool_lookup (tb_registry bus) (tc_name call) = Some spec
        \<and> (ab_level base = AL_Inspect \<longrightarrow> spec_read_only spec)
        \<and> tb_authorizer bus = Some authorizer
        \<and> authorizer w \<lparr> ax_base = base, ax_tool = tc_name call,
                         ax_required_scope = spec_required_scope spec,
                         ax_read_only = spec_read_only spec \<rparr> = AD_Allow)"

definition consented :: "'w tool_bus \<Rightarrow> 'w \<Rightarrow> auth_base \<Rightarrow> tool_call \<Rightarrow> u64 \<Rightarrow> bool" where
  "consented bus w base call now_ms \<longleftrightarrow>
     (\<exists>spec ledger protocol.
        tool_lookup (tb_registry bus) (tc_name call) = Some spec
        \<and> tb_consent bus = Some ledger \<and> tb_protocol_id bus = Some protocol
        \<and> ledger w \<lparr> cq_protocol_id = protocol, cq_agent_instance = ab_agent_instance_id base,
                     cq_tool = tc_name call, cq_scope = spec_required_scope spec,
                     cq_now_ms = now_ms \<rparr> = CD_Allow)"

definition admitted :: "'w tool_bus \<Rightarrow> 'w \<Rightarrow> auth_base \<Rightarrow> tool_call \<Rightarrow> u64 \<Rightarrow> bool" where
  "admitted bus w base call now_ms \<longleftrightarrow>
     authorized bus w base call \<and> consented bus w base call now_ms
     \<and> tb_calls_this_turn bus < MAX_TOOL_CALLS_PER_TURN"

lemma authorize_call_Ok_iff [result_simps]: "authorize_call bus w base call = Ok u \<longleftrightarrow> authorized bus w base call"
  by (auto simp: authorize_call_def authorized_def result_simps
      split: option.splits if_splits auth_decision.splits)

lemma ensure_dispatch_Ok [result_simps]:
  "ensure_consented_for_dispatch check q = Ok u \<longleftrightarrow> check q = CD_Allow"
  by (auto simp: ensure_consented_for_dispatch_def ensure_consented_def split: consent_decision.splits)

lemma check_consent_Ok_iff [result_simps]:
  "check_consent bus w call base now_ms = Ok u \<longleftrightarrow> consented bus w base call now_ms"
  by (auto simp: check_consent_def consented_def result_simps split: option.splits)

lemma push_usage_frame [simp]:
  "tb_registry (push_usage e bus) = tb_registry bus"
  "tb_authorizer (push_usage e bus) = tb_authorizer bus"
  "tb_consent (push_usage e bus) = tb_consent bus"
  "tb_protocol_id (push_usage e bus) = tb_protocol_id bus"
  "tb_calls_this_turn (push_usage e bus) = tb_calls_this_turn bus"
  by (simp_all add: push_usage_def)

lemma observed_frame [simp]:
  "tb_registry (observed eid call base now_ms x bus) = tb_registry bus"
  "tb_authorizer (observed eid call base now_ms x bus) = tb_authorizer bus"
  "tb_consent (observed eid call base now_ms x bus) = tb_consent bus"
  "tb_protocol_id (observed eid call base now_ms x bus) = tb_protocol_id bus"
  "tb_calls_this_turn (observed eid call base now_ms x bus) = tb_calls_this_turn bus"
  by (simp_all add: observed_def observe_dispatch_def case_prod_beta)

text \<open>The two ways a dispatch can go.\<close>

lemma dispatch_cases:
  obtains (refused) cause where "\<not> admitted bus w base call now_ms"
      "dispatch execute call base eid now_ms bus w =
         (Ok (refused eid call cause),
          observed eid call base now_ms (refused eid call cause) bus, w)"
  | (contact) outcome w' where "admitted bus w base call now_ms"
      "execute (tc_name call) (tc_arguments call)
         \<lparr> ec_execution_id = eid, ec_now_ms = now_ms \<rparr> w = (outcome, w')"
      "dispatch execute call base eid now_ms bus w =
         (outcome_execution eid call outcome,
          (let bus' = bus\<lparr> tb_calls_this_turn := tb_calls_this_turn bus + 1 \<rparr>
           in case outcome_execution eid call outcome of
                Ok x \<Rightarrow> observed eid call base now_ms x bus' | Err _ \<Rightarrow> bus'), w')"
proof (cases "admitted bus w base call now_ms")
  case True
  then have "authorize_call bus w base call = Ok ()" "check_consent bus w call base now_ms = Ok ()"
    "tb_calls_this_turn bus < MAX_TOOL_CALLS_PER_TURN"
    by (simp_all add: admitted_def result_simps)
  moreover obtain outcome w' where x: "execute (tc_name call) (tc_arguments call)
      \<lparr> ec_execution_id = eid, ec_now_ms = now_ms \<rparr> w = (outcome, w')" by fastforce
  ultimately show thesis
    using contact [OF True x] by (cases "outcome_execution eid call outcome") (simp_all add: dispatch_def)
next
  case False
  show thesis
  proof (cases "authorize_call bus w base call" rule: result_unit_cases)
    case Ok
    note auth = this
    show thesis
    proof (cases "check_consent bus w call base now_ms" rule: result_unit_cases)
      case Ok
      with auth False have "\<not> tb_calls_this_turn bus < MAX_TOOL_CALLS_PER_TURN"
        by (auto simp: admitted_def result_simps)
      with auth Ok show thesis using refused [OF False] by (simp add: dispatch_def Let_def)
    next
      case (Err e)
      with auth show thesis using refused [OF False] by (simp add: dispatch_def Let_def)
    qed
  next
    case (Err e)
    then show thesis using refused [OF False] by (simp add: dispatch_def Let_def)
  qed
qed

lemma dispatch_frame:
  assumes "dispatch execute call base eid now_ms bus w = (r, bus', w')"
  shows "tb_registry bus' = tb_registry bus \<and> tb_authorizer bus' = tb_authorizer bus
         \<and> tb_consent bus' = tb_consent bus \<and> tb_protocol_id bus' = tb_protocol_id bus
         \<and> tb_calls_this_turn bus' =
             tb_calls_this_turn bus + (if admitted bus w base call now_ms then 1 else 0)"
  using dispatch_cases [of bus w base call now_ms execute eid]
proof cases
  case (contact outcome w1)
  then show ?thesis using assms by (auto simp: Let_def split: result.splits)
qed (use assms in auto)


text \<open>Only a spent turn refuses for the call limit, and a sequence spends at most one call per step.\<close>

definition limit_refusal :: "(tool_execution, tool_error) result \<Rightarrow> bool" where
  "limit_refusal r \<longleftrightarrow> (\<exists>x k. r = Ok x \<and> te_status x = TS_Refused (TE_CallLimitExceeded k))"

lemma authorize_call_no_limit: "authorize_call bus w base call \<noteq> Err (TE_CallLimitExceeded k)"
  by (auto simp: authorize_call_def validate_tool_name_def result_simps
      split: option.splits if_splits auth_decision.splits)

lemma check_consent_no_limit: "check_consent bus w call base now_ms \<noteq> Err (TE_CallLimitExceeded k)"
  by (auto simp: check_consent_def ensure_consented_for_dispatch_def ensure_consented_def
      split: option.splits consent_decision.splits result.splits)

lemma outcome_no_refusal: "outcome_execution eid call outcome = Ok x \<Longrightarrow> te_status x \<noteq> TS_Refused cause"
  by (cases "(eid, call, outcome)" rule: outcome_execution.cases)
     (auto simp: result_rejected_def ack_loss_def host_answered_def split: if_splits)

lemma dispatch_limit_refusal:
  assumes "dispatch execute call base eid now_ms bus w = (r, bus', w')" and "limit_refusal r"
  shows "MAX_TOOL_CALLS_PER_TURN \<le> tb_calls_this_turn bus"
proof (rule ccontr)
  assume "\<not> ?thesis"
  with assms show False
    using authorize_call_no_limit [of bus w base call] check_consent_no_limit [of bus w call base now_ms]
      outcome_no_refusal [of eid call]
    by (auto simp: dispatch_def limit_refusal_def refused_def Let_def
        split: result.splits prod.splits if_splits)
qed

lemma dispatch_many_room:
  assumes "dispatch_many execute cs bus w = (rs, bus', w')"
    and "tb_calls_this_turn bus + length cs \<le> min limit MAX_TOOL_CALLS_PER_TURN"
  shows "tb_calls_this_turn bus' \<le> min limit MAX_TOOL_CALLS_PER_TURN \<and> (\<forall>r \<in> set rs. \<not> limit_refusal r)"
  using assms
proof (induction cs arbitrary: bus w rs)
  case (Cons c cs)
  obtain call base eid now_ms where c: "c = (call, base, eid, now_ms)" by (cases c)
  obtain r bus1 w1 where d: "dispatch execute call base eid now_ms bus w = (r, bus1, w1)"
    by (metis prod_cases3)
  obtain rs1 where m: "dispatch_many execute cs bus1 w1 = (rs1, bus', w')" and rs: "rs = r # rs1"
    using Cons.prems(1) c d by (auto split: prod.splits)
  have "tb_calls_this_turn bus1 \<le> tb_calls_this_turn bus + 1" using dispatch_frame [OF d] by simp
  then have "tb_calls_this_turn bus1 + length cs \<le> min limit MAX_TOOL_CALLS_PER_TURN"
    using Cons.prems(2) by simp
  from Cons.IH [OF m this] show ?case
    using dispatch_limit_refusal [OF d] Cons.prems(2) rs by fastforce
qed simp

section \<open>The executor interface\<close>

text \<open>
  An executor that keeps a log of its contacts, one entry per call. Inside the locale: the log of a
  turn grows exactly by the admitted calls, and never by more than the call cap.
\<close>

locale logging_executor =
  fixes execute :: "'w tool_executor" and log :: "'w \<Rightarrow> 'e list"
    and log_entry :: "execution_id \<Rightarrow> string \<Rightarrow> bytes \<Rightarrow> 'e"
  assumes execute_logs:
    "execute tool args ctx w = (r, w') \<Longrightarrow> log w' = log w @ [log_entry (ec_execution_id ctx) tool args]"
begin

lemma dispatch_logs:
  assumes "dispatch execute call base eid now_ms bus w = (r, bus', w')"
  shows "log w' = log w @
           (if admitted bus w base call now_ms then [log_entry eid (tc_name call) (tc_arguments call)] else [])"
  using dispatch_cases [of bus w base call now_ms execute eid]
proof cases
  case (contact outcome w1)
  then show ?thesis using assms execute_logs [OF contact(2)] by simp
qed (use assms in auto)

lemma turn_contacts:
  assumes "dispatch_many execute cs bus w = (rs, bus', w')"
    and "tb_calls_this_turn bus \<le> MAX_TOOL_CALLS_PER_TURN"
  shows "\<exists>entries. log w' = log w @ entries
           \<and> tb_calls_this_turn bus' = tb_calls_this_turn bus + length entries
           \<and> tb_calls_this_turn bus' \<le> MAX_TOOL_CALLS_PER_TURN"
  using assms
proof (induction cs arbitrary: bus w rs)
  case (Cons c cs)
  obtain call base eid now_ms where c: "c = (call, base, eid, now_ms)" by (cases c)
  obtain r bus1 w1 where d: "dispatch execute call base eid now_ms bus w = (r, bus1, w1)"
    by (metis prod_cases3)
  obtain rs1 where m: "dispatch_many execute cs bus1 w1 = (rs1, bus', w')"
    using Cons.prems(1) c d by (auto split: prod.splits)
  have calls: "tb_calls_this_turn bus1 =
      tb_calls_this_turn bus + (if admitted bus w base call now_ms then 1 else 0)"
    using dispatch_frame [OF d] by simp
  then have "tb_calls_this_turn bus1 \<le> MAX_TOOL_CALLS_PER_TURN"
    using Cons.prems(2) by (auto simp: admitted_def)
  from Cons.IH [OF m this] obtain entries where
    "log w' = log w1 @ entries" "tb_calls_this_turn bus' = tb_calls_this_turn bus1 + length entries"
    "tb_calls_this_turn bus' \<le> MAX_TOOL_CALLS_PER_TURN" by blast
  then show ?case
    using dispatch_logs [OF d] calls by (auto split: if_splits)
qed simp

end

interpretation recording: logging_executor recording_execute rx_calls "\<lambda>eid tool args. (eid, tool, args)"
  by unfold_locales (auto simp: recording_execute_def Let_def split: list.splits)

text \<open>The scripted executor has only \<open>execute\<close>; the trait's default forwards the time.\<close>

definition fake_execute_with_context :: "(fake_executor \<times> session) tool_executor" where
  "fake_execute_with_context tool arguments ctx = fake_execute tool arguments (ec_now_ms ctx)"

interpretation fake_exec: logging_executor fake_execute_with_context "\<lambda>w. fx_calls (fst w)"
  "\<lambda>eid tool args. (tool, args)"
  by unfold_locales
     (auto simp: fake_execute_with_context_def fake_execute_def Let_def split: list.splits option.splits)

section \<open>Results and the usage ring\<close>

lemma outcome_execution_facts:
  assumes "outcome_execution eid call outcome = Ok x"
  shows "te_execution_id x = eid \<and> te_tool x = tc_name call \<and> te_is_untrusted_surface x
         \<and> \<not> is_admission_refusal (te_status x)
         \<and> length (te_summary x) \<le> MAX_SUMMARY_BYTES \<and> length (te_data x) \<le> MAX_TOOL_RESULT_BYTES
         \<and> (te_status x = TS_Success \<longleftrightarrow> is_ok outcome)
         \<and> (is_ack_loss (te_status x) \<longleftrightarrow> (\<exists>name reason. outcome = Err (TE_EffectUnknown name reason)))"
  using assms
  by (cases "(eid, call, outcome)" rule: outcome_execution.cases)
     (auto simp: result_rejected_def ack_loss_def host_answered_def MAX_SUMMARY_BYTES_def
       MAX_TOOL_RESULT_BYTES_def split: if_splits)

text \<open>The ring holds the normalized forms of the last events pushed.\<close>

fun push_all :: "usage_event list \<Rightarrow> 'w tool_bus \<Rightarrow> 'w tool_bus" where
  "push_all [] bus = bus"
| "push_all (e # es) bus = push_all es (push_usage e bus)"

definition last_n :: "nat \<Rightarrow> 'a list \<Rightarrow> 'a list" where
  "last_n n xs = drop (length xs - n) xs"

lemma length_last_n [simp]: "length (last_n n xs) = min n (length xs)"
  by (simp add: last_n_def)

lemma last_n_snoc:
  "0 < n \<Longrightarrow> last_n n (xs @ [x]) = (if length (last_n n xs) \<ge> n then tl (last_n n xs) else last_n n xs) @ [x]"
  by (auto simp: last_n_def drop_Suc tl_drop Suc_diff_le)

lemma push_usage_window:
  "tb_usage bus = last_n MAX_USAGE_EVENTS es \<Longrightarrow>
   tb_usage (push_usage e bus) = last_n MAX_USAGE_EVENTS (es @ [usage_normalized e])"
  by (simp add: push_usage_def last_n_snoc MAX_USAGE_EVENTS_def)

lemma push_all_window:
  "tb_usage bus = last_n MAX_USAGE_EVENTS old \<Longrightarrow>
   tb_usage (push_all es bus) = last_n MAX_USAGE_EVENTS (old @ map usage_normalized es)"
proof (induction es arbitrary: bus old)
  case (Cons e es)
  from Cons.IH [OF push_usage_window [OF Cons.prems]] show ?case by simp
qed simp

text \<open>A normalized event carries only bounded printable text and is a fixed point.\<close>

fun status_bounded :: "tool_status \<Rightarrow> bool" where
  "status_bounded TS_Success \<longleftrightarrow> True"
| "status_bounded (TS_Failed reason) \<longleftrightarrow> bounded_text reason"
| "status_bounded (TS_Denied reason) \<longleftrightarrow> bounded_text reason"
| "status_bounded (TS_Unknown reason) \<longleftrightarrow> bounded_text reason"
| "status_bounded (TS_Refused cause) \<longleftrightarrow> tool_error_bounded cause"

definition event_bounded :: "usage_event \<Rightarrow> bool" where
  "event_bounded e \<longleftrightarrow>
     bounded_text (ue_tool e) \<and> bounded_text (ue_scope e) \<and> bounded_text (ue_protocol_id e)
     \<and> bounded_text (ue_reason e) \<and> status_bounded (ue_status e)
     \<and> (\<forall>l \<in> {us_server_id (ue_site e), us_task_id (ue_site e)}.
          case l of None \<Rightarrow> True | Some s \<Rightarrow> s \<noteq> [] \<and> bounded_text s)"

lemma status_normalized_bounded: "status_bounded (tool_status_normalized s)"
  by (cases s) auto

lemma status_normalized_idem [simp]: "tool_status_normalized (tool_status_normalized s) = tool_status_normalized s"
  by (cases s) auto

lemma bound_label_idem [simp]: "bound_label (bound_label l) = bound_label l"
  by (auto simp: bound_label_def split: option.splits)

lemma usage_normalized_bounded: "event_bounded (usage_normalized e)"
  by (auto simp: event_bounded_def usage_normalized_def status_normalized_bounded bound_label_def
      split: option.splits)

lemma usage_normalized_idem: "usage_normalized (usage_normalized e) = usage_normalized e"
  by (simp add: usage_normalized_def)


section \<open>A worked example\<close>

definition sample_spec :: tool_spec where
  "sample_spec = \<lparr> spec_name = ''read'', spec_description = [], spec_schema_json = ''{}'',
     spec_required_scope = ''fs'', spec_read_only = True, spec_placement = Some TP_Mcp,
     spec_native = None \<rparr>"

definition sample_bus :: "'w tool_bus" where
  "sample_bus = with_consent (\<lambda>_ _. CD_Allow) ''a.b'' (with_authorizer (\<lambda>_ _. AD_Allow)
     (tool_bus_new \<lparr> reg_specs = [sample_spec] \<rparr>))"

definition sample_base :: auth_base where
  "sample_base = \<lparr> ab_agent_instance_id = AgentInstanceId 1, ab_session_id = SessionId 1, ab_level = AL_Inspect \<rparr>"

definition sample_call :: tool_call where
  "sample_call = \<lparr> tc_name = ''read'', tc_arguments = ''{}'' \<rparr>"

lemmas sample_defs = sample_spec_def sample_bus_def sample_base_def sample_call_def with_consent_def
  with_authorizer_def tool_bus_new_def

lemma sample_admitted: "admitted sample_bus w sample_base sample_call 5"
  by (simp add: admitted_def authorized_def consented_def sample_defs tool_lookup_def valid_tool_name_def
      tool_name_char_def ascii_class_defs MAX_TOOL_NAME_LEN_def MAX_TOOL_ARGUMENTS_BYTES_def
      MAX_TOOL_CALLS_PER_TURN_def)

section \<open>Properties\<close>

text \<open>
  C7. Complete mediation: whatever the executor, a dispatch reaches it exactly when the name is valid
  and registered, the arguments are bounded, an inspect-tier caller asks for a read-only tool, the
  installed authorizer and the installed ledger both allow the exact call, and fewer than eight calls
  were made this turn. It is then called once, with that call, and the turn counter advances by one.
  Otherwise the world and the counter are untouched and the result is a refusal.
\<close>

theorem dispatch_mediated:
  "case dispatch execute call base eid now_ms bus w of (r, bus', w') \<Rightarrow>
     if valid_tool_name (tc_name call) \<and> length (tc_arguments call) \<le> MAX_TOOL_ARGUMENTS_BYTES
        \<and> (\<exists>spec authorizer ledger protocol.
             tool_lookup (tb_registry bus) (tc_name call) = Some spec
             \<and> (ab_level base = AL_Inspect \<longrightarrow> spec_read_only spec)
             \<and> tb_authorizer bus = Some authorizer
             \<and> authorizer w \<lparr> ax_base = base, ax_tool = tc_name call,
                   ax_required_scope = spec_required_scope spec, ax_read_only = spec_read_only spec \<rparr> = AD_Allow
             \<and> tb_consent bus = Some ledger \<and> tb_protocol_id bus = Some protocol
             \<and> ledger w \<lparr> cq_protocol_id = protocol, cq_agent_instance = ab_agent_instance_id base,
                   cq_tool = tc_name call, cq_scope = spec_required_scope spec, cq_now_ms = now_ms \<rparr> = CD_Allow)
        \<and> tb_calls_this_turn bus < MAX_TOOL_CALLS_PER_TURN
     then (case execute (tc_name call) (tc_arguments call) \<lparr> ec_execution_id = eid, ec_now_ms = now_ms \<rparr> w of
             (outcome, w'') \<Rightarrow> r = outcome_execution eid call outcome \<and> w' = w'')
          \<and> tb_calls_this_turn bus' = tb_calls_this_turn bus + 1
     else w' = w \<and> tb_calls_this_turn bus' = tb_calls_this_turn bus
          \<and> (\<exists>cause. r = Ok (refused eid call cause))"
proof -
  have *: "admitted bus w base call now_ms \<longleftrightarrow> valid_tool_name (tc_name call)
        \<and> length (tc_arguments call) \<le> MAX_TOOL_ARGUMENTS_BYTES
        \<and> (\<exists>spec authorizer ledger protocol.
             tool_lookup (tb_registry bus) (tc_name call) = Some spec
             \<and> (ab_level base = AL_Inspect \<longrightarrow> spec_read_only spec)
             \<and> tb_authorizer bus = Some authorizer
             \<and> authorizer w \<lparr> ax_base = base, ax_tool = tc_name call,
                   ax_required_scope = spec_required_scope spec, ax_read_only = spec_read_only spec \<rparr> = AD_Allow
             \<and> tb_consent bus = Some ledger \<and> tb_protocol_id bus = Some protocol
             \<and> ledger w \<lparr> cq_protocol_id = protocol, cq_agent_instance = ab_agent_instance_id base,
                   cq_tool = tc_name call, cq_scope = spec_required_scope spec, cq_now_ms = now_ms \<rparr> = CD_Allow)
        \<and> tb_calls_this_turn bus < MAX_TOOL_CALLS_PER_TURN"
    by (auto simp: admitted_def authorized_def consented_def)
  obtain r bus' w' where d: "dispatch execute call base eid now_ms bus w = (r, bus', w')"
    by (metis prod_cases3)
  have calls: "tb_calls_this_turn bus' =
      tb_calls_this_turn bus + (if admitted bus w base call now_ms then 1 else 0)"
    using dispatch_frame [OF d] by simp
  have "if admitted bus w base call now_ms
     then (case execute (tc_name call) (tc_arguments call) \<lparr> ec_execution_id = eid, ec_now_ms = now_ms \<rparr> w of
             (outcome, w'') \<Rightarrow> r = outcome_execution eid call outcome \<and> w' = w'')
          \<and> tb_calls_this_turn bus' = tb_calls_this_turn bus + 1
     else w' = w \<and> tb_calls_this_turn bus' = tb_calls_this_turn bus
          \<and> (\<exists>cause. r = Ok (refused eid call cause))"
    using dispatch_cases [of bus w base call now_ms execute eid] calls d by cases auto
  then show ?thesis by (simp only: d prod.case * [symmetric])
qed

theorem dispatch_mediated_witness:
  "\<exists>r bus'. dispatch recording_execute sample_call sample_base (ExecutionId 9) 5 sample_bus recording_new
     = (r, bus', \<lparr> rx_script = [], rx_calls = [(ExecutionId 9, ''read'', ''{}'')] \<rparr>)
     \<and> tb_calls_this_turn bus' = 1"
  using dispatch_mediated [where execute = recording_execute and call = sample_call and base = sample_base
      and eid = "ExecutionId 9" and now_ms = 5 and bus = sample_bus and w = recording_new]
    sample_admitted [of recording_new]
  by (simp add: admitted_def authorized_def consented_def recording_execute_def recording_new_def Let_def
      case_prod_beta sample_defs prod_eq_iff)

text \<open>
  Over any sequence of dispatches after the start of a turn, with any calls, callers, ids and
  times, the recording executor is contacted at most eight times, and exactly as often as the turn
  counter says.
\<close>

theorem turn_contact_cap:
  assumes "dispatch_many recording_execute cs (begin_turn bus) x = (rs, bus', x')"
  shows "\<exists>entries. rx_calls x' = rx_calls x @ entries
           \<and> length entries = tb_calls_this_turn bus' \<and> length entries \<le> MAX_TOOL_CALLS_PER_TURN"
  using recording.turn_contacts [OF assms] by (auto simp: begin_turn_def)

theorem turn_contact_cap_witness:
  "\<exists>rs bus' x'. dispatch_many recording_execute [(sample_call, sample_base, ExecutionId 9, 5)]
       (begin_turn sample_bus) recording_new = (rs, bus', x')
     \<and> (\<exists>entries. rx_calls x' = entries \<and> length entries \<le> MAX_TOOL_CALLS_PER_TURN)"
proof -
  obtain rs bus' x' where r: "dispatch_many recording_execute [(sample_call, sample_base, ExecutionId 9, 5)]
       (begin_turn sample_bus) recording_new = (rs, bus', x')" by (metis prod_cases3)
  from turn_contact_cap [OF r] r show ?thesis by (auto simp: recording_new_def)
qed

text \<open>
  C8. Every dispatch that returns a record returns one attributed to its execution id and tool, with
  bounded summary and data, and appends one bounded usage event for it, evicting the oldest when the
  ring is full. The record is an admission refusal exactly when the call was not admitted, and an
  acknowledgement loss exactly when the executor reported an unknown effect. A passed-on error leaves
  the ring alone and is none of the errors that have a record.
\<close>

theorem dispatch_recorded:
  assumes "dispatch execute call base eid now_ms bus w = (r, bus', w')"
  shows "case r of
      Ok x \<Rightarrow>
        te_execution_id x = eid \<and> te_tool x = tc_name call
        \<and> length (te_summary x) \<le> MAX_SUMMARY_BYTES \<and> length (te_data x) \<le> MAX_TOOL_RESULT_BYTES
        \<and> (is_admission_refusal (te_status x) \<longleftrightarrow> \<not> admitted bus w base call now_ms)
        \<and> (is_ack_loss (te_status x) \<longleftrightarrow> admitted bus w base call now_ms
             \<and> (\<exists>name reason. fst (execute (tc_name call) (tc_arguments call)
                  \<lparr> ec_execution_id = eid, ec_now_ms = now_ms \<rparr> w) = Err (TE_EffectUnknown name reason)))
        \<and> (\<exists>ev. tb_usage bus' = (if length (tb_usage bus) \<ge> MAX_USAGE_EVENTS then tl (tb_usage bus)
                                 else tb_usage bus) @ [ev]
              \<and> event_bounded ev \<and> ue_execution_id ev = eid \<and> ue_caller ev = base
              \<and> ue_occurred_at_ms ev = now_ms \<and> ue_args_digest ev = fnv1a64 (tc_arguments call)
              \<and> ue_status ev = tool_status_normalized (te_status x)
              \<and> ue_result_disposition ev = te_result_disposition x)
    | Err e \<Rightarrow>
        tb_usage bus' = tb_usage bus \<and> admitted bus w base call now_ms
        \<and> (\<forall>name reason. e \<notin> {TE_Denied name reason, TE_Failed name reason,
                               TE_ProtocolRejected name reason, TE_EffectUnknown name reason})"
proof -
  have ev: "\<exists>ev. tb_usage (observed eid call base now_ms x b) =
        (if length (tb_usage b) \<ge> MAX_USAGE_EVENTS then tl (tb_usage b) else tb_usage b) @ [ev]
      \<and> event_bounded ev \<and> ue_execution_id ev = eid \<and> ue_caller ev = base \<and> ue_occurred_at_ms ev = now_ms
      \<and> ue_args_digest ev = fnv1a64 (tc_arguments call)
      \<and> ue_status ev = tool_status_normalized (te_status x)
      \<and> ue_result_disposition ev = te_result_disposition x" for x and b :: "'a tool_bus"
    using usage_normalized_bounded
    by (auto simp: observed_def observe_dispatch_def push_usage_def case_prod_beta args_digest_def)
       (auto simp: usage_normalized_def)
  show ?thesis
    using dispatch_cases [of bus w base call now_ms execute eid]
  proof cases
    case (refused cause)
    then show ?thesis
      using assms ev [of "refused eid call cause" bus]
      by (auto simp: refused_def MAX_SUMMARY_BYTES_def MAX_TOOL_RESULT_BYTES_def)
  next
    case (contact outcome w1)
    show ?thesis
    proof (cases "outcome_execution eid call outcome")
      case (Ok x)
      let ?bus = "bus\<lparr> tb_calls_this_turn := tb_calls_this_turn bus + 1 \<rparr>"
      have r: "r = Ok x" and b: "bus' = observed eid call base now_ms x ?bus"
        using assms contact Ok by simp_all
      have u: "tb_usage ?bus = tb_usage bus" by simp
      show ?thesis
        unfolding r b result.case
        using contact(1,2) ev [of x ?bus, unfolded u] outcome_execution_facts [OF Ok] by simp
    next
      case (Err e)
      then have "e \<notin> {TE_Denied name reason, TE_Failed name reason,
                       TE_ProtocolRejected name reason, TE_EffectUnknown name reason}" for name reason
        by (cases "(eid, call, outcome)" rule: outcome_execution.cases) (auto split: if_splits)
      moreover have "r = Err e" and "tb_usage bus' = tb_usage bus" using assms contact(3) Err by auto
      ultimately show ?thesis using contact(1) by simp
    qed
  qed
qed


theorem dispatch_recorded_witness:
  "\<exists>x bus' w'. dispatch recording_execute sample_call sample_base (ExecutionId 9) 5 sample_bus recording_new
       = (Ok x, bus', w')
     \<and> te_execution_id x = ExecutionId 9 \<and> (\<exists>ev. tb_usage bus' = [ev] \<and> ue_execution_id ev = ExecutionId 9)"
proof -
  obtain x bus' w' where d: "dispatch recording_execute sample_call sample_base (ExecutionId 9) 5 sample_bus
      recording_new = (Ok x, bus', w')"
    using dispatch_cases [of sample_bus recording_new sample_base sample_call 5 recording_execute "ExecutionId 9"]
      sample_admitted
    by cases (auto simp: recording_execute_def recording_new_def MAX_SUMMARY_BYTES_def MAX_TOOL_RESULT_BYTES_def)
  have "tb_usage (sample_bus :: recording_executor tool_bus) = []" by (simp add: sample_defs)
  with dispatch_recorded [OF d] d show ?thesis by (auto simp: MAX_USAGE_EVENTS_def)
qed

text \<open>
  The usage ring is the window of the last 32 events pushed, each normalized: every text in it is
  printable and bounded, and normalizing again changes nothing. Listing without a filter returns a
  prefix of that window.
\<close>

theorem usage_ring_is_window:
  "tb_usage (push_all es (tool_bus_new reg)) = last_n MAX_USAGE_EVENTS (map usage_normalized es)
   \<and> length (tb_usage (push_all es (tool_bus_new reg))) = min MAX_USAGE_EVENTS (length es)
   \<and> list_all (\<lambda>e. event_bounded e \<and> usage_normalized e = e) (tb_usage (push_all es (tool_bus_new reg)))
   \<and> list_usage filter_match_all n (push_all es (tool_bus_new reg))
       = take n (tb_usage (push_all es (tool_bus_new reg)))"
proof -
  have w: "tb_usage (push_all es (tool_bus_new reg)) = last_n MAX_USAGE_EVENTS (map usage_normalized es)"
    using push_all_window [of "tool_bus_new reg" "[]" es] by (simp add: tool_bus_new_def last_n_def)
  have "list_all (\<lambda>e. event_bounded e \<and> usage_normalized e = e) (last_n MAX_USAGE_EVENTS (map usage_normalized es))"
    by (auto simp: list_all_iff last_n_def usage_normalized_bounded usage_normalized_idem dest!: in_set_dropD)
  moreover have "filter_matches filter_match_all = (\<lambda>_. True)"
    by (simp add: fun_eq_iff filter_matches_def filter_match_all_def)
  ultimately show ?thesis by (simp add: w list_usage_def)
qed

text \<open>
  Narrowing only ever removes: a dispatch of a tool outside the allow list refuses without
  touching the world or the turn counter, one inside it is the plain dispatch, and a narrowed batch
  passes its precheck exactly when it passes the plain one and every tool of it is listed.
\<close>

theorem narrowing_only_restricts:
  "(if narrowing_omits allowed (tc_name call)
    then (case dispatch_narrowed execute call base eid now_ms allowed bus w of (r, bus', w') \<Rightarrow>
            r = Ok (refused eid call (narrowing_denial call)) \<and> w' = w
            \<and> tb_calls_this_turn bus' = tb_calls_this_turn bus)
    else dispatch_narrowed execute call base eid now_ms allowed bus w
           = dispatch execute call base eid now_ms bus w)
   \<and> (is_ok (precheck_narrowed bus w calls base limit allowed) \<longleftrightarrow>
        is_ok (precheck bus w calls base limit) \<and> list_all (\<lambda>c. \<not> narrowing_omits allowed (tc_name c)) calls)
   \<and> (narrowing_omits allowed tool \<longleftrightarrow> (\<exists>tools. allowed = Some tools \<and> tool \<notin> set tools))"
  by (auto simp: dispatch_narrowed_def Let_def precheck_narrowed_def result_simps narrowing_omits_def
      list_ex_iff list_all_iff split: option.splits)

text \<open>
  A batch that passes the precheck fits the turn: if its calls are dispatched one after another
  from that state, whatever the executor does, none of them is refused for the call limit and the
  turn counter stays within the configured limit and the hard cap.
\<close>

theorem precheck_covers_batch:
  assumes "precheck bus w calls base limit = Ok ()" and "length calls + tb_calls_this_turn bus \<le> usize_max"
    and "dispatch_many execute cs bus w = (rs, bus', w')" and "length cs \<le> length calls"
  shows "tb_calls_this_turn bus' \<le> min limit MAX_TOOL_CALLS_PER_TURN
         \<and> (\<forall>r \<in> set rs. \<forall>x. r = Ok x \<longrightarrow> te_status x \<noteq> TS_Refused (TE_CallLimitExceeded MAX_TOOL_CALLS_PER_TURN))"
proof -
  have "length calls + tb_calls_this_turn bus \<le> min limit MAX_TOOL_CALLS_PER_TURN"
    using assms(1,2) by (auto simp: precheck_def result_simps Let_def saturating_add_usize_def split: if_splits)
  with assms(4) have "tb_calls_this_turn bus + length cs \<le> min limit MAX_TOOL_CALLS_PER_TURN" by simp
  then show ?thesis using dispatch_many_room [OF assms(3)] by (auto simp: limit_refusal_def)
qed


theorem precheck_covers_batch_witness:
  "tb_calls_this_turn (fst (snd (dispatch_many recording_execute
      [(sample_call, sample_base, ExecutionId 9, 5)] sample_bus recording_new))) \<le> 3"
proof -
  have "authorize_call sample_bus recording_new sample_base sample_call = Ok ()"
    using sample_admitted [of recording_new] by (simp add: admitted_def result_simps)
  then have p: "precheck sample_bus recording_new [sample_call] sample_base 3 = Ok ()"
    and l: "length [sample_call] + tb_calls_this_turn (sample_bus :: recording_executor tool_bus) \<le> usize_max"
    by (simp_all add: precheck_def Let_def saturating_add_usize_def usize_max_def MAX_TOOL_CALLS_PER_TURN_def
        sample_bus_def with_consent_def with_authorizer_def tool_bus_new_def)
  obtain rs bus' w' where r: "dispatch_many recording_execute [(sample_call, sample_base, ExecutionId 9, 5)]
      sample_bus recording_new = (rs, bus', w')" by (metis prod_cases3)
  from precheck_covers_batch [OF p l r] r show ?thesis by simp
qed

end
