(* ===== verification/Provider.thy ===== *)
theory Provider
  imports Reasons Complex_Main
begin

text \<open>
  The provider boundary (\<open>bitty-ai-runtime/src/provider.rs\<close>): models, messages, sampling options and
  their validation, turns, the error vocabulary and the scripted provider. A provider is a function
  on a world \<open>'w\<close>, as a tool executor is. An \<open>f64\<close> is \<open>NaN\<close>, an infinity or a finite rational: the
  sources only test finiteness and compare with constants that binary floating point represents
  exactly. The reasoning-budget ratios, which are estimates shown to a user, are left out.
\<close>

section \<open>Constants\<close>

definition MAX_REQUEST_TIMEOUT_MS :: u64 where
  "MAX_REQUEST_TIMEOUT_MS = 30000"

definition DEFAULT_REQUEST_TIMEOUT_MS :: u64 where
  "DEFAULT_REQUEST_TIMEOUT_MS = 5000"

definition MAX_RATE_LIMIT_WAIT_MS :: u64 where
  "MAX_RATE_LIMIT_WAIT_MS = 30000"

definition MAX_PROVIDER_ID_LEN :: nat where
  "MAX_PROVIDER_ID_LEN = 64"

definition MAX_STOP_SEQUENCES :: nat where
  "MAX_STOP_SEQUENCES = 8"

definition MAX_STOP_SEQUENCE_BYTES :: nat where
  "MAX_STOP_SEQUENCE_BYTES = 256"

definition MAX_RESPONSE_SCHEMA_BYTES :: nat where
  "MAX_RESPONSE_SCHEMA_BYTES = 16 * 1024"

definition MIN_REASONING_TOKENS :: u32 where
  "MIN_REASONING_TOKENS = 1"

definition MIN_MAX_TOKENS :: u32 where
  "MIN_MAX_TOKENS = 1"

section \<open>Models, messages and requests\<close>

datatype model_capability =
  MC_Text | MC_Streaming | MC_ToolUse | MC_ImageInput | MC_AudioInput | MC_AudioOutput
| MC_VideoInput | MC_Reasoning

record model_descriptor =
  md_name :: string
  md_capabilities :: "model_capability list"

datatype role = RO_User | RO_Assistant | RO_Tool

record message =
  msg_role :: role
  msg_content :: string

definition message_user :: "string \<Rightarrow> message" where
  "message_user content = \<lparr> msg_role = RO_User, msg_content = content \<rparr>"

definition message_assistant :: "string \<Rightarrow> message" where
  "message_assistant content = \<lparr> msg_role = RO_Assistant, msg_content = content \<rparr>"

definition message_tool :: "string \<Rightarrow> message" where
  "message_tool content = \<lparr> msg_role = RO_Tool, msg_content = content \<rparr>"

record tool_call_request =
  tcr_name :: string
  tcr_arguments :: bytes

datatype reasoning_effort =
  RE_None | RE_Minimal | RE_Low | RE_Medium | RE_High | RE_XHigh | RE_Max

fun effort_display :: "reasoning_effort \<Rightarrow> string" where
  "effort_display RE_None = ''none''"
| "effort_display RE_Minimal = ''minimal''"
| "effort_display RE_Low = ''low''"
| "effort_display RE_Medium = ''medium''"
| "effort_display RE_High = ''high''"
| "effort_display RE_XHigh = ''xhigh''"
| "effort_display RE_Max = ''max''"

definition effort_from_str :: "string \<Rightarrow> (reasoning_effort, unit) result" where
  "effort_from_str value =
     (if value = ''none'' then Ok RE_None
      else if value = ''minimal'' then Ok RE_Minimal
      else if value = ''low'' then Ok RE_Low
      else if value = ''medium'' then Ok RE_Medium
      else if value = ''high'' then Ok RE_High
      else if value = ''xhigh'' then Ok RE_XHigh
      else if value = ''max'' then Ok RE_Max
      else Err ())"

record reasoning_config =
  rc_effort :: "reasoning_effort option"
  rc_max_tokens :: "u32 option"
  rc_exclude :: bool

datatype response_format = RF_Text | RF_JsonObject | RF_JsonSchema "bytes option"

datatype f64 = F_NaN | F_Infinity bool | F_Finite rat

record sampling_params =
  sp_temperature :: "f64 option"
  sp_top_p :: "f64 option"
  sp_top_k :: "64 word option"
  sp_frequency_penalty :: "f64 option"
  sp_presence_penalty :: "f64 option"
  sp_repetition_penalty :: "f64 option"
  sp_min_p :: "f64 option"
  sp_seed :: "64 word option"
  sp_max_tokens :: "u32 option"
  sp_stop :: "string list option"
  sp_response_format :: "response_format option"
  sp_reasoning :: "reasoning_config option"

record turn_request =
  tr_model :: string
  tr_messages :: "message list"
  tr_context_refs :: "string list"
  tr_tools :: "string list"
  tr_budget_bytes :: nat
  tr_timeout_ms :: u64
  tr_now_ms :: u64
  tr_sampling :: "sampling_params option"

definition total_message_bytes :: "turn_request \<Rightarrow> nat" where
  "total_message_bytes req = sum_list (map (\<lambda>m. length (msg_content m)) (tr_messages req))"

record provider_usage =
  pu_input_tokens :: u32
  pu_output_tokens :: u32
  pu_cached_tokens :: u32
  pu_cache_write_tokens :: u32

record provider_turn =
  pt_text :: string
  pt_tool_calls :: "tool_call_request list"
  pt_latency_ms :: u64
  pt_usage :: provider_usage

datatype provider_error =
  PE_UnknownModel string
| PE_BudgetExceeded nat nat
| PE_Timeout u64 u64
| PE_TimeoutTooLarge u64 u64
| PE_InvalidProviderId string
| PE_Transport string string
| PE_Auth string string
| PE_RateLimited string "u64 option"
| PE_CapabilityMismatch string string "model_capability list"
| PE_ModelUnavailable string string
| PE_Unknown string string
| PE_InvalidSampling
| PE_UnsupportedSampling string

fun provider_error_display :: "provider_error \<Rightarrow> string" where
  "provider_error_display (PE_UnknownModel name) = ''unknown model: '' @ name"
| "provider_error_display (PE_BudgetExceeded limit actual) =
     ''context budget exceeded: '' @ show_nat actual @ '' bytes over '' @ show_nat limit @ '' byte limit''"
| "provider_error_display (PE_Timeout timeout_ms latency_ms) =
     ''provider timed out: latency '' @ show_nat (unat latency_ms) @ ''ms over ''
     @ show_nat (unat timeout_ms) @ ''ms timeout''"
| "provider_error_display (PE_TimeoutTooLarge maximum actual) =
     ''timeout '' @ show_nat (unat actual) @ ''ms exceeds ceiling '' @ show_nat (unat maximum) @ ''ms''"
| "provider_error_display (PE_InvalidProviderId i) = ''invalid provider id: '' @ i"
| "provider_error_display (PE_Transport provider reason) =
     ''provider '' @ provider @ '' transport failure: '' @ reason"
| "provider_error_display (PE_Auth provider reason) =
     ''provider '' @ provider @ '' refused authorization: '' @ reason"
| "provider_error_display (PE_RateLimited provider retry_after_ms) =
     (case retry_after_ms of
        Some ms \<Rightarrow> ''provider '' @ provider @ '' rate limited: retry after '' @ show_nat (unat ms) @ ''ms''
      | None \<Rightarrow> ''provider '' @ provider @ '' rate limited'')"
| "provider_error_display (PE_CapabilityMismatch provider model missing) =
     ''provider '' @ provider @ '' model '' @ model @ '' lacks '' @ show_nat (length missing)
     @ '' capabilities''"
| "provider_error_display (PE_ModelUnavailable provider model) =
     ''provider '' @ provider @ '' model '' @ model @ '' unavailable''"
| "provider_error_display (PE_Unknown provider reason) =
     ''provider '' @ provider @ '' effect unknown: '' @ reason"
| "provider_error_display PE_InvalidSampling = ''invalid sampling parameters''"
| "provider_error_display (PE_UnsupportedSampling field) =
     ''sampling option unsupported by backend: '' @ field"

section \<open>Validation\<close>

definition rate_limit_wait_ms :: "u64 option \<Rightarrow> u64 \<Rightarrow> u64 \<Rightarrow> u64" where
  "rate_limit_wait_ms retry_after_ms base_ms max_ms =
     (let ceiling = min max_ms MAX_RATE_LIMIT_WAIT_MS
      in case retry_after_ms of Some v \<Rightarrow> min v ceiling | None \<Rightarrow> min base_ms ceiling)"

definition provider_id_char :: "char \<Rightarrow> bool" where
  "provider_id_char b \<longleftrightarrow> is_ascii_lowercase b \<or> is_ascii_digit b \<or> b = CHR ''_'' \<or> b = CHR ''-''"

definition valid_provider_id :: "string \<Rightarrow> bool" where
  "valid_provider_id i \<longleftrightarrow>
     i \<noteq> [] \<and> length i \<le> MAX_PROVIDER_ID_LEN
     \<and> (case i of [] \<Rightarrow> False | b # _ \<Rightarrow> is_ascii_lowercase b)
     \<and> list_all provider_id_char i"

definition validate_provider_id :: "string \<Rightarrow> (unit, provider_error) result" where
  "validate_provider_id i = (if valid_provider_id i then Ok () else Err (PE_InvalidProviderId i))"

definition check_timeout :: "turn_request \<Rightarrow> (unit, provider_error) result" where
  "check_timeout req =
     (if tr_timeout_ms req > MAX_REQUEST_TIMEOUT_MS
      then Err (PE_TimeoutTooLarge MAX_REQUEST_TIMEOUT_MS (tr_timeout_ms req)) else Ok ())"

fun in_closed_interval :: "f64 \<Rightarrow> rat \<Rightarrow> rat \<Rightarrow> bool" where
  "in_closed_interval (F_Finite v) lo hi \<longleftrightarrow> v \<ge> lo \<and> v \<le> hi"
| "in_closed_interval F_NaN lo hi \<longleftrightarrow> False"
| "in_closed_interval (F_Infinity s) lo hi \<longleftrightarrow> False"

text \<open>One \<open>if let Some(value)\<close> guard: an absent option passes, a present one must satisfy the test.\<close>

definition guard_option :: "'a option \<Rightarrow> ('a \<Rightarrow> bool) \<Rightarrow> (unit, provider_error) result" where
  "guard_option v test = (case v of None \<Rightarrow> Ok () | Some x \<Rightarrow> if test x then Ok () else Err PE_InvalidSampling)"

definition validate_sampling :: "sampling_params \<Rightarrow> (unit, provider_error) result" where
  "validate_sampling params =
     and_then (guard_option (sp_temperature params) (\<lambda>v. in_closed_interval v 0 2)) (\<lambda>_.
     and_then (guard_option (sp_top_p params) (\<lambda>v. in_closed_interval v 0 1)) (\<lambda>_.
     and_then (guard_option (sp_top_k params) (\<lambda>v. \<not> sint v < 0)) (\<lambda>_.
     and_then (guard_option (sp_frequency_penalty params) (\<lambda>v. in_closed_interval v (-2) 2)) (\<lambda>_.
     and_then (guard_option (sp_presence_penalty params) (\<lambda>v. in_closed_interval v (-2) 2)) (\<lambda>_.
     and_then (guard_option (sp_repetition_penalty params) (\<lambda>v. in_closed_interval v 0 2)) (\<lambda>_.
     and_then (guard_option (sp_min_p params) (\<lambda>v. in_closed_interval v 0 1)) (\<lambda>_.
     and_then (guard_option (sp_max_tokens params) (\<lambda>v. \<not> v < MIN_MAX_TOKENS)) (\<lambda>_.
     and_then (guard_option (sp_stop params) (\<lambda>stops.
        \<not> (length stops > MAX_STOP_SEQUENCES
           \<or> list_ex (\<lambda>stop. length stop > MAX_STOP_SEQUENCE_BYTES) stops))) (\<lambda>_.
     and_then (case sp_response_format params of
        Some (RF_JsonSchema (Some schema)) \<Rightarrow>
          if length schema > MAX_RESPONSE_SCHEMA_BYTES then Err PE_InvalidSampling else Ok ()
      | _ \<Rightarrow> Ok ()) (\<lambda>_.
     case sp_reasoning params of
        None \<Rightarrow> Ok ()
      | Some reasoning \<Rightarrow>
        (case rc_max_tokens reasoning of
           None \<Rightarrow> Ok ()
         | Some budget \<Rightarrow>
           if budget < MIN_REASONING_TOKENS then Err PE_InvalidSampling
           else (case sp_max_tokens params of
                   None \<Rightarrow> Ok ()
                 | Some max_tokens \<Rightarrow>
                   if budget \<ge> max_tokens then Err PE_InvalidSampling else Ok ()))))))))))))"

definition check_sampling :: "turn_request \<Rightarrow> (unit, provider_error) result" where
  "check_sampling req =
     (case tr_sampling req of None \<Rightarrow> Ok () | Some params \<Rightarrow> validate_sampling params)"

section \<open>Providers\<close>

text \<open>\<open>ModelProvider::complete\<close>, on a world that holds the provider's own state.\<close>

type_synonym 'w model_provider = "turn_request \<Rightarrow> 'w \<Rightarrow> (provider_turn, provider_error) result \<times> 'w"

record fake_provider =
  fp_id :: string
  fp_models :: "model_descriptor list"
  fp_script :: "provider_turn list"
  fp_complete_calls :: u64
  fp_last_sampling :: "sampling_params option"

definition fake_provider_new :: "string \<Rightarrow> (fake_provider, provider_error) result" where
  "fake_provider_new i =
     and_then (validate_provider_id i) (\<lambda>_.
     Ok \<lparr> fp_id = i,
          fp_models = [\<lparr> md_name = ''fake-chat'', md_capabilities = [MC_Text, MC_Streaming, MC_ToolUse] \<rparr>],
          fp_script = [], fp_complete_calls = 0, fp_last_sampling = None \<rparr>)"

definition fake_push_turn :: "provider_turn \<Rightarrow> fake_provider \<Rightarrow> fake_provider" where
  "fake_push_turn turn p = p\<lparr> fp_script := fp_script p @ [turn] \<rparr>"

definition empty_turn :: provider_turn where
  "empty_turn = \<lparr> pt_text = [], pt_tool_calls = [], pt_latency_ms = 0,
     pt_usage = \<lparr> pu_input_tokens = 0, pu_output_tokens = 0, pu_cached_tokens = 0,
                  pu_cache_write_tokens = 0 \<rparr> \<rparr>"

definition fake_complete :: "fake_provider model_provider" where
  "fake_complete req p =
     (case check_timeout req of Err e \<Rightarrow> (Err e, p) | Ok _ \<Rightarrow>
     (case check_sampling req of Err e \<Rightarrow> (Err e, p) | Ok _ \<Rightarrow>
     if \<not> list_ex (\<lambda>m. md_name m = tr_model req) (fp_models p)
     then (Err (PE_UnknownModel (tr_model req)), p)
     else let actual = total_message_bytes req in
     if actual > tr_budget_bytes req
     then (Err (PE_BudgetExceeded (tr_budget_bytes req) actual), p)
     else let (turn, rest) = (case fp_script p of [] \<Rightarrow> (empty_turn, []) | t # ts \<Rightarrow> (t, ts)) in
     if pt_latency_ms turn > tr_timeout_ms req
     then (Err (PE_Timeout (tr_timeout_ms req) (pt_latency_ms turn)), p\<lparr> fp_script := turn # rest \<rparr>)
     else (Ok turn, p\<lparr> fp_script := rest, fp_complete_calls := fp_complete_calls p + 1,
                       fp_last_sampling := tr_sampling req \<rparr>)))"

section \<open>Lemmas\<close>

lemma validate_provider_id_Ok [result_simps]: "validate_provider_id i = Ok u \<longleftrightarrow> valid_provider_id i"
  by (simp add: validate_provider_id_def)

lemma provider_id_bounded: "valid_provider_id i \<Longrightarrow> bounded_text i"
  by (auto simp: valid_provider_id_def bounded_text_def MAX_PROVIDER_ID_LEN_def MAX_REASON_BYTES_def
      list_all_iff provider_id_char_def printable_char_def ascii_class_defs)

lemma guard_option_Ok [result_simps]: "guard_option v test = Ok u \<longleftrightarrow> pred_option test v"
  by (cases v) (auto simp: guard_option_def)

lemma in_closed_interval_iff:
  "in_closed_interval v lo hi \<longleftrightarrow> (\<exists>q. v = F_Finite q \<and> lo \<le> q \<and> q \<le> hi)"
  by (cases v) auto

lemma effort_roundtrip: "effort_from_str (effort_display e) = Ok e"
  by (cases e) (simp_all add: effort_from_str_def)

text \<open>A run of requests against the scripted provider, with the turns it handed out.\<close>

fun complete_many :: "turn_request list \<Rightarrow> fake_provider \<Rightarrow> provider_turn list \<times> fake_provider" where
  "complete_many [] p = ([], p)"
| "complete_many (r # rs) p =
     (case fake_complete r p of (res, p') \<Rightarrow>
      case complete_many rs p' of (turns, p'') \<Rightarrow>
        ((case res of Ok t \<Rightarrow> t # turns | Err _ \<Rightarrow> turns), p''))"

lemma fake_complete_cases:
  obtains (error) e where "fake_complete req p = (Err e, p)"
  | (spent) "fp_script p = []"
      "fake_complete req p = (Ok empty_turn, p\<lparr> fp_script := [], fp_complete_calls := fp_complete_calls p + 1,
                                                 fp_last_sampling := tr_sampling req \<rparr>)"
  | (turn) t ts where "fp_script p = t # ts"
      "fake_complete req p = (Ok t, p\<lparr> fp_script := ts, fp_complete_calls := fp_complete_calls p + 1,
                                         fp_last_sampling := tr_sampling req \<rparr>)"
proof (cases "fp_script p")
  case Nil
  then have "(\<exists>e. fake_complete req p = (Err e, p)) \<or>
      fake_complete req p = (Ok empty_turn, p\<lparr> fp_script := [], fp_complete_calls := fp_complete_calls p + 1,
                                              fp_last_sampling := tr_sampling req \<rparr>)"
    by (auto simp: fake_complete_def Let_def empty_turn_def split: result.splits)
  with error spent [OF Nil] show thesis by blast
next
  case (Cons t ts)
  then have "p\<lparr> fp_script := t # ts \<rparr> = p" by simp
  with Cons have "(\<exists>e. fake_complete req p = (Err e, p)) \<or>
      fake_complete req p = (Ok t, p\<lparr> fp_script := ts, fp_complete_calls := fp_complete_calls p + 1,
                                      fp_last_sampling := tr_sampling req \<rparr>)"
    by (auto simp: fake_complete_def Let_def split: result.splits)
  with error turn [OF Cons] show thesis by blast
qed

section \<open>Properties\<close>

text \<open>
  The scripted provider neither loses, repeats nor reorders a turn: whatever requests are made,
  refused or timed out ones included, the turns handed out followed by the remaining script are the
  original script, padded by empty turns only once the script is spent; the call counter counts
  exactly the turns handed out.
\<close>

theorem fake_provider_conserves_script:
  "complete_many rs p = (turns, p') \<Longrightarrow>
   \<exists>k. turns @ fp_script p' = fp_script p @ replicate k empty_turn
     \<and> (0 < k \<longrightarrow> fp_script p' = [])
     \<and> fp_complete_calls p' = fp_complete_calls p + of_nat (length turns)"
proof (induction rs arbitrary: p turns)
  case (Cons r rs)
  obtain res p1 where c: "fake_complete r p = (res, p1)" by fastforce
  obtain ts where m: "complete_many rs p1 = (ts, p')"
    and turns: "turns = (case res of Ok t \<Rightarrow> t # ts | Err _ \<Rightarrow> ts)"
    using Cons.prems c by (auto split: prod.splits)
  from Cons.IH [OF m] obtain k where k: "ts @ fp_script p' = fp_script p1 @ replicate k empty_turn"
    "0 < k \<longrightarrow> fp_script p' = []" "fp_complete_calls p' = fp_complete_calls p1 + of_nat (length ts)"
    by blast
  show ?case
  proof (cases rule: fake_complete_cases [of r p])
    case (error e)
    with c turns k show ?thesis by auto
  next
    case spent
    with c turns k have "turns @ fp_script p' = fp_script p @ replicate (Suc k) empty_turn" by auto
    moreover from spent c k(1,2) have "fp_script p' = []" by (cases k) auto
    moreover from spent c turns k(3)
    have "fp_complete_calls p' = fp_complete_calls p + of_nat (length turns)" by (auto simp: algebra_simps)
    ultimately show ?thesis by blast
  next
    case (turn t us)
    with c turns k show ?thesis by (auto simp: algebra_simps)
  qed
qed simp

definition sample_turn :: provider_turn where
  "sample_turn = empty_turn\<lparr> pt_text := ''hi'', pt_latency_ms := 10 \<rparr>"

definition sample_turn_request :: "u64 \<Rightarrow> turn_request" where
  "sample_turn_request timeout_ms =
     \<lparr> tr_model = ''m'', tr_messages = [message_user ''q''], tr_context_refs = [], tr_tools = [],
       tr_budget_bytes = 8, tr_timeout_ms = timeout_ms, tr_now_ms = 0, tr_sampling = None \<rparr>"

theorem fake_provider_conserves_script_witness:
  "let p = \<lparr> fp_id = ''p'', fp_models = [\<lparr> md_name = ''m'', md_capabilities = [MC_Text] \<rparr>],
             fp_script = [sample_turn], fp_complete_calls = 0, fp_last_sampling = None \<rparr>;
       (turns, p') = complete_many (map sample_turn_request [5, 20, 20]) p
   in turns = [sample_turn, empty_turn] \<and> fp_complete_calls p' = 2
      \<and> (\<exists>k. turns @ fp_script p' = fp_script p @ replicate k empty_turn)"
proof -
  define p where "p = \<lparr> fp_id = ''p'', fp_models = [\<lparr> md_name = ''m'', md_capabilities = [MC_Text] \<rparr>],
             fp_script = [sample_turn], fp_complete_calls = 0, fp_last_sampling = None \<rparr>"
  have run: "complete_many (map sample_turn_request [5, 20, 20]) p
      = ([sample_turn, empty_turn], p\<lparr> fp_script := [], fp_complete_calls := 2 \<rparr>)"
    by (simp add: p_def fake_complete_def check_timeout_def check_sampling_def sample_turn_request_def
        total_message_bytes_def message_user_def sample_turn_def empty_turn_def
        MAX_REQUEST_TIMEOUT_MS_def)
  show ?thesis
    using fake_provider_conserves_script [OF run] run by (auto simp: p_def [symmetric] Let_def)
qed

text \<open>
  A sampling block is accepted exactly when every option it sets is in its range: the seven real
  parameters are finite and in their closed intervals, the counts are at least one, stop sequences
  and the schema are bounded, and the reasoning budget stays below the token limit. Every refusal is
  the same error, which names no value of the block.
\<close>

theorem sampling_accepted_iff_in_range:
  "validate_sampling params = (if
     pred_option (\<lambda>v. \<exists>q. v = F_Finite q \<and> 0 \<le> q \<and> q \<le> 2) (sp_temperature params)
     \<and> pred_option (\<lambda>v. \<exists>q. v = F_Finite q \<and> 0 \<le> q \<and> q \<le> 1) (sp_top_p params)
     \<and> pred_option (\<lambda>v. 0 \<le> sint v) (sp_top_k params)
     \<and> pred_option (\<lambda>v. \<exists>q. v = F_Finite q \<and> - 2 \<le> q \<and> q \<le> 2) (sp_frequency_penalty params)
     \<and> pred_option (\<lambda>v. \<exists>q. v = F_Finite q \<and> - 2 \<le> q \<and> q \<le> 2) (sp_presence_penalty params)
     \<and> pred_option (\<lambda>v. \<exists>q. v = F_Finite q \<and> 0 \<le> q \<and> q \<le> 2) (sp_repetition_penalty params)
     \<and> pred_option (\<lambda>v. \<exists>q. v = F_Finite q \<and> 0 \<le> q \<and> q \<le> 1) (sp_min_p params)
     \<and> pred_option (\<lambda>v. v \<noteq> 0) (sp_max_tokens params)
     \<and> pred_option (\<lambda>ss. length ss \<le> 8 \<and> list_all (\<lambda>s. length s \<le> 256) ss) (sp_stop params)
     \<and> (\<nexists>schema. sp_response_format params = Some (RF_JsonSchema (Some schema)) \<and> length schema > 16384)
     \<and> (\<nexists>r b. sp_reasoning params = Some r \<and> rc_max_tokens r = Some b
          \<and> (b = 0 \<or> (\<exists>m. sp_max_tokens params = Some m \<and> b \<ge> m)))
   then Ok () else Err PE_InvalidSampling)"
proof -
  have guard: "guard_option v test = (if pred_option test v then Ok () else Err PE_InvalidSampling)"
    for v :: "'b option" and test
    by (cases v) (auto simp: guard_option_def)
  have schema: "(case f of Some (RF_JsonSchema (Some schema)) \<Rightarrow>
        if length schema > MAX_RESPONSE_SCHEMA_BYTES then Err PE_InvalidSampling else Ok ()
      | _ \<Rightarrow> Ok ()) = (if \<nexists>schema. f = Some (RF_JsonSchema (Some schema)) \<and> length schema > 16384
                       then Ok () else Err PE_InvalidSampling)" for f
    by (auto simp: MAX_RESPONSE_SCHEMA_BYTES_def split: option.splits response_format.splits)
  have pos: "v < 1 \<longleftrightarrow> v = 0" for v :: u32
    by (metis word_less_1)
  have reasoning: "(case r of None \<Rightarrow> Ok () | Some reasoning \<Rightarrow>
        (case rc_max_tokens reasoning of None \<Rightarrow> Ok () | Some budget \<Rightarrow>
           if budget < MIN_REASONING_TOKENS then Err PE_InvalidSampling
           else (case m of None \<Rightarrow> Ok () | Some max_tokens \<Rightarrow>
                   if budget \<ge> max_tokens then Err PE_InvalidSampling else Ok ())))
      = (if \<nexists>c b. r = Some c \<and> rc_max_tokens c = Some b \<and> (b = 0 \<or> (\<exists>t. m = Some t \<and> b \<ge> t))
         then Ok () else Err PE_InvalidSampling)" for r :: "reasoning_config option" and m
    by (auto simp: pos MIN_REASONING_TOKENS_def split: option.splits)
  have seq: "and_then (if a then Ok () else Err x) (\<lambda>_. if b then Ok () else Err x)
      = (if a \<and> b then Ok () else Err x)" for a b and x :: provider_error
    by simp
  show ?thesis
    unfolding validate_sampling_def guard schema reasoning seq
    by (simp add: in_closed_interval_iff MIN_MAX_TOKENS_def pos MAX_STOP_SEQUENCES_def
        MAX_STOP_SEQUENCE_BYTES_def not_less list_ex_iff list_all_iff)
qed

end
