(* ===== verification/Selection.thy ===== *)
theory Selection
  imports Provider "HOL-Library.Char_ord" "HOL-Library.List_Lexorder" "HOL-Library.Product_Lexorder"
begin

text \<open>
  The model registry and capability-based selection (\<open>bitty-ai-runtime/src/selection.rs\<close>). Rust
  compares strings by their bytes, which is the lexicographic order on lists of \<^typ>\<open>char\<close>; the
  stable \<open>sort_by\<close> of \<open>entries\<close> is \<^const>\<open>sort_key\<close>.
\<close>

section \<open>Names and registrations\<close>

definition MAX_MODEL_NAME_LEN :: nat where
  "MAX_MODEL_NAME_LEN = 128"

definition MAX_REGISTERED_MODELS :: nat where
  "MAX_REGISTERED_MODELS = 64"

definition MAX_ALIASES :: nat where
  "MAX_ALIASES = 32"

definition MAX_ALIAS_CANDIDATES :: nat where
  "MAX_ALIAS_CANDIDATES = 8"

datatype selection_error =
  SLE_InvalidProviderId string
| SLE_InvalidName string
| SLE_NoCapabilities string
| SLE_DuplicateModel string string
| SLE_ConflictingModel string string
| SLE_RegistryFull nat
| SLE_DuplicateAlias string
| SLE_EmptyAlias string
| SLE_TooManyCandidates string nat nat
| SLE_AliasesFull nat
| SLE_UnknownAlias string
| SLE_EmptyRequirement
| SLE_NoCandidate string

definition model_name_char :: "char \<Rightarrow> bool" where
  "model_name_char b \<longleftrightarrow> is_ascii_lowercase b \<or> is_ascii_digit b \<or> b \<in> set ''_-.:/''"

definition valid_model_name :: "string \<Rightarrow> bool" where
  "valid_model_name name \<longleftrightarrow>
     name \<noteq> [] \<and> length name \<le> MAX_MODEL_NAME_LEN
     \<and> (case name of [] \<Rightarrow> False | b # _ \<Rightarrow> is_ascii_lowercase b \<or> is_ascii_digit b)
     \<and> list_all model_name_char name"

definition validate_model_name :: "string \<Rightarrow> (unit, selection_error) result" where
  "validate_model_name name = (if valid_model_name name then Ok () else Err (SLE_InvalidName name))"

text \<open>\<open>validate_provider_id(id).map_err(...)\<close>, as the registry calls it.\<close>

definition check_provider_id :: "string \<Rightarrow> (unit, selection_error) result" where
  "check_provider_id i = map_err (\<lambda>_. SLE_InvalidProviderId i) (validate_provider_id i)"

record registered_model =
  rm_provider_id :: string
  rm_name :: string
  rm_capabilities :: "model_capability list"
  rm_context_window_tokens :: u32
  rm_input_cost_weight :: u32
  rm_output_cost_weight :: u32

text \<open>A registration and a selection carry the same six fields as a registry entry.\<close>

type_synonym model_registration = registered_model
type_synonym selected_model = registered_model

definition registration_new ::
  "string \<Rightarrow> string \<Rightarrow> model_capability list \<Rightarrow> u32 \<Rightarrow> u32 \<Rightarrow> u32
     \<Rightarrow> (model_registration, selection_error) result" where
  "registration_new provider_id name capabilities window input_weight output_weight =
     and_then (check_provider_id provider_id) (\<lambda>_.
     and_then (validate_model_name name) (\<lambda>_.
     if capabilities = [] then Err (SLE_NoCapabilities name)
     else Ok \<lparr> rm_provider_id = provider_id, rm_name = name, rm_capabilities = capabilities,
               rm_context_window_tokens = window, rm_input_cost_weight = input_weight,
               rm_output_cost_weight = output_weight \<rparr>))"

definition snapshot_from ::
  "string \<Rightarrow> model_descriptor \<Rightarrow> u32 \<Rightarrow> u32 \<Rightarrow> u32 \<Rightarrow> (model_registration, selection_error) result" where
  "snapshot_from provider_id descriptor =
     registration_new provider_id (md_name descriptor) (md_capabilities descriptor)"

record model_ref =
  mf_provider_id :: string
  mf_model :: string

definition model_ref_new :: "string \<Rightarrow> string \<Rightarrow> (model_ref, selection_error) result" where
  "model_ref_new provider_id model =
     and_then (check_provider_id provider_id) (\<lambda>_.
     and_then (validate_model_name model) (\<lambda>_.
     Ok \<lparr> mf_provider_id = provider_id, mf_model = model \<rparr>))"

record model_alias =
  ma_alias :: string
  ma_candidates :: "model_ref list"

section \<open>The registry\<close>

record provider_registry =
  pr_models :: "registered_model list"
  pr_aliases :: "model_alias list"
  pr_revision :: u64

definition provider_registry_new :: provider_registry where
  "provider_registry_new = \<lparr> pr_models = [], pr_aliases = [], pr_revision = 0 \<rparr>"

definition model_key :: "registered_model \<Rightarrow> string \<times> string" where
  "model_key e = (rm_provider_id e, rm_name e)"

definition model_register ::
  "provider_registry \<Rightarrow> model_registration \<Rightarrow> (unit, selection_error) result \<times> provider_registry" where
  "model_register reg m =
     (case find (\<lambda>kept. model_key kept = model_key m) (pr_models reg) of
        Some kept \<Rightarrow>
          if rm_capabilities kept = rm_capabilities m
             \<and> rm_context_window_tokens kept = rm_context_window_tokens m
             \<and> rm_input_cost_weight kept = rm_input_cost_weight m
             \<and> rm_output_cost_weight kept = rm_output_cost_weight m
          then (Err (SLE_DuplicateModel (rm_provider_id m) (rm_name m)), reg)
          else (Err (SLE_ConflictingModel (rm_provider_id m) (rm_name m)), reg)
      | None \<Rightarrow>
     (case check_provider_id (rm_provider_id m) of Err e \<Rightarrow> (Err e, reg) | Ok _ \<Rightarrow>
     (case validate_model_name (rm_name m) of Err e \<Rightarrow> (Err e, reg) | Ok _ \<Rightarrow>
     if rm_capabilities m = [] then (Err (SLE_NoCapabilities (rm_name m)), reg)
     else if length (pr_models reg) \<ge> MAX_REGISTERED_MODELS
     then (Err (SLE_RegistryFull MAX_REGISTERED_MODELS), reg)
     else (Ok (), reg\<lparr> pr_models := pr_models reg @ [m],
                       pr_revision := saturating_add (pr_revision reg) 1 \<rparr>))))"

definition register_alias ::
  "provider_registry \<Rightarrow> string \<Rightarrow> model_ref list \<Rightarrow> (unit, selection_error) result \<times> provider_registry" where
  "register_alias reg alias candidates =
     (if list_ex (\<lambda>kept. ma_alias kept = alias) (pr_aliases reg)
      then (Err (SLE_DuplicateAlias alias), reg)
      else case validate_model_name alias of Err e \<Rightarrow> (Err e, reg) | Ok _ \<Rightarrow>
      if candidates = [] then (Err (SLE_EmptyAlias alias), reg)
      else if length candidates > MAX_ALIAS_CANDIDATES
      then (Err (SLE_TooManyCandidates alias MAX_ALIAS_CANDIDATES (length candidates)), reg)
      else case check_all (\<lambda>c. and_then (check_provider_id (mf_provider_id c))
                                       (\<lambda>_. validate_model_name (mf_model c))) candidates of
        Err e \<Rightarrow> (Err e, reg)
      | Ok _ \<Rightarrow>
        if length (pr_aliases reg) \<ge> MAX_ALIASES then (Err (SLE_AliasesFull MAX_ALIASES), reg)
        else (Ok (), reg\<lparr> pr_aliases := pr_aliases reg @ [\<lparr> ma_alias = alias, ma_candidates = candidates \<rparr>],
                          pr_revision := saturating_add (pr_revision reg) 1 \<rparr>))"

definition model_lookup :: "provider_registry \<Rightarrow> string \<Rightarrow> string \<Rightarrow> registered_model option" where
  "model_lookup reg provider_id name = find (\<lambda>e. model_key e = (provider_id, name)) (pr_models reg)"

definition entries :: "provider_registry \<Rightarrow> registered_model list" where
  "entries reg = sort_key model_key (pr_models reg)"

definition resolve_alias :: "provider_registry \<Rightarrow> string \<Rightarrow> (model_ref list, selection_error) result" where
  "resolve_alias reg alias =
     (case find (\<lambda>e. ma_alias e = alias) (pr_aliases reg) of
        Some e \<Rightarrow> Ok (ma_candidates e)
      | None \<Rightarrow> Err (SLE_UnknownAlias alias))"

section \<open>Costs and selection\<close>

definition effective_cost_weight :: "u32 \<Rightarrow> u32" where
  "effective_cost_weight weight = (if weight = 0 then 1 else weight)"

definition estimate_cost :: "u64 \<Rightarrow> u64 \<Rightarrow> u32 \<Rightarrow> u32 \<Rightarrow> u64" where
  "estimate_cost input_tokens output_tokens input_weight output_weight =
     saturating_add (saturating_mul input_tokens (ucast (effective_cost_weight input_weight)))
       (saturating_mul output_tokens (ucast (effective_cost_weight output_weight)))"

record select_request =
  sr_required :: "model_capability list"
  sr_alias :: "string option"
  sr_min_context_window_tokens :: "u32 option"
  sr_max_cost_weight :: "u32 option"

definition request_matches :: "select_request \<Rightarrow> registered_model \<Rightarrow> bool" where
  "request_matches req e =
     (if \<not> list_all (\<lambda>c. c \<in> set (rm_capabilities e)) (sr_required req) then False
      else if (case sr_min_context_window_tokens req of
                 None \<Rightarrow> False | Some minimum \<Rightarrow> rm_context_window_tokens e < minimum) then False
      else if (case sr_max_cost_weight req of
                 None \<Rightarrow> False
               | Some maximum \<Rightarrow> effective_cost_weight (rm_input_cost_weight e) > maximum
                                  \<or> effective_cost_weight (rm_output_cost_weight e) > maximum) then False
      else True)"

definition request_describe :: "select_request \<Rightarrow> string" where
  "request_describe req =
     show_nat (length (sr_required req)) @ '' capabilities''
     @ (case sr_alias req of None \<Rightarrow> [] | Some alias \<Rightarrow> '' alias='' @ alias)
     @ (case sr_min_context_window_tokens req of None \<Rightarrow> [] | Some m \<Rightarrow> '' min_window='' @ show_nat (unat m))
     @ (case sr_max_cost_weight req of None \<Rightarrow> [] | Some m \<Rightarrow> '' max_cost='' @ show_nat (unat m))"

text \<open>The loop over the candidates of an alias.\<close>

fun alias_chain ::
  "provider_registry \<Rightarrow> select_request \<Rightarrow> model_ref list \<Rightarrow> selected_model list" where
  "alias_chain reg req [] = []"
| "alias_chain reg req (c # cs) =
     (case model_lookup reg (mf_provider_id c) (mf_model c) of
        Some e \<Rightarrow> if request_matches req e then e # alias_chain reg req cs else alias_chain reg req cs
      | None \<Rightarrow> alias_chain reg req cs)"

definition select ::
  "provider_registry \<Rightarrow> select_request \<Rightarrow> (selected_model list, selection_error) result" where
  "select reg req =
     (if sr_required req = [] then Err SLE_EmptyRequirement
      else and_then
        (case sr_alias req of
           Some alias \<Rightarrow> and_then (resolve_alias reg alias) (\<lambda>cs. Ok (alias_chain reg req cs))
         | None \<Rightarrow> Ok (filter (request_matches req) (entries reg)))
        (\<lambda>chain. if chain = [] then Err (SLE_NoCandidate (request_describe req)) else Ok chain))"

datatype fallback_directive = FD_Advance | FD_Stop

fun fallback_directive_of :: "provider_error \<Rightarrow> fallback_directive" where
  "fallback_directive_of (PE_Transport _ _) = FD_Advance"
| "fallback_directive_of (PE_RateLimited _ _) = FD_Advance"
| "fallback_directive_of (PE_ModelUnavailable _ _) = FD_Advance"
| "fallback_directive_of (PE_Timeout _ _) = FD_Advance"
| "fallback_directive_of _ = FD_Stop"

section \<open>The registry invariant\<close>

definition model_ok :: "registered_model \<Rightarrow> bool" where
  "model_ok m \<longleftrightarrow> valid_provider_id (rm_provider_id m) \<and> valid_model_name (rm_name m) \<and> rm_capabilities m \<noteq> []"

definition alias_ok :: "model_alias \<Rightarrow> bool" where
  "alias_ok a \<longleftrightarrow> valid_model_name (ma_alias a) \<and> ma_candidates a \<noteq> []
     \<and> length (ma_candidates a) \<le> MAX_ALIAS_CANDIDATES
     \<and> (\<forall>c \<in> set (ma_candidates a). valid_provider_id (mf_provider_id c) \<and> valid_model_name (mf_model c))"

definition provider_registry_inv :: "provider_registry \<Rightarrow> bool" where
  "provider_registry_inv reg \<longleftrightarrow>
     distinct (map model_key (pr_models reg)) \<and> distinct (map ma_alias (pr_aliases reg))
     \<and> length (pr_models reg) \<le> MAX_REGISTERED_MODELS \<and> length (pr_aliases reg) \<le> MAX_ALIASES
     \<and> (\<forall>m \<in> set (pr_models reg). model_ok m) \<and> (\<forall>a \<in> set (pr_aliases reg). alias_ok a)
     \<and> unat (pr_revision reg) = length (pr_models reg) + length (pr_aliases reg)"

inductive registry_step :: "provider_registry \<Rightarrow> provider_registry \<Rightarrow> bool" where
  step_register: "registry_step reg (snd (model_register reg m))"
| step_alias: "registry_step reg (snd (register_alias reg alias candidates))"

abbreviation registry_reaches :: "provider_registry \<Rightarrow> provider_registry \<Rightarrow> bool" where
  "registry_reaches \<equiv> registry_step\<^sup>*\<^sup>*"

lemma check_provider_id_Ok [result_simps]: "check_provider_id i = Ok u \<longleftrightarrow> valid_provider_id i"
  by (simp add: check_provider_id_def result_simps)

lemma validate_model_name_Ok [result_simps]: "validate_model_name name = Ok u \<longleftrightarrow> valid_model_name name"
  by (simp add: validate_model_name_def)

text \<open>What a registration does: nothing, or one model more under a new key.\<close>

lemma model_register_cases:
  obtains (error) e where "model_register reg m = (Err e, reg)"
      "\<not> model_ok m \<or> model_key m \<in> set (map model_key (pr_models reg))
       \<or> MAX_REGISTERED_MODELS \<le> length (pr_models reg)"
  | (added) "model_register reg m = (Ok (), reg\<lparr> pr_models := pr_models reg @ [m],
                pr_revision := saturating_add (pr_revision reg) 1 \<rparr>)"
      "model_ok m" "model_key m \<notin> set (map model_key (pr_models reg))"
      "length (pr_models reg) < MAX_REGISTERED_MODELS"
proof (cases "find (\<lambda>kept. model_key kept = model_key m) (pr_models reg)")
  case None
  then have new: "model_key m \<notin> set (map model_key (pr_models reg))"
    by (simp add: find_key_None_iff)
  show thesis
  proof (cases "model_ok m \<and> length (pr_models reg) < MAX_REGISTERED_MODELS")
    case True
    then show thesis using added [OF _ _ new] None
      by (auto simp: model_register_def model_ok_def check_provider_id_def validate_provider_id_def
          validate_model_name_def)
  next
    case False
    then have "\<exists>e. model_register reg m = (Err e, reg)"
      using None by (auto simp: model_register_def model_ok_def check_provider_id_def
          validate_provider_id_def validate_model_name_def)
    with False show thesis using error by auto
  qed
next
  case (Some kept)
  then have "model_key m \<in> set (map model_key (pr_models reg))"
    using find_key_None_iff [of model_key "model_key m" "pr_models reg"] by simp
  moreover from Some have "\<exists>e. model_register reg m = (Err e, reg)" by (simp add: model_register_def)
  ultimately show thesis using error by blast
qed

lemma register_alias_cases:
  obtains (error) e where "register_alias reg alias cs = (Err e, reg)"
  | (added) "register_alias reg alias cs = (Ok (), reg\<lparr>
                pr_aliases := pr_aliases reg @ [\<lparr> ma_alias = alias, ma_candidates = cs \<rparr>],
                pr_revision := saturating_add (pr_revision reg) 1 \<rparr>)"
      "alias_ok \<lparr> ma_alias = alias, ma_candidates = cs \<rparr>" "alias \<notin> set (map ma_alias (pr_aliases reg))"
      "length (pr_aliases reg) < MAX_ALIASES"
proof -
  let ?check = "check_all (\<lambda>c. and_then (check_provider_id (mf_provider_id c))
                              (\<lambda>_. validate_model_name (mf_model c))) cs"
  let ?ok = "alias_ok \<lparr> ma_alias = alias, ma_candidates = cs \<rparr> \<and> alias \<notin> set (map ma_alias (pr_aliases reg))
      \<and> length (pr_aliases reg) < MAX_ALIASES"
  have check: "?check = Ok () \<longleftrightarrow> (\<forall>c \<in> set cs. valid_provider_id (mf_provider_id c) \<and> valid_model_name (mf_model c))"
    by (simp add: result_simps)
  have dup: "list_ex (\<lambda>kept. ma_alias kept = alias) (pr_aliases reg) \<longleftrightarrow> alias \<in> set (map ma_alias (pr_aliases reg))"
    by (simp add: list_ex_key_iff)
  show thesis
  proof (cases ?ok)
    case True
    then have "?check = Ok ()" by (simp add: check alias_ok_def)
    with True show thesis
      using added by (simp add: register_alias_def dup alias_ok_def validate_model_name_def)
  next
    case False
    have "\<exists>e. register_alias reg alias cs = (Err e, reg)"
    proof (cases "?check" rule: result_unit_cases)
      case Ok
      from this [unfolded check] False
      have "\<not> valid_model_name alias \<or> cs = [] \<or> MAX_ALIAS_CANDIDATES < length cs
          \<or> alias \<in> set (map ma_alias (pr_aliases reg)) \<or> MAX_ALIASES \<le> length (pr_aliases reg)"
        by (auto simp: alias_ok_def)
      then show ?thesis
        unfolding register_alias_def dup Ok by (auto simp: validate_model_name_def)
    next
      case (Err e)
      show ?thesis unfolding register_alias_def dup Err by (auto simp: validate_model_name_def)
    qed
    then show thesis using error by blast
  qed
qed

lemma unat_widen: "unat (ucast (y :: u32) :: u64) = unat y"
proof -
  have "unat y < 2 ^ LENGTH(32)" by (rule unsigned_less)
  then show ?thesis by (simp add: unsigned_ucast_eq take_bit_nat_eq_self)
qed

lemma revision_bump:
  "unat r < 2 ^ 64 - 1 \<Longrightarrow> unat (saturating_add r 1 :: u64) = Suc (unat r)"
  by (simp add: unat_saturating_add)

lemma registry_step_inv:
  assumes "registry_step reg reg'" "provider_registry_inv reg"
  shows "provider_registry_inv reg'"
  using assms(1)
proof cases
  case (step_register m)
  show ?thesis
  proof (cases rule: model_register_cases [of reg m])
    case added
    then show ?thesis using assms(2) step_register
      by (auto simp: provider_registry_inv_def revision_bump MAX_REGISTERED_MODELS_def MAX_ALIASES_def)
  qed (use step_register assms(2) in simp)
next
  case (step_alias al cs)
  show ?thesis
  proof (cases rule: register_alias_cases [of reg al cs])
    case added
    then show ?thesis using assms(2) step_alias
      by (auto simp: provider_registry_inv_def revision_bump MAX_REGISTERED_MODELS_def MAX_ALIASES_def)
  qed (use step_alias assms(2) in simp)
qed

lemma registry_new_inv: "provider_registry_inv provider_registry_new"
  by (simp add: provider_registry_inv_def provider_registry_new_def)

lemma registry_reaches_inv:
  "registry_reaches provider_registry_new reg \<Longrightarrow> provider_registry_inv reg"
  by (induction rule: rtranclp_induct) (auto intro: registry_new_inv registry_step_inv)

section \<open>Selection as a set\<close>

lemma entries_sorted:
  assumes "provider_registry_inv reg"
  shows "set (entries reg) = set (pr_models reg)" "sorted_wrt (\<lambda>a b. model_key a < model_key b) (entries reg)"
  using assms by (simp_all add: entries_def provider_registry_inv_def strict_sort_key)

lemma lookup_iff:
  assumes "provider_registry_inv reg"
  shows "model_lookup reg p n = Some e \<longleftrightarrow> e \<in> set (pr_models reg) \<and> model_key e = (p, n)"
  unfolding model_lookup_def
  by (rule find_key_distinct) (use assms in \<open>simp add: provider_registry_inv_def\<close>)

lemma alias_chain_keys:
  assumes "provider_registry_inv reg"
  shows "map model_key (alias_chain reg req cs) =
           filter (\<lambda>k. \<exists>e \<in> set (pr_models reg). model_key e = k \<and> request_matches req e)
             (map (\<lambda>c. (mf_provider_id c, mf_model c)) cs)"
    and "set (alias_chain reg req cs) \<subseteq> set (pr_models reg)"
proof (induction cs)
  case (Cons c cs)
  have hit: "(\<exists>e \<in> set (pr_models reg). model_key e = (mf_provider_id c, mf_model c) \<and> request_matches req e)
      \<longleftrightarrow> (\<exists>e. model_lookup reg (mf_provider_id c) (mf_model c) = Some e \<and> request_matches req e)"
    using lookup_iff [OF assms] by blast
  have key: "model_lookup reg (mf_provider_id c) (mf_model c) = Some e \<Longrightarrow>
      e \<in> set (pr_models reg) \<and> model_key e = (mf_provider_id c, mf_model c)" for e
    using lookup_iff [OF assms] by blast
  case 1
  show ?case
  proof (cases "model_lookup reg (mf_provider_id c) (mf_model c)")
    case None
    with Cons(1) show ?thesis unfolding alias_chain.simps list.map filter.simps hit by simp
  next
    case (Some e)
    with Cons(1) key [OF Some] show ?thesis unfolding alias_chain.simps list.map filter.simps hit by simp
  qed
  case 2
  show ?case
  proof (cases "model_lookup reg (mf_provider_id c) (mf_model c)")
    case None
    with Cons(2) show ?thesis by simp
  next
    case (Some e)
    with Cons(2) key [OF Some] show ?thesis by simp
  qed
qed simp_all

section \<open>A worked example\<close>

definition sample_model :: "string \<Rightarrow> registered_model" where
  "sample_model name =
     \<lparr> rm_provider_id = ''p'', rm_name = name, rm_capabilities = [MC_Text], rm_context_window_tokens = 9,
       rm_input_cost_weight = 0, rm_output_cost_weight = 2 \<rparr>"

definition sample_registry :: provider_registry where
  "sample_registry =
     snd (register_alias (snd (model_register (snd (model_register provider_registry_new (sample_model ''b'')))
       (sample_model ''a''))) ''fast'' [\<lparr> mf_provider_id = ''p'', mf_model = ''b'' \<rparr>])"

definition sample_select :: "string option \<Rightarrow> select_request" where
  "sample_select al = \<lparr> sr_required = [MC_Text], sr_alias = al, sr_min_context_window_tokens = Some 8,
     sr_max_cost_weight = None \<rparr>"

lemma sample_registry_reached: "registry_reaches provider_registry_new sample_registry"
  unfolding sample_registry_def
  by (meson step_register step_alias rtranclp.rtrancl_refl rtranclp.rtrancl_into_rtrancl)

lemma sample_registry_eq:
  "sample_registry = \<lparr> pr_models = [sample_model ''b'', sample_model ''a''],
     pr_aliases = [\<lparr> ma_alias = ''fast'', ma_candidates = [\<lparr> mf_provider_id = ''p'', mf_model = ''b'' \<rparr>] \<rparr>],
     pr_revision = 3 \<rparr>"
  by (simp add: sample_registry_def model_register_def register_alias_def provider_registry_new_def
      sample_model_def model_key_def check_provider_id_def validate_provider_id_def valid_provider_id_def
      provider_id_char_def validate_model_name_def valid_model_name_def model_name_char_def ascii_class_defs
      MAX_PROVIDER_ID_LEN_def MAX_MODEL_NAME_LEN_def MAX_REGISTERED_MODELS_def MAX_ALIASES_def
      MAX_ALIAS_CANDIDATES_def saturating_add_def)

lemma sample_matches: "request_matches (sample_select al) (sample_model n)"
  by (simp add: request_matches_def sample_select_def sample_model_def)

section \<open>Properties\<close>

text \<open>
  Selection without an alias returns exactly the registered models that match the request, in
  strictly ascending (provider, name) order, and fails exactly when none does. The result therefore
  does not depend on the order of registration.
\<close>

theorem selection_is_sorted_matches:
  assumes "registry_reaches provider_registry_new reg" "sr_alias req = None" "sr_required req \<noteq> []"
  shows "(select reg req = Ok chain \<longleftrightarrow>
            chain \<noteq> [] \<and> set chain = {e \<in> set (pr_models reg). request_matches req e}
            \<and> sorted_wrt (\<lambda>a b. model_key a < model_key b) chain)
         \<and> (is_ok (select reg req) \<longleftrightarrow> (\<exists>e \<in> set (pr_models reg). request_matches req e))
         \<and> (\<forall>reg'. registry_reaches provider_registry_new reg' \<longrightarrow> set (pr_models reg') = set (pr_models reg)
              \<longrightarrow> select reg' req = select reg req)"
proof -
  let ?chain = "\<lambda>reg. filter (request_matches req) (entries reg)"
  have sel: "select r req = (if ?chain r = [] then Err (SLE_NoCandidate (request_describe req)) else Ok (?chain r))"
    for r using assms(2,3) by (simp add: select_def)
  have chain: "set (?chain r) = {e \<in> set (pr_models r). request_matches req e}"
      "sorted_wrt (\<lambda>a b. model_key a < model_key b) (?chain r)"
    if "registry_reaches provider_registry_new r" for r
    using entries_sorted [OF registry_reaches_inv [OF that]] by (auto intro: sorted_wrt_filter)
  have eq: "?chain r = c" if "registry_reaches provider_registry_new r"
    "set c = {e \<in> set (pr_models r). request_matches req e}"
    "sorted_wrt (\<lambda>a b. model_key a < model_key b) c" for r c
    using chain [OF that(1)] that(2,3) by (intro strict_key_sorted_unique) auto
  have other: "select reg' req = select reg req"
    if "registry_reaches provider_registry_new reg'" "set (pr_models reg') = set (pr_models reg)" for reg'
    using eq [OF assms(1) _ chain(2) [OF that(1)]] chain(1) [OF that(1)] that(2) by (simp add: sel)
  have "?chain reg = chain \<longleftrightarrow> set chain = {e \<in> set (pr_models reg). request_matches req e}
      \<and> sorted_wrt (\<lambda>a b. model_key a < model_key b) chain"
    using eq [OF assms(1)] chain [OF assms(1)] by blast
  moreover have "select reg req = Ok chain \<longleftrightarrow> chain \<noteq> [] \<and> ?chain reg = chain"
    by (auto simp: sel)
  moreover have "is_ok (select reg req) \<longleftrightarrow> (\<exists>e \<in> set (pr_models reg). request_matches req e)"
    using chain(1) [OF assms(1)] by (auto simp: sel simp flip: set_empty)
  ultimately show ?thesis using other by blast
qed

theorem selection_is_sorted_matches_witness:
  "select sample_registry (sample_select None) = Ok [sample_model ''a'', sample_model ''b'']"
proof -
  have "sr_alias (sample_select None) = None" "sr_required (sample_select None) \<noteq> []"
    by (simp_all add: sample_select_def)
  note sel = selection_is_sorted_matches [OF sample_registry_reached this]
  have "[sample_model ''a'', sample_model ''b''] \<noteq> []
      \<and> set [sample_model ''a'', sample_model ''b'']
          = {e \<in> set (pr_models sample_registry). request_matches (sample_select None) e}
      \<and> sorted_wrt (\<lambda>a b. model_key a < model_key b) [sample_model ''a'', sample_model ''b'']"
    using sample_matches by (auto simp: sample_registry_eq model_key_def sample_model_def less_char_def)
  with sel show ?thesis by blast
qed

text \<open>
  Selection through an alias keeps the operator's order: the chain names exactly those
  candidates, in candidate order, that are registered and match; it contains registered models only.
\<close>

theorem alias_selection_keeps_order:
  assumes "registry_reaches provider_registry_new reg" "sr_alias req = Some alias"
    and "select reg req = Ok chain"
  shows "\<exists>cs. resolve_alias reg alias = Ok cs \<and> length cs \<le> MAX_ALIAS_CANDIDATES
           \<and> chain \<noteq> [] \<and> set chain \<subseteq> set (pr_models reg)
           \<and> map model_key chain =
               filter (\<lambda>k. \<exists>e \<in> set (pr_models reg). model_key e = k \<and> request_matches req e)
                 (map (\<lambda>c. (mf_provider_id c, mf_model c)) cs)"
proof -
  note inv = registry_reaches_inv [OF assms(1)]
  from assms(2,3) obtain cs where cs: "resolve_alias reg alias = Ok cs" "chain = alias_chain reg req cs"
    "chain \<noteq> []"
    by (auto simp: select_def result_simps split: if_splits)
  from cs(1) obtain a where a: "find (\<lambda>e. ma_alias e = alias) (pr_aliases reg) = Some a" "cs = ma_candidates a"
    by (auto simp: resolve_alias_def split: option.splits)
  from find_key_Some [OF a(1)] inv have "alias_ok a" by (simp add: provider_registry_inv_def)
  with a(2) cs alias_chain_keys [OF inv] show ?thesis by (auto simp: alias_ok_def)
qed

theorem alias_selection_keeps_order_witness:
  "select sample_registry (sample_select (Some ''fast'')) = Ok [sample_model ''b'']
   \<and> (\<exists>cs. resolve_alias sample_registry ''fast'' = Ok cs \<and> length cs \<le> 8)"
proof -
  have sel: "select sample_registry (sample_select (Some ''fast'')) = Ok [sample_model ''b'']"
    using sample_matches
    by (simp add: select_def sample_select_def resolve_alias_def sample_registry_eq model_lookup_def
        model_key_def sample_model_def)
  have "sr_alias (sample_select (Some ''fast'')) = Some ''fast''" by (simp add: sample_select_def)
  from alias_selection_keeps_order [OF sample_registry_reached this sel] sel show ?thesis
    by (auto simp: MAX_ALIAS_CANDIDATES_def)
qed

text \<open>
  The registry only grows, by accepted entries: on a reachable registry a registration succeeds
  exactly when the model is well formed, its (provider, name) is new and fewer than 64 models are
  registered; it then adds that one key to the lookup and moves the revision by one. A refusal changes
  nothing. The revision is the number of models and aliases accepted.
\<close>

theorem model_register_extends_lookup:
  assumes "registry_reaches provider_registry_new reg" "model_register reg m = (r, reg')"
  shows "(r = Ok () \<longleftrightarrow> model_ok m \<and> model_lookup reg (rm_provider_id m) (rm_name m) = None
            \<and> length (pr_models reg) < MAX_REGISTERED_MODELS)
         \<and> (r = Ok () \<longrightarrow> (\<forall>p n. model_lookup reg' p n =
              (if (p, n) = model_key m then Some m else model_lookup reg p n)))
         \<and> (r \<noteq> Ok () \<longrightarrow> reg' = reg)
         \<and> unat (pr_revision reg') = length (pr_models reg') + length (pr_aliases reg')"
proof -
  note inv = registry_reaches_inv [OF assms(1)]
  have "registry_step reg reg'" using step_register [of reg m] assms(2) by simp
  from registry_step_inv [OF this inv]
  have rev: "unat (pr_revision reg') = length (pr_models reg') + length (pr_aliases reg')"
    by (simp add: provider_registry_inv_def)
  have absent: "model_lookup reg (rm_provider_id m) (rm_name m) = None
      \<longleftrightarrow> model_key m \<notin> set (map model_key (pr_models reg))"
    by (simp add: model_lookup_def find_key_None_iff) (simp add: model_key_def)
  show ?thesis
  proof (cases rule: model_register_cases [of reg m])
    case (error e)
    then have "r = Err e" "reg' = reg" using assms(2) by simp_all
    then show ?thesis using error(2) rev unfolding absent by (simp add: not_less)
  next
    case added
    then have r: "r = Ok ()" and reg': "pr_models reg' = pr_models reg @ [m]" using assms(2) by auto
    have "find (\<lambda>e. model_key e = k) (pr_models reg @ [m]) =
        (if k = model_key m then Some m else find (\<lambda>e. model_key e = k) (pr_models reg))" for k
      using added(3) find_key_None_iff [of model_key "model_key m" "pr_models reg"]
      by (simp add: find_snoc_absent find_snoc_other)
    then have "model_lookup reg' p n = (if (p, n) = model_key m then Some m else model_lookup reg p n)" for p n
      by (simp only: model_lookup_def reg')
    then show ?thesis using added(2-4) r rev unfolding absent by simp
  qed
qed

theorem model_register_extends_lookup_witness:
  "\<exists>reg'. model_register provider_registry_new (sample_model ''a'') = (Ok (), reg')
     \<and> model_lookup reg' ''p'' ''a'' = Some (sample_model ''a'') \<and> unat (pr_revision reg') = 1"
proof -
  obtain r reg' where run: "model_register provider_registry_new (sample_model ''a'') = (r, reg')" by fastforce
  have ok: "r = Ok () \<and> pr_models reg' = [sample_model ''a''] \<and> pr_aliases reg' = []"
    using run
    by (auto simp: model_register_def provider_registry_new_def sample_model_def check_provider_id_def
        validate_provider_id_def valid_provider_id_def provider_id_char_def validate_model_name_def
        valid_model_name_def model_name_char_def ascii_class_defs MAX_PROVIDER_ID_LEN_def
        MAX_MODEL_NAME_LEN_def MAX_REGISTERED_MODELS_def)
  with model_register_extends_lookup [OF _ run] run show ?thesis by (auto simp: model_key_def sample_model_def)
qed

text \<open>
  The cost estimate is the exact weighted sum, capped at the largest 64-bit value: no
  intermediate saturation loses more than the final cap does, and an uncalibrated weight of zero
  counts as one.
\<close>

theorem estimate_cost_exact:
  "unat (estimate_cost i out wi wo) =
     min (unat i * max 1 (unat wi) + unat out * max 1 (unat wo)) (2 ^ 64 - 1)"
proof -
  have w: "unat (ucast (effective_cost_weight x) :: u64) = max 1 (unat x)" for x :: u32
  proof (cases "x = 0")
    case False
    then have "0 < unat x" by (simp add: unat_gt_0)
    with False show ?thesis by (simp add: effective_cost_weight_def unat_widen)
  qed (simp add: effective_cost_weight_def)
  have "min (min a k + min b k) k = min (a + b) k" for a b k :: nat by (simp add: min_def)
  then have "unat (estimate_cost i out wi wo) =
      min (unat i * max 1 (unat wi) + unat out * max 1 (unat wo)) (2 ^ LENGTH(64) - 1)"
    unfolding estimate_cost_def unat_saturating_add unat_saturating_mul w by blast
  then show ?thesis by simp
qed

end
