(* ===== verification/Prompt.thy ===== *)
theory Prompt
  imports Tool_Spec "HOL-Library.Char_ord" "HOL-Library.List_Lexorder" "HOL-Library.Product_Lexorder"
    "HOL-Library.Multiset"
begin

text \<open>
  Five-layer prompt assembly with narrowing-only policy (\<open>bitty-ai-runtime/src/prompt.rs\<close>, up to the
  declarative loaders): validation of layers and snapshots, the merge of tools, scopes, budgets and
  directives, the canonical byte form, and the dispatch check. The \<open>BTreeMap\<close> of directives is an
  association list kept sorted by key; a sort followed by \<open>dedup\<close> is \<^const>\<open>remdups_adj\<close> of a
  \<^const>\<open>sort\<close>.
\<close>

section \<open>Constants, layers and inputs\<close>

definition MAX_LAYER_TEXT_BYTES :: nat where
  "MAX_LAYER_TEXT_BYTES = 16 * 1024"

definition MAX_DIRECTIVES_PER_LAYER :: nat where
  "MAX_DIRECTIVES_PER_LAYER = 32"

definition MAX_DIRECTIVE_KEY_LEN :: nat where
  "MAX_DIRECTIVE_KEY_LEN = 64"

definition MAX_DIRECTIVE_VALUE_LEN :: nat where
  "MAX_DIRECTIVE_VALUE_LEN = 256"

definition MAX_TOOL_ENTRIES_PER_LAYER :: nat where
  "MAX_TOOL_ENTRIES_PER_LAYER = 32"

definition MAX_SCOPES_PER_LAYER :: nat where
  "MAX_SCOPES_PER_LAYER = 16"

definition MAX_SCOPE_LEN :: nat where
  "MAX_SCOPE_LEN = 128"

definition MAX_CORE_VERSION_LEN :: nat where
  "MAX_CORE_VERSION_LEN = 64"

definition MAX_BUDGET_CEILING_BYTES :: nat where
  "MAX_BUDGET_CEILING_BYTES = 256 * 1024"

definition MAX_CANONICAL_BYTES :: nat where
  "MAX_CANONICAL_BYTES = 96 * 1024"

definition EMPTY_ALLOW_SET_SENTINEL :: string where
  "EMPTY_ALLOW_SET_SENTINEL = ''<empty allow-set>''"

datatype prompt_layer = PL_CoreContract | PL_User | PL_Project | PL_SkillsProfile | PL_RuntimeTurn

fun layer_rank :: "prompt_layer \<Rightarrow> nat" where
  "layer_rank PL_CoreContract = 0"
| "layer_rank PL_User = 1"
| "layer_rank PL_Project = 2"
| "layer_rank PL_SkillsProfile = 3"
| "layer_rank PL_RuntimeTurn = 4"

fun layer_name :: "prompt_layer \<Rightarrow> string" where
  "layer_name PL_CoreContract = ''core-contract''"
| "layer_name PL_User = ''user''"
| "layer_name PL_Project = ''project''"
| "layer_name PL_SkillsProfile = ''skills-profile''"
| "layer_name PL_RuntimeTurn = ''runtime-turn''"

definition stable_order :: "prompt_layer list" where
  "stable_order = [PL_CoreContract, PL_User, PL_Project, PL_SkillsProfile, PL_RuntimeTurn]"

definition layer_from_header :: "string \<Rightarrow> prompt_layer option" where
  "layer_from_header header =
     (if header = ''core-contract'' then Some PL_CoreContract
      else if header = ''user'' then Some PL_User
      else if header = ''project'' then Some PL_Project
      else if header = ''skills-profile'' then Some PL_SkillsProfile
      else if header = ''runtime-turn'' then Some PL_RuntimeTurn
      else None)"

record directive =
  dv_key :: string
  dv_value :: string

definition is_never_merge_directive_key :: "string \<Rightarrow> bool" where
  "is_never_merge_directive_key key \<longleftrightarrow> key \<in> set [''agent.identity'', ''capability.grant'']"

record directive_override =
  ov_key :: string
  ov_winning_value :: string
  ov_winning_layer :: prompt_layer
  ov_overridden_value :: string
  ov_overridden_layer :: prompt_layer

record layer_input =
  li_layer :: prompt_layer
  li_text :: string
  li_allowed_tools :: "string list option"
  li_denied_tools :: "string list"
  li_budget_ceiling_bytes :: "nat option"
  li_allowed_scopes :: "string list option"
  li_directives :: "directive list"

definition text_only :: "prompt_layer \<Rightarrow> string \<Rightarrow> layer_input" where
  "text_only layer txt =
     \<lparr> li_layer = layer, li_text = txt, li_allowed_tools = None, li_denied_tools = [],
       li_budget_ceiling_bytes = None, li_allowed_scopes = None, li_directives = [] \<rparr>"

record prompt_snapshot =
  ps_core_version :: string
  ps_layers :: "layer_input list"

record assembled_section =
  se_layer :: prompt_layer
  se_text :: string

record assembled_prompt =
  ap_core_version :: string
  ap_sections :: "assembled_section list"
  ap_effective_allowed_tools :: "string list option"
  ap_effective_denied_tools :: "string list"
  ap_effective_budget_ceiling_bytes :: "nat option"
  ap_effective_scopes :: "string list option"
  ap_effective_directives :: "directive list"
  ap_merge_overrides :: "directive_override list"
  ap_canonical_bytes :: bytes

definition section_text :: "assembled_prompt \<Rightarrow> prompt_layer \<Rightarrow> string" where
  "section_text p layer =
     (case find (\<lambda>s. se_layer s = layer) (ap_sections p) of Some s \<Rightarrow> se_text s | None \<Rightarrow> [])"

datatype prompt_error =
  PrE_InvalidCoreVersion string
| PrE_DuplicateLayer prompt_layer
| PrE_TooManyLayers nat
| PrE_LayerTextTooLarge prompt_layer nat nat
| PrE_InvalidLayerText prompt_layer string
| PrE_InvalidToolName string
| PrE_TooManyTools prompt_layer nat
| PrE_InvalidScope string
| PrE_TooManyScopes prompt_layer nat
| PrE_InvalidDirectiveKey string
| PrE_InvalidDirectiveValue string
| PrE_TooManyDirectives prompt_layer nat
| PrE_InvalidBudget nat
| PrE_UnresolvableConflict string string string
| PrE_CanonicalTooLarge nat nat
| PrE_DispatcherDenied string
| PrE_PromptDenied string
| PrE_PromptNotAllowed string
| PrE_InvalidProjectPath string
| PrE_MalformedProject string
| PrE_TooManyProjectFiles nat
| PrE_ProjectFileTooLarge nat nat
| PrE_MalformedSkill string
| PrE_MissingSkillVersion string
| PrE_UnsupportedSkillVersion string
| PrE_TooManySkills nat
| PrE_SkillEntryTooLarge nat nat
| PrE_SkillRegistryTooLarge nat nat
| PrE_DuplicateSkill string

definition quoted :: "string \<Rightarrow> string" where
  "quoted s = [CHR 0x27] @ s @ [CHR 0x27]"

fun prompt_error_display :: "prompt_error \<Rightarrow> string" where
  "prompt_error_display (PrE_InvalidCoreVersion version) = ''invalid core version: '' @ version"
| "prompt_error_display (PrE_DuplicateLayer layer) = ''duplicate prompt layer: '' @ layer_name layer"
| "prompt_error_display (PrE_TooManyLayers limit) = ''too many prompt layers (max '' @ show_nat limit @ '')''"
| "prompt_error_display (PrE_LayerTextTooLarge layer limit actual) =
     ''prompt layer '' @ layer_name layer @ '' text of '' @ show_nat actual @ '' bytes exceeds ''
     @ show_nat limit @ '' byte limit''"
| "prompt_error_display (PrE_InvalidLayerText layer reason) =
     ''invalid prompt layer '' @ layer_name layer @ '' text: '' @ reason"
| "prompt_error_display (PrE_InvalidToolName name) = ''invalid prompt tool name: '' @ name"
| "prompt_error_display (PrE_TooManyTools layer limit) =
     ''prompt layer '' @ layer_name layer @ '' exceeds '' @ show_nat limit @ '' tool entries''"
| "prompt_error_display (PrE_InvalidScope scope) = ''invalid prompt scope: '' @ scope"
| "prompt_error_display (PrE_TooManyScopes layer limit) =
     ''prompt layer '' @ layer_name layer @ '' exceeds '' @ show_nat limit @ '' scopes''"
| "prompt_error_display (PrE_InvalidDirectiveKey key) = ''invalid directive key: '' @ key"
| "prompt_error_display (PrE_InvalidDirectiveValue key) = ''invalid directive value for key: '' @ key"
| "prompt_error_display (PrE_TooManyDirectives layer limit) =
     ''prompt layer '' @ layer_name layer @ '' exceeds '' @ show_nat limit @ '' directives''"
| "prompt_error_display (PrE_InvalidBudget actual) =
     ''invalid prompt budget ceiling '' @ show_nat actual @ '' (must be 1..=''
     @ show_nat MAX_BUDGET_CEILING_BYTES @ '')''"
| "prompt_error_display (PrE_UnresolvableConflict key first second) =
     ''unresolvable directive conflict for '' @ quoted key @ '': '' @ quoted first @ '' vs '' @ quoted second"
| "prompt_error_display (PrE_CanonicalTooLarge limit actual) =
     ''canonical prompt of '' @ show_nat actual @ '' bytes exceeds '' @ show_nat limit @ '' byte limit''"
| "prompt_error_display (PrE_DispatcherDenied tool) =
     ''dispatcher denies tool '' @ quoted tool @ '': prompt never grants''"
| "prompt_error_display (PrE_PromptDenied tool) = ''prompt denies tool '' @ quoted tool"
| "prompt_error_display (PrE_PromptNotAllowed tool) = ''prompt allow-set omits tool '' @ quoted tool"
| "prompt_error_display (PrE_InvalidProjectPath path) =
     ''project path escapes caller-supplied roots: '' @ quoted path"
| "prompt_error_display (PrE_MalformedProject reason) = ''malformed project file: '' @ reason"
| "prompt_error_display (PrE_TooManyProjectFiles limit) =
     ''too many project files (max '' @ show_nat limit @ '')''"
| "prompt_error_display (PrE_ProjectFileTooLarge limit actual) =
     ''project file of '' @ show_nat actual @ '' bytes exceeds '' @ show_nat limit @ '' byte limit''"
| "prompt_error_display (PrE_MalformedSkill reason) = ''malformed skill registry: '' @ reason"
| "prompt_error_display (PrE_MissingSkillVersion name) =
     ''skill entry '' @ quoted name @ '' misses required version field''"
| "prompt_error_display (PrE_UnsupportedSkillVersion version) =
     ''unsupported skill version: '' @ quoted version"
| "prompt_error_display (PrE_TooManySkills limit) = ''too many skill entries (max '' @ show_nat limit @ '')''"
| "prompt_error_display (PrE_SkillEntryTooLarge limit actual) =
     ''skill fragment of '' @ show_nat actual @ '' bytes exceeds '' @ show_nat limit @ '' byte limit''"
| "prompt_error_display (PrE_SkillRegistryTooLarge limit actual) =
     ''skill registry of '' @ show_nat actual @ '' bytes exceeds '' @ show_nat limit @ '' byte limit''"
| "prompt_error_display (PrE_DuplicateSkill name) = ''duplicate skill entry: '' @ quoted name"

section \<open>Validation\<close>

text \<open>A bounded identifier: a lowercase first byte, then bytes of a given class.\<close>

definition ident_ok :: "nat \<Rightarrow> (char \<Rightarrow> bool) \<Rightarrow> string \<Rightarrow> bool" where
  "ident_ok bound cls s \<longleftrightarrow>
     s \<noteq> [] \<and> length s \<le> bound \<and> (case s of [] \<Rightarrow> False | b # _ \<Rightarrow> is_ascii_lowercase b)
     \<and> list_all (\<lambda>b. is_ascii_lowercase b \<or> is_ascii_digit b \<or> cls b) s"

definition validate_core_version :: "string \<Rightarrow> (unit, prompt_error) result" where
  "validate_core_version version =
     (if ident_ok MAX_CORE_VERSION_LEN (\<lambda>b. b \<in> set ''-_.@'') version then Ok ()
      else Err (PrE_InvalidCoreVersion version))"

definition validate_layer_text :: "prompt_layer \<Rightarrow> string \<Rightarrow> (unit, prompt_error) result" where
  "validate_layer_text layer txt =
     (if length txt > MAX_LAYER_TEXT_BYTES
      then Err (PrE_LayerTextTooLarge layer MAX_LAYER_TEXT_BYTES (length txt))
      else if CHR 0x0D \<in> set txt
      then Err (PrE_InvalidLayerText layer ''text must use LF newlines only (no CR)'')
      else if CHR 0x00 \<in> set txt
      then Err (PrE_InvalidLayerText layer ''text must not contain NUL'')
      else Ok ())"

definition contains_untrusted_markers :: "string \<Rightarrow> bool" where
  "contains_untrusted_markers txt \<longleftrightarrow>
     contains_str ''[untrusted'' txt \<or> contains_str ''[/untrusted'' txt
     \<or> contains_str ''[ACTION OUTCOME]'' txt \<or> contains_str ''[OBSERVATION'' txt
     \<or> contains_str ''=== OBSERVATIONS ==='' txt \<or> contains_str ''delta/1'' txt"

definition is_verified_project_text :: "string \<Rightarrow> bool" where
  "is_verified_project_text txt \<longleftrightarrow> prefix ''project-snapshot/1 '' txt"

definition pinned_layer_untrusted :: "prompt_layer \<Rightarrow> string \<Rightarrow> bool" where
  "pinned_layer_untrusted layer txt =
     (case layer of
        PL_Project \<Rightarrow>
          (let rest = (if is_verified_project_text txt
                       then drop (length ''project-snapshot/1 '') txt else txt)
           in contains_untrusted_markers rest \<or> contains_str ''project-snapshot/1'' rest)
      | PL_RuntimeTurn \<Rightarrow> False
      | _ \<Rightarrow> contains_untrusted_markers txt \<or> contains_str ''project-snapshot/1'' txt)"

definition validate_pinned_layer_trust :: "prompt_layer \<Rightarrow> string \<Rightarrow> (unit, prompt_error) result" where
  "validate_pinned_layer_trust layer txt =
     (if pinned_layer_untrusted layer txt
      then Err (PrE_InvalidLayerText layer (''pinned layer accepts host-pinned bytes only; ''
              @ ''offer untrusted observations to RuntimeTurn tail''))
      else Ok ())"

definition validate_prompt_tool_name :: "string \<Rightarrow> (unit, prompt_error) result" where
  "validate_prompt_tool_name name =
     (case validate_tool_name name of Ok _ \<Rightarrow> Ok () | Err _ \<Rightarrow> Err (PrE_InvalidToolName name))"

definition validate_scope :: "string \<Rightarrow> (unit, prompt_error) result" where
  "validate_scope scope =
     (if ident_ok MAX_SCOPE_LEN (\<lambda>b. b \<in> set ''_.-'') scope then Ok () else Err (PrE_InvalidScope scope))"

definition validate_directive_key :: "string \<Rightarrow> (unit, prompt_error) result" where
  "validate_directive_key key =
     (if \<not> list_ex (\<lambda>b. b \<in> {CHR ''='', CHR 0x0A, CHR 0x0D, CHR 0x00}) key
         \<and> ident_ok MAX_DIRECTIVE_KEY_LEN (\<lambda>b. b \<in> set ''_.-'') key
      then Ok () else Err (PrE_InvalidDirectiveKey key))"

definition validate_directive_value :: "string \<Rightarrow> string \<Rightarrow> (unit, prompt_error) result" where
  "validate_directive_value key v =
     (if length v \<le> MAX_DIRECTIVE_VALUE_LEN \<and> \<not> list_ex (\<lambda>b. b \<in> {CHR 0x0A, CHR 0x0D, CHR 0x00}) v
      then Ok () else Err (PrE_InvalidDirectiveValue key))"

definition validate_directive :: "directive \<Rightarrow> (unit, prompt_error) result" where
  "validate_directive d =
     and_then (validate_directive_key (dv_key d)) (\<lambda>_. validate_directive_value (dv_key d) (dv_value d))"

definition directive_new :: "string \<Rightarrow> string \<Rightarrow> (directive, prompt_error) result" where
  "directive_new key v =
     and_then (validate_directive_key key) (\<lambda>_.
     and_then (validate_directive_value key v) (\<lambda>_. Ok \<lparr> dv_key = key, dv_value = v \<rparr>))"

definition validate_budget_ceiling :: "nat \<Rightarrow> (unit, prompt_error) result" where
  "validate_budget_ceiling ceiling =
     (if 1 \<le> ceiling \<and> ceiling \<le> MAX_BUDGET_CEILING_BYTES then Ok () else Err (PrE_InvalidBudget ceiling))"

text \<open>A bounded list whose entries must all validate.\<close>

definition check_bounded ::
  "nat \<Rightarrow> prompt_error \<Rightarrow> ('a \<Rightarrow> (unit, prompt_error) result) \<Rightarrow> 'a list \<Rightarrow> (unit, prompt_error) result" where
  "check_bounded bound err f xs = (if length xs > bound then Err err else check_all f xs)"

definition validate_layer :: "layer_input \<Rightarrow> (unit, prompt_error) result" where
  "validate_layer l =
     and_then (validate_layer_text (li_layer l) (li_text l)) (\<lambda>_.
     and_then (validate_pinned_layer_trust (li_layer l) (li_text l)) (\<lambda>_.
     and_then (case li_allowed_tools l of
         None \<Rightarrow> Ok ()
       | Some allowed \<Rightarrow> check_bounded MAX_TOOL_ENTRIES_PER_LAYER
           (PrE_TooManyTools (li_layer l) MAX_TOOL_ENTRIES_PER_LAYER) validate_prompt_tool_name allowed) (\<lambda>_.
     and_then (check_bounded MAX_TOOL_ENTRIES_PER_LAYER
         (PrE_TooManyTools (li_layer l) MAX_TOOL_ENTRIES_PER_LAYER) validate_prompt_tool_name
         (li_denied_tools l)) (\<lambda>_.
     and_then (case li_budget_ceiling_bytes l of
         None \<Rightarrow> Ok () | Some budget \<Rightarrow> validate_budget_ceiling budget) (\<lambda>_.
     and_then (case li_allowed_scopes l of
         None \<Rightarrow> Ok ()
       | Some scopes \<Rightarrow> check_bounded MAX_SCOPES_PER_LAYER
           (PrE_TooManyScopes (li_layer l) MAX_SCOPES_PER_LAYER) validate_scope scopes) (\<lambda>_.
     check_bounded MAX_DIRECTIVES_PER_LAYER
       (PrE_TooManyDirectives (li_layer l) MAX_DIRECTIVES_PER_LAYER) validate_directive
       (li_directives l)))))))"

text \<open>The loop with the \<open>seen\<close> flags, which are the layers met so far.\<close>

fun validate_layers :: "prompt_layer list \<Rightarrow> layer_input list \<Rightarrow> (unit, prompt_error) result" where
  "validate_layers seen [] = Ok ()"
| "validate_layers seen (l # ls) =
     (if li_layer l \<in> set seen then Err (PrE_DuplicateLayer (li_layer l))
      else and_then (validate_layer l) (\<lambda>_. validate_layers (li_layer l # seen) ls))"

definition validate_snapshot :: "prompt_snapshot \<Rightarrow> (unit, prompt_error) result" where
  "validate_snapshot s =
     and_then (validate_core_version (ps_core_version s)) (\<lambda>_.
     if length (ps_layers s) > length stable_order then Err (PrE_TooManyLayers (length stable_order))
     else validate_layers [] (ps_layers s))"

definition snapshot_new :: "string \<Rightarrow> layer_input list \<Rightarrow> (prompt_snapshot, prompt_error) result" where
  "snapshot_new version layers =
     (let s = \<lparr> ps_core_version = version, ps_layers = layers \<rparr>
      in and_then (validate_snapshot s) (\<lambda>_. Ok s))"

section \<open>Assembly\<close>

fun common_prefix_len :: "bytes \<Rightarrow> bytes \<Rightarrow> nat" where
  "common_prefix_len (a # as) (b # bs) = (if a \<noteq> b then 0 else 1 + common_prefix_len as bs)"
| "common_prefix_len _ _ = 0"

text \<open>The intersection over the layers that constrain, for tools and for scopes.\<close>

fun intersect_lists :: "string list option \<Rightarrow> string list option list \<Rightarrow> string list option" where
  "intersect_lists acc [] = acc"
| "intersect_lists acc (None # rest) = intersect_lists acc rest"
| "intersect_lists acc (Some list # rest) =
     (let st = remdups_adj (sort list)
      in intersect_lists
           (Some (case acc of None \<Rightarrow> st | Some current \<Rightarrow> filter (\<lambda>item. item \<in> set st) current)) rest)"

fun min_budget :: "nat option \<Rightarrow> nat option list \<Rightarrow> nat option" where
  "min_budget acc [] = acc"
| "min_budget acc (None # rest) = min_budget acc rest"
| "min_budget acc (Some ceiling # rest) =
     min_budget (Some (case acc of None \<Rightarrow> ceiling | Some current \<Rightarrow> min current ceiling)) rest"

type_synonym directive_map = "(string \<times> string \<times> prompt_layer) list"

text \<open>One directive of a layer against the directives merged so far.\<close>

definition merge_directive ::
  "prompt_layer \<Rightarrow> directive \<Rightarrow> directive_map \<times> directive_override list
     \<Rightarrow> (directive_map \<times> directive_override list, prompt_error) result" where
  "merge_directive layer d acc =
     (let (by_key, overrides) = acc in
      case map_of by_key (dv_key d) of
        None \<Rightarrow> Ok (insort_key fst (dv_key d, dv_value d, layer) by_key, overrides)
      | Some (first_value, first_layer) \<Rightarrow>
          if first_value \<noteq> dv_value d
          then (if is_never_merge_directive_key (dv_key d) \<or> first_layer = layer
                then Err (PrE_UnresolvableConflict (dv_key d) first_value (dv_value d))
                else Ok (by_key, overrides @
                       [\<lparr> ov_key = dv_key d, ov_winning_value = first_value, ov_winning_layer = first_layer,
                          ov_overridden_value = dv_value d, ov_overridden_layer = layer \<rparr>]))
          else Ok (by_key, overrides))"

fun merge_directives ::
  "(prompt_layer \<times> directive) list \<Rightarrow> directive_map \<times> directive_override list
     \<Rightarrow> (directive_map \<times> directive_override list, prompt_error) result" where
  "merge_directives [] acc = Ok acc"
| "merge_directives ((layer, d) # rest) acc =
     and_then (merge_directive layer d acc) (merge_directives rest)"

definition override_key :: "directive_override \<Rightarrow> string \<times> nat \<times> string \<times> nat \<times> string" where
  "override_key ov = (ov_key ov, layer_rank (ov_overridden_layer ov), ov_overridden_value ov,
     layer_rank (ov_winning_layer ov), ov_winning_value ov)"

definition LF :: string where
  "LF = [CHR 0x0A]"

definition render_section :: "assembled_section \<Rightarrow> bytes" where
  "render_section s =
     ''[layer:'' @ layer_name (se_layer s) @ '' len='' @ show_nat (length (se_text s)) @ '']'' @ LF
     @ se_text s @ LF"

definition render_override :: "directive_override \<Rightarrow> bytes" where
  "render_override ov =
     ''override:'' @ ov_key ov @ '' winner:'' @ layer_name (ov_winning_layer ov)
     @ '' wlen='' @ show_nat (length (ov_winning_value ov)) @ '':'' @ ov_winning_value ov
     @ '' overridden:'' @ layer_name (ov_overridden_layer ov)
     @ '' olen='' @ show_nat (length (ov_overridden_value ov)) @ '':'' @ ov_overridden_value ov @ LF"

definition render_policy :: "assembled_prompt \<Rightarrow> bytes" where
  "render_policy p =
     (case ap_effective_allowed_tools p of
        None \<Rightarrow> ''allowed:*'' @ LF
      | Some list \<Rightarrow> concat (map (\<lambda>tool. ''allowed:'' @ tool @ LF) list))
     @ concat (map (\<lambda>tool. ''denied:'' @ tool @ LF) (ap_effective_denied_tools p))
     @ (case ap_effective_budget_ceiling_bytes p of
          None \<Rightarrow> ''budget:*'' @ LF
        | Some ceiling \<Rightarrow> ''budget:'' @ show_nat ceiling @ LF)
     @ (case ap_effective_scopes p of
          None \<Rightarrow> ''scope:*'' @ LF
        | Some list \<Rightarrow> concat (map (\<lambda>scope. ''scope:'' @ scope @ LF) list))
     @ concat (map (\<lambda>d. ''directive:'' @ dv_key d @ ''='' @ dv_value d @ LF) (ap_effective_directives p))
     @ concat (map render_override (sort_key override_key (ap_merge_overrides p)))
     @ ''end'' @ LF"

definition render_bytes :: "assembled_prompt \<Rightarrow> bytes" where
  "render_bytes p =
     ''prompt/1'' @ LF @ ''core-version:'' @ ap_core_version p @ LF
     @ concat (map render_section (ap_sections p)) @ ''[effective]'' @ LF @ render_policy p"

definition render_canonical :: "assembled_prompt \<Rightarrow> (bytes, prompt_error) result" where
  "render_canonical p =
     (let out = render_bytes p
      in if length out > MAX_CANONICAL_BYTES
         then Err (PrE_CanonicalTooLarge MAX_CANONICAL_BYTES (length out)) else Ok out)"

definition ordered_layers :: "prompt_snapshot \<Rightarrow> layer_input list" where
  "ordered_layers s = sort_key (\<lambda>l. layer_rank (li_layer l)) (ps_layers s)"

definition section_of :: "layer_input list \<Rightarrow> prompt_layer \<Rightarrow> assembled_section" where
  "section_of ordered layer =
     \<lparr> se_layer = layer,
       se_text = (case find (\<lambda>l. li_layer l = layer) ordered of Some l \<Rightarrow> li_text l | None \<Rightarrow> []) \<rparr>"

definition assemble_prompt :: "prompt_snapshot \<Rightarrow> (assembled_prompt, prompt_error) result" where
  "assemble_prompt s =
     and_then (validate_snapshot s) (\<lambda>_.
     let ordered = ordered_layers s;
         sections = map (section_of ordered) stable_order;
         denied = remdups_adj (sort (concat (map li_denied_tools ordered)));
         allowed = intersect_lists None (map li_allowed_tools ordered) in
     if allowed = Some [] then Err (PrE_PromptNotAllowed EMPTY_ALLOW_SET_SENTINEL)
     else
     let budget = min_budget None (map li_budget_ceiling_bytes ordered);
         scopes = intersect_lists None (map li_allowed_scopes ordered) in
     and_then (merge_directives
         (concat (map (\<lambda>l. map (\<lambda>d. (li_layer l, d)) (li_directives l)) ordered)) ([], []))
       (\<lambda>(by_key, overrides).
     let assembled = \<lparr> ap_core_version = ps_core_version s, ap_sections = sections,
           ap_effective_allowed_tools = allowed, ap_effective_denied_tools = denied,
           ap_effective_budget_ceiling_bytes = budget, ap_effective_scopes = scopes,
           ap_effective_directives = map (\<lambda>(key, v, _). \<lparr> dv_key = key, dv_value = v \<rparr>) by_key,
           ap_merge_overrides = remdups_adj (sort_key override_key overrides),
           ap_canonical_bytes = [] \<rparr> in
     and_then (render_canonical assembled) (\<lambda>out.
     if (case budget of None \<Rightarrow> False | Some ceiling \<Rightarrow> length out > ceiling)
     then Err (PrE_InvalidBudget (length out))
     else Ok (assembled\<lparr> ap_canonical_bytes := out \<rparr>))))"

section \<open>The dispatch check\<close>

definition check_dispatch :: "assembled_prompt \<Rightarrow> string \<Rightarrow> bool \<Rightarrow> (unit, prompt_error) result" where
  "check_dispatch p tool dispatcher_grants =
     (if \<not> dispatcher_grants then Err (PrE_DispatcherDenied tool)
      else if list_ex (\<lambda>denied. denied = tool) (ap_effective_denied_tools p) then Err (PrE_PromptDenied tool)
      else case ap_effective_allowed_tools p of
        None \<Rightarrow> Ok ()
      | Some allowed \<Rightarrow>
          if \<not> list_ex (\<lambda>item. item = tool) allowed then Err (PrE_PromptNotAllowed tool) else Ok ())"

definition is_dispatch_allowed :: "assembled_prompt \<Rightarrow> string \<Rightarrow> bool \<Rightarrow> bool" where
  "is_dispatch_allowed p tool dispatcher_grants = is_ok (check_dispatch p tool dispatcher_grants)"

definition dispatch_denial_cause :: "string \<Rightarrow> prompt_error \<Rightarrow> tool_error" where
  "dispatch_denial_cause tool error =
     (let name = (case error of
          PrE_DispatcherDenied t \<Rightarrow> t | PrE_PromptDenied t \<Rightarrow> t | PrE_PromptNotAllowed t \<Rightarrow> t
        | _ \<Rightarrow> tool)
      in tool_error_normalized (TE_Denied name (prompt_error_display error)))"

section \<open>Lemmas\<close>

subsection \<open>Validation\<close>

lemma validate_layers_Ok_iff:
  "validate_layers seen ls = Ok () \<longleftrightarrow>
     distinct (map li_layer ls) \<and> li_layer ` set ls \<inter> set seen = {} \<and> (\<forall>l \<in> set ls. validate_layer l = Ok ())"
  by (induction ls arbitrary: seen) (auto simp: result_simps)

lemma validate_snapshot_Ok_iff:
  "validate_snapshot s = Ok () \<longleftrightarrow>
     validate_core_version (ps_core_version s) = Ok () \<and> length (ps_layers s) \<le> length stable_order
     \<and> distinct (map li_layer (ps_layers s)) \<and> (\<forall>l \<in> set (ps_layers s). validate_layer l = Ok ())"
  by (auto simp: validate_snapshot_def result_simps validate_layers_Ok_iff)

subsection \<open>Merging constraints\<close>

text \<open>\<open>None\<close> is no constraint.\<close>

definition permits :: "'a list option \<Rightarrow> 'a \<Rightarrow> bool" where
  "permits c x \<longleftrightarrow> (case c of None \<Rightarrow> True | Some list \<Rightarrow> x \<in> set list)"

definition within :: "nat option \<Rightarrow> nat \<Rightarrow> bool" where
  "within c n \<longleftrightarrow> (case c of None \<Rightarrow> True | Some ceiling \<Rightarrow> n \<le> ceiling)"

lemma permits_simps [simp]: "permits None x" "permits (Some list) x \<longleftrightarrow> x \<in> set list"
  by (simp_all add: permits_def)

lemma within_simps [simp]: "within None n" "within (Some ceiling) n \<longleftrightarrow> n \<le> ceiling"
  by (simp_all add: within_def)

lemma permits_intersect:
  "permits (intersect_lists acc cs) x \<longleftrightarrow> permits acc x \<and> (\<forall>c \<in> set cs. permits c x)"
  by (induction acc cs rule: intersect_lists.induct) (auto simp: Let_def split: option.splits)

lemma intersect_None_iff: "intersect_lists acc cs = None \<longleftrightarrow> acc = None \<and> (\<forall>c \<in> set cs. c = None)"
  by (induction acc cs rule: intersect_lists.induct) (auto simp: Let_def)

lemma intersect_sorted:
  "pred_option (\<lambda>l. sorted l \<and> distinct l) acc \<Longrightarrow>
   pred_option (\<lambda>l. sorted l \<and> distinct l) (intersect_lists acc cs)"
proof (induction acc cs rule: intersect_lists.induct)
  case (3 acc list rest)
  then show ?case
    by (cases acc) (simp_all add: Let_def sorted_wrt_filter distinct_remdups_adj_sorted)
qed simp_all

lemma within_min_budget:
  "within (min_budget acc cs) n \<longleftrightarrow> within acc n \<and> (\<forall>c \<in> set cs. within c n)"
  by (induction acc cs rule: min_budget.induct) (auto split: option.splits)

subsection \<open>Ordering the layers\<close>

lemma layer_rank_inject [simp]: "layer_rank a = layer_rank b \<longleftrightarrow> a = b"
  by (cases a; cases b) auto

lemma set_ordered_layers [simp]: "set (ordered_layers s) = set (ps_layers s)"
  by (simp add: ordered_layers_def)

lemma ordered_layers_strict:
  assumes "distinct (map li_layer (ps_layers s))"
  shows "sorted_wrt (\<lambda>a b. layer_rank (li_layer a) < layer_rank (li_layer b)) (ordered_layers s)"
  unfolding ordered_layers_def
  by (rule strict_sort_key) (use assms in \<open>auto simp: distinct_map inj_on_def\<close>)

lemma ordered_layers_mset:
  assumes "mset (ps_layers s) = mset (ps_layers t)" "distinct (map li_layer (ps_layers s))"
  shows "ordered_layers s = ordered_layers t"
proof (rule strict_key_sorted_unique)
  have "mset (map li_layer (ps_layers s)) = mset (map li_layer (ps_layers t))"
    by (simp only: mset_map assms(1))
  from mset_eq_imp_distinct_iff [OF this] assms(2) have "distinct (map li_layer (ps_layers t))" by simp
  then show "sorted_wrt (\<lambda>a b. layer_rank (li_layer a) < layer_rank (li_layer b)) (ordered_layers t)"
    by (rule ordered_layers_strict)
  show "sorted_wrt (\<lambda>a b. layer_rank (li_layer a) < layer_rank (li_layer b)) (ordered_layers s)"
    by (rule ordered_layers_strict) (rule assms(2))
  show "set (ordered_layers s) = set (ordered_layers t)" using mset_eq_setD [OF assms(1)] by simp
qed

subsection \<open>Directives\<close>

text \<open>The layer and directive that set a key first.\<close>

definition first_setter :: "(prompt_layer \<times> directive) list \<Rightarrow> string \<Rightarrow> (string \<times> prompt_layer) option" where
  "first_setter ds k = map_option (\<lambda>(l, d). (dv_value d, l)) (find (\<lambda>(l, d). dv_key d = k) ds)"

definition override_of :: "string \<times> prompt_layer \<Rightarrow> prompt_layer \<Rightarrow> directive \<Rightarrow> directive_override" where
  "override_of w l d =
     \<lparr> ov_key = dv_key d, ov_winning_value = fst w, ov_winning_layer = snd w,
       ov_overridden_value = dv_value d, ov_overridden_layer = l \<rparr>"

text \<open>The overrides a list of directives must record.\<close>

definition expected_overrides :: "(prompt_layer \<times> directive) list \<Rightarrow> directive_override set" where
  "expected_overrides ds =
     {override_of w l d | w l d. (l, d) \<in> set ds \<and> first_setter ds (dv_key d) = Some w \<and> fst w \<noteq> dv_value d}"

lemma first_setter_snoc:
  "first_setter (ds @ [(l, d)]) k =
     (case first_setter ds k of Some w \<Rightarrow> Some w | None \<Rightarrow> if dv_key d = k then Some (dv_value d, l) else None)"
  by (auto simp: first_setter_def find_append split: option.splits)

lemma map_of_insort_key:
  assumes "map_of m k = None"
  shows "map_of (insort_key fst (k, v) m) = (map_of m)(k \<mapsto> v)"
  using assms
proof (induction m)
  case (Cons x m)
  then show ?case by (cases x) (auto simp: fun_eq_iff split: if_splits)
qed simp

text \<open>What a successful merge has computed after the directives \<open>ds\<close>.\<close>

definition merged ::
  "(prompt_layer \<times> directive) list \<Rightarrow> directive_map \<times> directive_override list \<Rightarrow> bool" where
  "merged ds acc \<longleftrightarrow>
     sorted (map fst (fst acc)) \<and> distinct (map fst (fst acc))
     \<and> (\<forall>k. map_of (fst acc) k = first_setter ds k) \<and> set (snd acc) = expected_overrides ds
     \<and> (\<forall>(l, d) \<in> set ds. \<forall>w. first_setter ds (dv_key d) = Some w \<longrightarrow> fst w \<noteq> dv_value d \<longrightarrow>
           \<not> is_never_merge_directive_key (dv_key d) \<and> snd w \<noteq> l)"

lemma first_setter_member: "(l, d) \<in> set ds \<Longrightarrow> \<exists>w. first_setter ds (dv_key d) = Some w"
  by (induction ds) (auto simp: first_setter_def split: prod.splits)

lemma first_setter_old:
  assumes "(l', d') \<in> set ds"
  shows "first_setter (ds @ [(l, d)]) (dv_key d') = first_setter ds (dv_key d')"
  using first_setter_member [OF assms] by (auto simp: first_setter_snoc)

lemma expected_overrides_snoc:
  "expected_overrides (ds @ [(l, d)]) = expected_overrides ds \<union>
     (case first_setter ds (dv_key d) of
        None \<Rightarrow> {} | Some w \<Rightarrow> if fst w = dv_value d then {} else {override_of w l d})"
proof -
  have "expected_overrides (ds @ [(l, d)]) =
      {override_of w l' d' | w l' d'. (l', d') \<in> set ds
         \<and> first_setter (ds @ [(l, d)]) (dv_key d') = Some w \<and> fst w \<noteq> dv_value d'}
      \<union> {override_of w l d | w. first_setter (ds @ [(l, d)]) (dv_key d) = Some w \<and> fst w \<noteq> dv_value d}"
    unfolding expected_overrides_def by auto
  also have "{override_of w l' d' | w l' d'. (l', d') \<in> set ds
         \<and> first_setter (ds @ [(l, d)]) (dv_key d') = Some w \<and> fst w \<noteq> dv_value d'} = expected_overrides ds"
    unfolding expected_overrides_def
    by (rule Collect_cong) (intro ex_cong1 conj_cong refl, simp add: first_setter_old)
  also have "{override_of w l d | w. first_setter (ds @ [(l, d)]) (dv_key d) = Some w \<and> fst w \<noteq> dv_value d} =
      (case first_setter ds (dv_key d) of
        None \<Rightarrow> {} | Some w \<Rightarrow> if fst w = dv_value d then {} else {override_of w l d})"
    by (cases "first_setter ds (dv_key d)") (auto simp: first_setter_snoc)
  finally show ?thesis .
qed

lemma distinct_insort_key: "distinct (map f (insort_key f x xs)) \<longleftrightarrow> f x \<notin> f ` set xs \<and> distinct (map f xs)"
  by (induction xs) (auto simp: set_insort_key)

lemma merge_directive_cases:
  assumes "merged ds (m, ovs)" "merge_directive l d (m, ovs) = Ok acc'"
  obtains (fresh) "first_setter ds (dv_key d) = None"
      "acc' = (insort_key fst (dv_key d, dv_value d, l) m, ovs)"
  | (same) wl where "first_setter ds (dv_key d) = Some (dv_value d, wl)" "acc' = (m, ovs)"
  | (override) w where "first_setter ds (dv_key d) = Some w" "fst w \<noteq> dv_value d"
      "\<not> is_never_merge_directive_key (dv_key d)" "snd w \<noteq> l" "acc' = (m, ovs @ [override_of w l d])"
proof -
  have "map_of m (dv_key d) = first_setter ds (dv_key d)" using assms(1) by (simp add: merged_def)
  with assms(2) show thesis
    using fresh same override
    by (cases "first_setter ds (dv_key d)")
       (auto simp: merge_directive_def override_of_def split: if_splits)
qed

lemma merge_directive_merged:
  assumes "merged ds acc" "merge_directive l d acc = Ok acc'"
  shows "merged (ds @ [(l, d)]) acc'"
proof -
  obtain m ovs where acc: "acc = (m, ovs)" by fastforce
  have old: "\<forall>(l', d') \<in> set ds. \<forall>w. first_setter (ds @ [(l, d)]) (dv_key d') = Some w \<longrightarrow> fst w \<noteq> dv_value d' \<longrightarrow>
      \<not> is_never_merge_directive_key (dv_key d') \<and> snd w \<noteq> l'"
    using assms(1) first_setter_old [of _ _ ds l d] by (fastforce simp: merged_def)
  have inv: "sorted (map fst m)" "distinct (map fst m)" "map_of m = first_setter ds" "set ovs = expected_overrides ds"
    using assms(1) by (auto simp: merged_def acc fun_eq_iff)
  from assms [unfolded acc] show ?thesis
  proof (cases rule: merge_directive_cases)
    case fresh
    then have none: "map_of m (dv_key d) = None" by (simp add: inv(3))
    then have new: "dv_key d \<notin> fst ` set m" by (simp add: map_of_eq_None_iff)
    have "first_setter (ds @ [(l, d)]) = (first_setter ds)(dv_key d \<mapsto> (dv_value d, l))"
      using fresh(1) by (auto simp: fun_eq_iff first_setter_snoc split: option.splits)
    then show ?thesis
      using inv old fresh new
      by (simp add: merged_def sorted_insort_key distinct_insort_key map_of_insort_key [OF none]
          expected_overrides_snoc)
  next
    case (same wl)
    then have "first_setter (ds @ [(l, d)]) = first_setter ds"
      by (auto simp: fun_eq_iff first_setter_snoc split: option.splits)
    then show ?thesis using inv old same by (simp add: merged_def expected_overrides_snoc)
  next
    case (override w)
    then have "first_setter (ds @ [(l, d)]) = first_setter ds"
      by (auto simp: fun_eq_iff first_setter_snoc split: option.splits)
    then show ?thesis using inv old override
      by (cases w) (simp add: merged_def expected_overrides_snoc)
  qed
qed

lemma merge_directives_merged:
  "merged ds acc \<Longrightarrow> merge_directives es acc = Ok acc' \<Longrightarrow> merged (ds @ es) acc'"
proof (induction es arbitrary: ds acc)
  case (Cons e es)
  obtain l d where e: "e = (l, d)" by fastforce
  with Cons.prems(2) obtain acc1 where 1: "merge_directive l d acc = Ok acc1" "merge_directives es acc1 = Ok acc'"
    by (auto simp: result_simps)
  from Cons.IH [OF merge_directive_merged [OF Cons.prems(1) 1(1)] 1(2)] e show ?case by simp
qed simp

lemma merged_empty: "merged [] ([], [])"
  by (simp add: merged_def first_setter_def expected_overrides_def)

subsection \<open>Assembly\<close>

definition all_directives :: "layer_input list \<Rightarrow> (prompt_layer \<times> directive) list" where
  "all_directives ordered = concat (map (\<lambda>l. map (\<lambda>d. (li_layer l, d)) (li_directives l)) ordered)"

lemma assemble_prompt_OkE:
  assumes "assemble_prompt s = Ok p"
  obtains by_key overrides where
    "validate_snapshot s = Ok ()"
    "merged (all_directives (ordered_layers s)) (by_key, overrides)"
    "ap_core_version p = ps_core_version s"
    "ap_sections p = map (section_of (ordered_layers s)) stable_order"
    "ap_effective_allowed_tools p = intersect_lists None (map li_allowed_tools (ordered_layers s))"
    "ap_effective_allowed_tools p \<noteq> Some []"
    "ap_effective_denied_tools p = remdups_adj (sort (concat (map li_denied_tools (ordered_layers s))))"
    "ap_effective_budget_ceiling_bytes p = min_budget None (map li_budget_ceiling_bytes (ordered_layers s))"
    "ap_effective_scopes p = intersect_lists None (map li_allowed_scopes (ordered_layers s))"
    "ap_effective_directives p = map (\<lambda>(key, v, _). \<lparr> dv_key = key, dv_value = v \<rparr>) by_key"
    "ap_merge_overrides p = remdups_adj (sort_key override_key overrides)"
    "ap_canonical_bytes p = render_bytes p"
    "length (ap_canonical_bytes p) \<le> MAX_CANONICAL_BYTES"
    "within (ap_effective_budget_ceiling_bytes p) (length (ap_canonical_bytes p))"
proof -
  have canon: "render_bytes (q\<lparr> ap_canonical_bytes := c \<rparr>) = render_bytes q" for q c
    by (simp add: render_bytes_def render_policy_def)
  from assms obtain u by_key overrides c where
    1: "validate_snapshot s = Ok u" "intersect_lists None (map li_allowed_tools (ordered_layers s)) \<noteq> Some []"
    "merge_directives (all_directives (ordered_layers s)) ([], []) = Ok (by_key, overrides)"
    and p: "p = \<lparr> ap_core_version = ps_core_version s,
           ap_sections = map (section_of (ordered_layers s)) stable_order,
           ap_effective_allowed_tools = intersect_lists None (map li_allowed_tools (ordered_layers s)),
           ap_effective_denied_tools = remdups_adj (sort (concat (map li_denied_tools (ordered_layers s)))),
           ap_effective_budget_ceiling_bytes = min_budget None (map li_budget_ceiling_bytes (ordered_layers s)),
           ap_effective_scopes = intersect_lists None (map li_allowed_scopes (ordered_layers s)),
           ap_effective_directives = map (\<lambda>(key, v, _). \<lparr> dv_key = key, dv_value = v \<rparr>) by_key,
           ap_merge_overrides = remdups_adj (sort_key override_key overrides),
           ap_canonical_bytes = c \<rparr>"
    and out: "render_canonical (p\<lparr> ap_canonical_bytes := [] \<rparr>) = Ok c"
    "within (ap_effective_budget_ceiling_bytes p) (length c)"
    unfolding assemble_prompt_def Let_def all_directives_def [symmetric]
    by (auto simp: result_simps within_def split: if_splits option.splits)
  from merge_directives_merged [OF merged_empty 1(3)]
  have m: "merged (all_directives (ordered_layers s)) (by_key, overrides)" by simp
  from out(1) have r: "c = render_bytes p" "length c \<le> MAX_CANONICAL_BYTES"
    by (auto simp: render_canonical_def Let_def canon split: if_splits)
  have c: "ap_canonical_bytes p = c" by (simp add: p)
  show thesis
    by (rule that [OF _ m, unfolded c, OF _ _ _ _ _ _ _ _ _ _ r(1,2) out(2)])
       (use 1 in \<open>simp_all add: p\<close>)
qed

text \<open>The value a layer gives a key: that of its first directive for it.\<close>

definition layer_value :: "layer_input \<Rightarrow> string \<Rightarrow> string option" where
  "layer_value l k = map_option dv_value (find (\<lambda>d. dv_key d = k) (li_directives l))"

lemma first_setter_append:
  "first_setter (xs @ ys) k = (case first_setter xs k of Some w \<Rightarrow> Some w | None \<Rightarrow> first_setter ys k)"
  by (auto simp: first_setter_def find_append split: option.splits)

lemma first_setter_layer:
  "first_setter (map (\<lambda>d. (l, d)) ds) k = map_option (\<lambda>d. (dv_value d, l)) (find (\<lambda>d. dv_key d = k) ds)"
  by (induction ds) (auto simp: first_setter_def)

text \<open>On layers in rank order, the first setter of a key is the least layer that sets it.\<close>

lemma first_setter_least:
  assumes "sorted_wrt (\<lambda>a b. layer_rank (li_layer a) < layer_rank (li_layer b)) ls"
  shows "first_setter (all_directives ls) k = Some (v, wl) \<longleftrightarrow>
           (\<exists>l \<in> set ls. li_layer l = wl \<and> layer_value l k = Some v
              \<and> (\<forall>l' \<in> set ls. layer_rank (li_layer l') < layer_rank wl \<longrightarrow> layer_value l' k = None))"
  using assms
proof (induction ls)
  case (Cons l ls)
  have hd: "first_setter (all_directives (l # ls)) k =
      (case layer_value l k of Some x \<Rightarrow> Some (x, li_layer l) | None \<Rightarrow> first_setter (all_directives ls) k)"
    by (simp add: all_directives_def first_setter_append first_setter_layer layer_value_def
        split: option.splits)
  show ?case
  proof (cases "layer_value l k")
    case None
    with Cons show ?thesis by (auto simp: hd)
  next
    case (Some x)
    have "layer_rank (li_layer l) < layer_rank (li_layer l')" if "l' \<in> set ls" for l'
      using Cons.prems that by simp
    with Some show ?thesis by (auto simp: hd) (metis less_asym option.distinct(1))+
  qed
qed (simp add: all_directives_def first_setter_def)

text \<open>What an assembled prompt says about its directives, in terms of first setters.\<close>

lemma assembled_directives:
  assumes "assemble_prompt s = Ok p" and ds: "ds = all_directives (ordered_layers s)"
  shows "sorted (map dv_key (ap_effective_directives p))" "distinct (map dv_key (ap_effective_directives p))"
    and "\<lparr> dv_key = k, dv_value = v \<rparr> \<in> set (ap_effective_directives p) \<longleftrightarrow> (\<exists>wl. first_setter ds k = Some (v, wl))"
    and "set (ap_merge_overrides p) = expected_overrides ds"
    and "(l, d) \<in> set ds \<Longrightarrow> first_setter ds (dv_key d) = Some (w, wl) \<Longrightarrow> w \<noteq> dv_value d \<Longrightarrow>
           \<not> is_never_merge_directive_key (dv_key d) \<and> wl \<noteq> l"
    and "(l, d) \<in> set ds \<longleftrightarrow> (\<exists>x \<in> set (ps_layers s). li_layer x = l \<and> d \<in> set (li_directives x))"
    and "first_setter ds k = Some (v, wl) \<longleftrightarrow>
           (\<exists>l \<in> set (ps_layers s). li_layer l = wl \<and> layer_value l k = Some v
              \<and> (\<forall>l' \<in> set (ps_layers s). layer_rank (li_layer l') < layer_rank wl \<longrightarrow> layer_value l' k = None))"
proof -
  from assms(1) obtain m ovs where valid: "validate_snapshot s = Ok ()" and m: "merged ds (m, ovs)"
    and eff: "ap_effective_directives p = map (\<lambda>(key, v, _). \<lparr> dv_key = key, dv_value = v \<rparr>) m"
    and rec: "ap_merge_overrides p = remdups_adj (sort_key override_key ovs)"
    unfolding ds by (rule assemble_prompt_OkE)
  have "map dv_key (ap_effective_directives p) = map fst m" by (auto simp: eff)
  with m show "sorted (map dv_key (ap_effective_directives p))" "distinct (map dv_key (ap_effective_directives p))"
    by (simp_all add: merged_def)
  have "first_setter ds k = Some (v, wl) \<longleftrightarrow> (k, v, wl) \<in> set m" for wl
    using m map_of_eq_Some_iff [of m k "(v, wl)"] by (simp add: merged_def)
  then show "\<lparr> dv_key = k, dv_value = v \<rparr> \<in> set (ap_effective_directives p) \<longleftrightarrow>
      (\<exists>wl. first_setter ds k = Some (v, wl))"
    by (force simp: eff)
  show "set (ap_merge_overrides p) = expected_overrides ds" using m by (simp add: rec merged_def)
  show "\<not> is_never_merge_directive_key (dv_key d) \<and> wl \<noteq> l"
    if "(l, d) \<in> set ds" "first_setter ds (dv_key d) = Some (w, wl)" "w \<noteq> dv_value d"
    using m that by (fastforce simp: merged_def)
  show "(l, d) \<in> set ds \<longleftrightarrow> (\<exists>x \<in> set (ps_layers s). li_layer x = l \<and> d \<in> set (li_directives x))"
    by (auto simp: ds all_directives_def)
  have strict: "sorted_wrt (\<lambda>a b. layer_rank (li_layer a) < layer_rank (li_layer b)) (ordered_layers s)"
    by (rule ordered_layers_strict) (use valid in \<open>simp add: validate_snapshot_Ok_iff\<close>)
  show "first_setter ds k = Some (v, wl) \<longleftrightarrow>
           (\<exists>l \<in> set (ps_layers s). li_layer l = wl \<and> layer_value l k = Some v
              \<and> (\<forall>l' \<in> set (ps_layers s). layer_rank (li_layer l') < layer_rank wl \<longrightarrow> layer_value l' k = None))"
    unfolding ds by (rule first_setter_least [OF strict, unfolded set_ordered_layers])
qed

section \<open>A worked example\<close>

definition tone :: "string \<Rightarrow> directive" where
  "tone v = \<lparr> dv_key = ''tone'', dv_value = v \<rparr>"

definition user_conflict :: layer_input where
  "user_conflict = (text_only PL_User [])\<lparr> li_directives := [tone ''b'', tone ''c''] \<rparr>"

definition core_tone :: layer_input where
  "core_tone = (text_only PL_CoreContract [])\<lparr> li_directives := [tone ''a''] \<rparr>"

lemmas conflict_defs = user_conflict_def core_tone_def tone_def text_only_def

lemma conflict_layers_valid:
  "validate_layer user_conflict = Ok ()" "validate_layer core_tone = Ok ()" "validate_core_version ''v'' = Ok ()"
  by (simp_all add: conflict_defs validate_layer_def validate_layer_text_def validate_pinned_layer_trust_def
      pinned_layer_untrusted_def contains_untrusted_markers_def check_bounded_def validate_directive_def
      validate_directive_key_def validate_directive_value_def ident_ok_def ascii_class_defs
      validate_core_version_def MAX_DIRECTIVE_KEY_LEN_def MAX_DIRECTIVE_VALUE_LEN_def
      MAX_DIRECTIVES_PER_LAYER_def MAX_CORE_VERSION_LEN_def)

lemma conflict_snapshots_valid:
  "validate_snapshot \<lparr> ps_core_version = ''v'', ps_layers = [user_conflict] \<rparr> = Ok ()"
  "validate_snapshot \<lparr> ps_core_version = ''v'', ps_layers = [core_tone, user_conflict] \<rparr> = Ok ()"
  using conflict_layers_valid
  by (simp_all add: validate_snapshot_Ok_iff stable_order_def) (simp add: conflict_defs)

lemma conflict_assembles:
  "\<exists>p. assemble_prompt \<lparr> ps_core_version = ''v'', ps_layers = [core_tone, user_conflict] \<rparr> = Ok p
     \<and> map ov_overridden_value (ap_merge_overrides p) = [''b'', ''c'']
     \<and> map ov_overridden_layer (ap_merge_overrides p) = [PL_User, PL_User]"
  by (simp add: assemble_prompt_def conflict_snapshots_valid ordered_layers_def)
     (simp add: conflict_defs merge_directive_def is_never_merge_directive_key_def override_key_def
       render_canonical_def render_bytes_def render_policy_def render_section_def render_override_def
       section_of_def stable_order_def LF_def show_nat.simps MAX_CANONICAL_BYTES_def)

section \<open>Properties\<close>

text \<open>
  C9. A prompt only narrows, and every layer counts: a tool passes the dispatch check exactly when
  the dispatcher grants it and no layer denies it and every layer that constrains tools lists it. The
  scopes are those every constraining layer lists, the ceiling is the least of the layers', and the
  canonical form fits that ceiling and the hard cap.
\<close>

theorem assembled_prompt_narrows:
  assumes "assemble_prompt s = Ok p"
  shows "(check_dispatch p tool grants = Ok () \<longleftrightarrow>
            grants \<and> (\<forall>l \<in> set (ps_layers s).
              tool \<notin> set (li_denied_tools l) \<and> permits (li_allowed_tools l) tool))
         \<and> (permits (ap_effective_scopes p) scope \<longleftrightarrow> (\<forall>l \<in> set (ps_layers s). permits (li_allowed_scopes l) scope))
         \<and> (within (ap_effective_budget_ceiling_bytes p) n \<longleftrightarrow>
              (\<forall>l \<in> set (ps_layers s). within (li_budget_ceiling_bytes l) n))
         \<and> within (ap_effective_budget_ceiling_bytes p) (length (ap_canonical_bytes p))
         \<and> length (ap_canonical_bytes p) \<le> MAX_CANONICAL_BYTES"
proof -
  have dispatch: "check_dispatch p tool grants = Ok () \<longleftrightarrow>
      grants \<and> tool \<notin> set (ap_effective_denied_tools p) \<and> permits (ap_effective_allowed_tools p) tool"
    by (auto simp: check_dispatch_def list_ex_iff split: option.splits)
  from assms show ?thesis
    by (rule assemble_prompt_OkE) (auto simp: dispatch permits_intersect within_min_budget)
qed

theorem assembled_prompt_narrows_witness:
  "\<exists>p. assemble_prompt \<lparr> ps_core_version = ''v'', ps_layers = [core_tone, user_conflict] \<rparr> = Ok p
     \<and> check_dispatch p ''ls'' True = Ok () \<and> check_dispatch p ''ls'' False \<noteq> Ok ()"
proof -
  from conflict_assembles obtain p where
    p: "assemble_prompt \<lparr> ps_core_version = ''v'', ps_layers = [core_tone, user_conflict] \<rparr> = Ok p" by blast
  from assembled_prompt_narrows [OF p, of "''ls''" True] assembled_prompt_narrows [OF p, of "''ls''" False] p
  show ?thesis by (auto simp: conflict_defs)
qed

text \<open>
  C11. The order in which the layers are given does not matter: permuted snapshots are both refused,
  or assemble to the same prompt with the same canonical bytes.
\<close>

theorem assembly_ignores_layer_order:
  assumes "mset (ps_layers s) = mset (ps_layers t)" "ps_core_version s = ps_core_version t"
  shows "is_ok (assemble_prompt s) = is_ok (assemble_prompt t)
         \<and> (assemble_prompt s = Ok p \<longleftrightarrow> assemble_prompt t = Ok p)"
proof -
  have same: "set (ps_layers s) = set (ps_layers t)" "length (ps_layers s) = length (ps_layers t)"
    using mset_eq_setD [OF assms(1)] mset_eq_length [OF assms(1)] by simp_all
  have "mset (map li_layer (ps_layers s)) = mset (map li_layer (ps_layers t))"
    by (simp only: mset_map assms(1))
  from mset_eq_imp_distinct_iff [OF this]
  have valid: "validate_snapshot s = Ok () \<longleftrightarrow> validate_snapshot t = Ok ()"
    by (simp add: validate_snapshot_Ok_iff same assms(2))
  show ?thesis
  proof (cases "validate_snapshot s" rule: result_unit_cases)
    case Ok
    then have ord: "ordered_layers s = ordered_layers t"
      by (intro ordered_layers_mset assms(1)) (simp add: validate_snapshot_Ok_iff)
    from Ok valid have t: "validate_snapshot t = Ok ()" by simp
    have "assemble_prompt s = assemble_prompt t" by (simp only: assemble_prompt_def Ok t ord assms(2))
    then show ?thesis by simp
  next
    case (Err e)
    with valid obtain e' where "validate_snapshot t = Err e'" by (cases "validate_snapshot t") auto
    with Err show ?thesis by (simp add: assemble_prompt_def)
  qed
qed

theorem assembly_ignores_layer_order_witness:
  "is_ok (assemble_prompt \<lparr> ps_core_version = ''v'', ps_layers = [user_conflict, core_tone] \<rparr>)"
  using conflict_assembles assembly_ignores_layer_order
    [of "\<lparr> ps_core_version = ''v'', ps_layers = [core_tone, user_conflict] \<rparr>"
      "\<lparr> ps_core_version = ''v'', ps_layers = [user_conflict, core_tone] \<rparr>"]
  by auto

text \<open>
  C12. Directives resolve by precedence: the effective directives are sorted by key, one per key, and
  a key has the value that the most privileged layer setting it gives it. Every differing value of
  another directive is on a mergeable key, comes from a strictly less privileged layer and is on
  record as overridden by the effective one; and every record is of that kind.
\<close>

theorem directives_resolve_by_precedence:
  assumes "assemble_prompt s = Ok p"
  shows "sorted (map dv_key (ap_effective_directives p)) \<and> distinct (map dv_key (ap_effective_directives p))
    \<and> (\<lparr> dv_key = k, dv_value = v \<rparr> \<in> set (ap_effective_directives p) \<longleftrightarrow>
         (\<exists>l \<in> set (ps_layers s). layer_value l k = Some v
            \<and> (\<forall>l' \<in> set (ps_layers s). layer_rank (li_layer l') < layer_rank (li_layer l) \<longrightarrow> layer_value l' k = None)))
    \<and> (\<forall>l \<in> set (ps_layers s). \<forall>d \<in> set (li_directives l). \<forall>w.
         \<lparr> dv_key = dv_key d, dv_value = w \<rparr> \<in> set (ap_effective_directives p) \<longrightarrow> w \<noteq> dv_value d \<longrightarrow>
           \<not> is_never_merge_directive_key (dv_key d)
           \<and> (\<exists>wl. layer_rank wl < layer_rank (li_layer l)
                 \<and> override_of (w, wl) (li_layer l) d \<in> set (ap_merge_overrides p)))
    \<and> (\<forall>ov \<in> set (ap_merge_overrides p).
         \<lparr> dv_key = ov_key ov, dv_value = ov_winning_value ov \<rparr> \<in> set (ap_effective_directives p)
         \<and> ov_winning_value ov \<noteq> ov_overridden_value ov
         \<and> (\<exists>l \<in> set (ps_layers s). li_layer l = ov_overridden_layer ov
              \<and> \<lparr> dv_key = ov_key ov, dv_value = ov_overridden_value ov \<rparr> \<in> set (li_directives l)))"
proof -
  note dirs = assembled_directives [OF assms refl]
  note mem = dirs(3) and ovs = dirs(4) and in_ds = dirs(6) and least = dirs(7)
  let ?ds = "all_directives (ordered_layers s)"
  have win: "\<not> is_never_merge_directive_key (dv_key d)
      \<and> (\<exists>wl. layer_rank wl < layer_rank (li_layer l)
            \<and> override_of (w, wl) (li_layer l) d \<in> set (ap_merge_overrides p))"
    if l: "l \<in> set (ps_layers s)" "d \<in> set (li_directives l)" and w: "w \<noteq> dv_value d"
      "\<lparr> dv_key = dv_key d, dv_value = w \<rparr> \<in> set (ap_effective_directives p)" for l d w
  proof -
    from w(2) obtain wl where wl: "first_setter ?ds (dv_key d) = Some (w, wl)" by (auto simp: mem)
    from l have pair: "(li_layer l, d) \<in> set ?ds" by (auto simp: in_ds)
    note mergeable = dirs(5) [OF pair wl w(1)]
    have "layer_value l (dv_key d) \<noteq> None"
      using l(2) by (auto simp: layer_value_def find_key_None_iff)
    moreover from iffD1 [OF least wl]
    have "\<forall>l' \<in> set (ps_layers s). layer_rank (li_layer l') < layer_rank wl \<longrightarrow> layer_value l' (dv_key d) = None"
      by blast
    ultimately have "\<not> layer_rank (li_layer l) < layer_rank wl" using l(1) by auto
    with mergeable have "layer_rank wl < layer_rank (li_layer l)"
      by (metis layer_rank_inject linorder_neqE_nat)
    moreover have "override_of (w, wl) (li_layer l) d \<in> expected_overrides ?ds"
      unfolding expected_overrides_def using pair wl w(1) by fastforce
    ultimately show ?thesis using mergeable ovs by blast
  qed
  have rec_ok: "\<lparr> dv_key = ov_key ov, dv_value = ov_winning_value ov \<rparr> \<in> set (ap_effective_directives p)
      \<and> ov_winning_value ov \<noteq> ov_overridden_value ov
      \<and> (\<exists>l \<in> set (ps_layers s). li_layer l = ov_overridden_layer ov
           \<and> \<lparr> dv_key = ov_key ov, dv_value = ov_overridden_value ov \<rparr> \<in> set (li_directives l))"
    if "ov \<in> set (ap_merge_overrides p)" for ov
  proof -
    from that [unfolded ovs expected_overrides_def] obtain w l d where o: "ov = override_of w l d"
      "(l, d) \<in> set ?ds" "first_setter ?ds (dv_key d) = Some w" "fst w \<noteq> dv_value d" by blast
    have eta: "\<lparr> dv_key = dv_key e, dv_value = dv_value e \<rparr> = e" for e :: directive by simp
    from o show ?thesis by (cases w) (auto simp: override_of_def mem in_ds eta)
  qed
  have "\<lparr> dv_key = k, dv_value = v \<rparr> \<in> set (ap_effective_directives p) \<longleftrightarrow>
         (\<exists>l \<in> set (ps_layers s). layer_value l k = Some v
            \<and> (\<forall>l' \<in> set (ps_layers s). layer_rank (li_layer l') < layer_rank (li_layer l) \<longrightarrow> layer_value l' k = None))"
    unfolding mem least by blast
  then show ?thesis using dirs(1,2) win rec_ok by blast
qed

theorem directives_resolve_by_precedence_witness:
  "\<exists>p. assemble_prompt \<lparr> ps_core_version = ''v'', ps_layers = [core_tone, user_conflict] \<rparr> = Ok p
     \<and> tone ''a'' \<in> set (ap_effective_directives p) \<and> tone ''b'' \<notin> set (ap_effective_directives p)"
proof -
  from conflict_assembles obtain p where
    p: "assemble_prompt \<lparr> ps_core_version = ''v'', ps_layers = [core_tone, user_conflict] \<rparr> = Ok p" by blast
  from directives_resolve_by_precedence [OF p, of "''tone''" "''a''"]
    directives_resolve_by_precedence [OF p, of "''tone''" "''b''"] p
  show ?thesis by (simp add: conflict_defs layer_value_def)
qed

text \<open>
  A conflict inside one layer is not always refused: two different values for one key in the
  user layer alone are an unresolvable conflict, but with a core layer that sets the key the same
  user layer is accepted, and both of its values are recorded as overridden.
\<close>

theorem same_layer_conflict_masked:
  "assemble_prompt \<lparr> ps_core_version = ''v'', ps_layers = [user_conflict] \<rparr>
     = Err (PrE_UnresolvableConflict ''tone'' ''b'' ''c'')
   \<and> (\<exists>p. assemble_prompt \<lparr> ps_core_version = ''v'', ps_layers = [core_tone, user_conflict] \<rparr> = Ok p
        \<and> map ov_overridden_value (ap_merge_overrides p) = [''b'', ''c'']
        \<and> map ov_overridden_layer (ap_merge_overrides p) = [PL_User, PL_User])"
  by (rule conjI [OF _ conflict_assembles])
     (simp add: assemble_prompt_def conflict_snapshots_valid ordered_layers_def,
      simp add: conflict_defs merge_directive_def is_never_merge_directive_key_def)

end
