(* ===== verification/Prompt_Canonical.thy ===== *)
theory Prompt_Canonical
  imports Prompt
begin

text \<open>
  The canonical byte form of an assembled prompt (\<open>render_canonical\<close> in \<open>prompt.rs\<close>) determines the
  prompt, and its leading bytes are stable under changes of the trailing layer.
\<close>

section \<open>Reading a rendering back, piece by piece\<close>

lemma line_inject:
  assumes "x \<notin> set a" "x \<notin> set b" "a @ x # r = b @ x # r'"
  shows "a = b \<and> r = r'"
  using assms by (induction a arbitrary: b) (case_tac b; auto)+

text \<open>Lines with a common prefix, ended by something that does not start with it.\<close>

lemma block_inject:
  assumes "\<forall>x \<in> set xs. CHR 0x0A \<notin> set x" "\<forall>y \<in> set ys. CHR 0x0A \<notin> set y"
    and "\<not> prefix pre r" "\<not> prefix pre r'"
    and "concat (map (\<lambda>x. pre @ x @ LF) xs) @ r = concat (map (\<lambda>y. pre @ y @ LF) ys) @ r'"
  shows "xs = ys \<and> r = r'"
  using assms
proof (induction xs arbitrary: ys)
  case Nil
  then show ?case by (cases ys) (auto simp: prefix_def)
next
  case (Cons x xs)
  show ?case
  proof (cases ys)
    case Nil
    with Cons.prems show ?thesis by (auto simp: prefix_def)
  next
    case (Cons y ys')
    with Cons.prems have "x @ CHR 0x0A # (concat (map (\<lambda>x. pre @ x @ LF) xs) @ r)
        = y @ CHR 0x0A # (concat (map (\<lambda>y. pre @ y @ LF) ys') @ r')"
      by (simp add: LF_def)
    from line_inject [OF _ _ this] Cons Cons.prems
    have "x = y" "concat (map (\<lambda>x. pre @ x @ LF) xs) @ r = concat (map (\<lambda>y. pre @ y @ LF) ys') @ r'"
      by auto
    with Cons.IH [of ys'] Cons.prems Cons show ?thesis by auto
  qed
qed

lemma show_nat_chars: "c \<in> set (show_nat n) \<Longrightarrow> is_ascii_digit c"
  using show_nat_digits [of n] by (auto simp: list_all_iff)

lemma show_nat_free: "\<not> is_ascii_digit c \<Longrightarrow> c \<notin> set (show_nat n)"
  using show_nat_chars by blast

text \<open>A length, a separator that is no digit, then that many bytes.\<close>

lemma counted_inject:
  assumes "\<not> is_ascii_digit sep"
    and "show_nat (length u) @ sep # pre @ u @ r = show_nat (length v) @ sep # pre @ v @ r'"
  shows "u = v \<and> r = r'"
proof -
  from line_inject [OF show_nat_free show_nat_free assms(2)] assms(1) have "length u = length v" "u @ r = v @ r'" by simp_all
  then show ?thesis by simp
qed

lemma layer_name_no_space: "CHR '' '' \<notin> set (layer_name l)"
  by (cases l) auto

lemma layer_name_inject: "layer_name a = layer_name b \<longleftrightarrow> a = b"
  by (cases a; cases b) auto

lemma render_section_inject:
  assumes "se_layer s = se_layer t" "render_section s @ r = render_section t @ r'"
  shows "s = t \<and> r = r'"
proof -
  have "show_nat (length (se_text s)) @ CHR '']'' # LF @ se_text s @ (LF @ r)
      = show_nat (length (se_text t)) @ CHR '']'' # LF @ se_text t @ (LF @ r')"
    using assms(2) by (simp add: render_section_def assms(1))
  from counted_inject [OF _ this] assms(1) show ?thesis
    by (auto simp: ascii_class_defs)
qed

lemma render_sections_inject:
  assumes "map se_layer ss = map se_layer ts"
    and "concat (map render_section ss) @ r = concat (map render_section ts) @ r'"
  shows "ss = ts \<and> r = r'"
  using assms
proof (induction ss arbitrary: ts)
  case (Cons s ss)
  then obtain t ts' where ts: "ts = t # ts'" "se_layer s = se_layer t" "map se_layer ss = map se_layer ts'"
    by auto
  with Cons.prems(2) have "render_section s @ (concat (map render_section ss) @ r)
      = render_section t @ (concat (map render_section ts') @ r')" by simp
  from render_section_inject [OF ts(2) this] Cons.IH [OF ts(3)] ts(1) show ?case by simp
qed simp

text \<open>A layer name and a counted value, as an override line has them twice.\<close>

definition counted_field :: "string \<Rightarrow> prompt_layer \<Rightarrow> string \<Rightarrow> string" where
  "counted_field label l v = layer_name l @ CHR '' '' # label @ show_nat (length v) @ CHR '':'' # v"

lemma counted_field_inject:
  assumes "counted_field label a u @ r = counted_field label b v @ r'"
  shows "a = b \<and> u = v \<and> r = r'"
proof -
  have "layer_name a @ CHR '' '' # (label @ show_nat (length u) @ CHR '':'' # u @ r)
      = layer_name b @ CHR '' '' # (label @ show_nat (length v) @ CHR '':'' # v @ r')"
    using assms by (simp add: counted_field_def)
  note fields = line_inject [OF layer_name_no_space layer_name_no_space this]
  then have "show_nat (length u) @ CHR '':'' # [] @ u @ r = show_nat (length v) @ CHR '':'' # [] @ v @ r'"
    by simp
  from counted_inject [OF _ this] fields show ?thesis by (simp add: ascii_class_defs layer_name_inject)
qed

text \<open>An override line without its prefix and newline.\<close>

definition override_content :: "directive_override \<Rightarrow> string" where
  "override_content ov =
     ov_key ov @ CHR '' '' # ''winner:'' @ counted_field ''wlen='' (ov_winning_layer ov) (ov_winning_value ov)
     @ '' overridden:'' @ counted_field ''olen='' (ov_overridden_layer ov) (ov_overridden_value ov)"

lemma render_override_content: "render_override ov = ''override:'' @ override_content ov @ LF"
  by (simp add: render_override_def override_content_def counted_field_def)

lemma override_content_inject:
  assumes "CHR '' '' \<notin> set (ov_key a)" "CHR '' '' \<notin> set (ov_key b)"
    and "override_content a = override_content b"
  shows "a = b"
proof -
  note key = line_inject [OF assms(1,2) assms(3) [unfolded override_content_def]]
  then have "counted_field ''wlen='' (ov_winning_layer a) (ov_winning_value a)
        @ '' overridden:'' @ counted_field ''olen='' (ov_overridden_layer a) (ov_overridden_value a)
      = counted_field ''wlen='' (ov_winning_layer b) (ov_winning_value b)
        @ '' overridden:'' @ counted_field ''olen='' (ov_overridden_layer b) (ov_overridden_value b)" by simp
  note winner = counted_field_inject [OF this]
  then have "counted_field ''olen='' (ov_overridden_layer a) (ov_overridden_value a) @ []
      = counted_field ''olen='' (ov_overridden_layer b) (ov_overridden_value b) @ []" by simp
  from counted_field_inject [OF this] key winner show ?thesis by simp
qed

section \<open>The rendering determines the prompt\<close>

text \<open>Text that can stand on a line, and the shape of everything an assembled prompt lists.\<close>

definition one_line :: "string \<Rightarrow> bool" where
  "one_line s \<longleftrightarrow> CHR 0x0A \<notin> set s"

definition ident :: "string \<Rightarrow> bool" where
  "ident s \<longleftrightarrow> s \<noteq> [] \<and> (\<forall>c \<in> set s. c \<notin> {CHR 0x0A, CHR '' '', CHR ''='', CHR ''*''})"

definition printable_prompt :: "assembled_prompt \<Rightarrow> bool" where
  "printable_prompt p \<longleftrightarrow>
     one_line (ap_core_version p) \<and> map se_layer (ap_sections p) = stable_order
     \<and> ap_effective_allowed_tools p \<noteq> Some []
     \<and> pred_option (\<lambda>ts. \<forall>t \<in> set ts. ident t) (ap_effective_allowed_tools p)
     \<and> (\<forall>t \<in> set (ap_effective_denied_tools p). ident t)
     \<and> pred_option (\<lambda>ss. \<forall>s \<in> set ss. ident s) (ap_effective_scopes p)
     \<and> (\<forall>d \<in> set (ap_effective_directives p). ident (dv_key d) \<and> one_line (dv_value d))
     \<and> (\<forall>ov \<in> set (ap_merge_overrides p).
          ident (ov_key ov) \<and> one_line (ov_winning_value ov) \<and> one_line (ov_overridden_value ov))
     \<and> sorted (map override_key (ap_merge_overrides p))"

lemma ident_one_line: "ident s \<Longrightarrow> one_line s"
  by (auto simp: ident_def one_line_def)

text \<open>An optional list: a starred line for \<open>None\<close>, one line per entry otherwise.\<close>

definition render_constraint :: "string \<Rightarrow> string list option \<Rightarrow> bytes" where
  "render_constraint pre c =
     (case c of None \<Rightarrow> pre @ ''*'' @ LF | Some list \<Rightarrow> concat (map (\<lambda>x. pre @ x @ LF) list))"

lemma constraint_inject:
  assumes "pred_option (\<lambda>ts. \<forall>t \<in> set ts. ident t) a" "pred_option (\<lambda>ts. \<forall>t \<in> set ts. ident t) b"
    and "\<not> prefix pre r" "\<not> prefix pre r'"
    and "render_constraint pre a @ r = render_constraint pre b @ r'"
  shows "a = b \<and> r = r'"
proof -
  define lines where "lines c = (case c of None \<Rightarrow> [''*''] | Some list \<Rightarrow> list)" for c :: "string list option"
  have eq: "render_constraint pre c = concat (map (\<lambda>x. pre @ x @ LF) (lines c))" for c
    by (cases c) (simp_all add: render_constraint_def lines_def)
  have ok: "\<forall>x \<in> set (lines c). CHR 0x0A \<notin> set x" if "pred_option (\<lambda>ts. \<forall>t \<in> set ts. ident t) c" for c
    using that by (cases c) (auto simp: lines_def ident_def)
  from block_inject [OF ok [OF assms(1)] ok [OF assms(2)] assms(3,4) assms(5) [unfolded eq]]
  have "lines a = lines b" "r = r'" by auto
  moreover have "a = b" if "lines a = lines b"
    using that assms(1,2) by (cases a; cases b) (auto simp: lines_def ident_def)
  ultimately show ?thesis by blast
qed

lemma budget_inject:
  assumes "(case a of None \<Rightarrow> ''budget:*'' @ LF | Some n \<Rightarrow> ''budget:'' @ show_nat n @ LF) @ r
         = (case b of None \<Rightarrow> ''budget:*'' @ LF | Some n \<Rightarrow> ''budget:'' @ show_nat n @ LF) @ r'"
  shows "a = b \<and> r = r'"
proof -
  define body where "body c = (case c of None \<Rightarrow> ''*'' | Some n \<Rightarrow> show_nat n)" for c :: "nat option"
  have digit: "CHR 0x0A \<notin> set (show_nat n)" "show_nat n \<noteq> ''*''" for n
    using show_nat_free [of "CHR 0x0A" n] show_nat_free [of "CHR ''*''" n] by (auto simp: ascii_class_defs)
  then have "CHR 0x0A \<notin> set (body c)" for c by (cases c) (auto simp: body_def)
  moreover have "body a @ CHR 0x0A # r = body b @ CHR 0x0A # r'"
    using assms by (cases a; cases b) (simp_all add: body_def LF_def)
  ultimately have "body a = body b" "r = r'" using line_inject [of "CHR 0x0A" "body a" "body b" r r'] by auto
  then show ?thesis using digit(2) by (cases a; cases b) (auto simp: body_def)
qed

definition directive_content :: "directive \<Rightarrow> string" where
  "directive_content d = dv_key d @ CHR ''='' # dv_value d"

lemma directive_content_inject:
  assumes "ident (dv_key d)" "ident (dv_key e)" "directive_content d = directive_content e"
  shows "d = e"
proof -
  have "CHR ''='' \<notin> set (dv_key d)" "CHR ''='' \<notin> set (dv_key e)"
    using assms(1,2) by (auto simp: ident_def)
  from line_inject [OF this assms(3) [unfolded directive_content_def]] show ?thesis by simp
qed

lemma directives_inject:
  fixes ds es :: "directive list"
  assumes "\<forall>d \<in> set ds. ident (dv_key d) \<and> one_line (dv_value d)" "\<forall>d \<in> set es. ident (dv_key d) \<and> one_line (dv_value d)"
    and "\<not> prefix ''directive:'' r" "\<not> prefix ''directive:'' r'"
    and "concat (map (\<lambda>d. ''directive:'' @ dv_key d @ ''='' @ dv_value d @ LF) ds) @ r
         = concat (map (\<lambda>d. ''directive:'' @ dv_key d @ ''='' @ dv_value d @ LF) es) @ r'"
  shows "ds = es \<and> r = r'"
proof -
  have "concat (map (\<lambda>d. ''directive:'' @ dv_key d @ ''='' @ dv_value d @ LF) xs)
      = concat (map (\<lambda>x. ''directive:'' @ x @ LF) (map directive_content xs))" for xs
    by (simp add: directive_content_def comp_def)
  with assms(5) have "concat (map (\<lambda>x. ''directive:'' @ x @ LF) (map directive_content ds)) @ r
      = concat (map (\<lambda>x. ''directive:'' @ x @ LF) (map directive_content es)) @ r'" by simp
  from block_inject [OF _ _ assms(3,4) this] assms(1,2)
  have "map directive_content ds = map directive_content es" "r = r'"
    by (fastforce simp: directive_content_def ident_def one_line_def)+
  moreover have "inj_on directive_content (set ds \<union> set es)"
    using assms(1,2) directive_content_inject by (auto intro!: inj_onI)
  ultimately show ?thesis using map_inj_on by blast
qed

lemma overrides_inject:
  fixes xs ys :: "directive_override list"
  assumes "\<forall>ov \<in> set xs. ident (ov_key ov) \<and> one_line (ov_winning_value ov) \<and> one_line (ov_overridden_value ov)"
    and "\<forall>ov \<in> set ys. ident (ov_key ov) \<and> one_line (ov_winning_value ov) \<and> one_line (ov_overridden_value ov)"
    and "\<not> prefix ''override:'' r" "\<not> prefix ''override:'' r'"
    and "concat (map render_override xs) @ r = concat (map render_override ys) @ r'"
  shows "xs = ys \<and> r = r'"
proof -
  have names: "CHR 0x0A \<notin> set (layer_name l)" for l by (cases l) auto
  have digits: "CHR 0x0A \<notin> set (show_nat n)" for n
    by (rule show_nat_free) (simp add: ascii_class_defs)
  have content: "CHR 0x0A \<notin> set (override_content ov)"
    if "ident (ov_key ov)" "one_line (ov_winning_value ov)" "one_line (ov_overridden_value ov)" for ov
    using ident_one_line [OF that(1)] that(2,3) names digits
    by (simp add: override_content_def counted_field_def one_line_def)
  have nl: "\<forall>x \<in> set (map override_content zs). CHR 0x0A \<notin> set x"
    if "\<forall>ov \<in> set zs. ident (ov_key ov) \<and> one_line (ov_winning_value ov) \<and> one_line (ov_overridden_value ov)"
    for zs
    using that content by simp
  have lines: "concat (map render_override zs) = concat (map (\<lambda>x. ''override:'' @ x @ LF) (map override_content zs))" for zs
    by (induction zs) (simp_all add: render_override_content)
  note block = block_inject [OF nl [OF assms(1)] nl [OF assms(2)] assms(3,4) assms(5) [unfolded lines]]
  have "CHR '' '' \<notin> set (ov_key ov)" if "ov \<in> set xs \<union> set ys" for ov
  proof -
    from that assms(1,2) have "ident (ov_key ov)" by blast
    then show ?thesis by (auto simp: ident_def)
  qed
  then have inj: "inj_on override_content (set xs \<union> set ys)"
    by (intro inj_onI) (rule override_content_inject; blast)
  from map_inj_on [OF conjunct1 [OF block] inj] block show ?thesis by (rule conjI [OF _ conjunct2])
qed

lemma render_policy_inject:
  assumes "printable_prompt p" "printable_prompt q" "render_policy p = render_policy q"
  shows "ap_effective_allowed_tools p = ap_effective_allowed_tools q
    \<and> ap_effective_denied_tools p = ap_effective_denied_tools q
    \<and> ap_effective_budget_ceiling_bytes p = ap_effective_budget_ceiling_bytes q
    \<and> ap_effective_scopes p = ap_effective_scopes q
    \<and> ap_effective_directives p = ap_effective_directives q \<and> ap_merge_overrides p = ap_merge_overrides q"
proof -
  define r5 where "r5 p = concat (map render_override (ap_merge_overrides p)) @ ''end'' @ LF" for p :: assembled_prompt
  define r4 where "r4 p = concat (map (\<lambda>d. ''directive:'' @ dv_key d @ ''='' @ dv_value d @ LF)
      (ap_effective_directives p)) @ r5 p" for p :: assembled_prompt
  define r3 where "r3 p = render_constraint ''scope:'' (ap_effective_scopes p) @ r4 p" for p :: assembled_prompt
  define r2 where "r2 p = (case ap_effective_budget_ceiling_bytes p of None \<Rightarrow> ''budget:*'' @ LF
      | Some n \<Rightarrow> ''budget:'' @ show_nat n @ LF) @ r3 p" for p :: assembled_prompt
  define r1 where "r1 p = concat (map (\<lambda>t. ''denied:'' @ t @ LF) (ap_effective_denied_tools p)) @ r2 p" for p :: assembled_prompt
  note rs = r1_def r2_def r3_def r4_def r5_def
  have ord: "sort_key override_key (ap_merge_overrides x) = ap_merge_overrides x" if "printable_prompt x" for x
    using that by (simp add: printable_prompt_def sort_key_id_if_sorted)
  have r0: "render_policy x = render_constraint ''allowed:'' (ap_effective_allowed_tools x) @ r1 x"
    if "printable_prompt x" for x
    by (simp add: render_policy_def render_constraint_def ord [OF that] rs split: option.split)
  have p1: "\<not> prefix ''allowed:'' (r1 x)" "\<not> prefix ''denied:'' (r2 x)" for x
    by (cases "ap_effective_denied_tools x"; simp add: rs split: option.splits)+
  have p4: "\<not> prefix ''directive:'' (r5 x)" "\<not> prefix ''override:'' (''end'' @ LF)" for x
    by (cases "ap_merge_overrides x"; simp add: rs render_override_def)+
  have p3: "\<not> prefix ''scope:'' (r4 x)" for x
    using p4(1) [of x]
    by (cases "ap_effective_directives x"; cases "ap_merge_overrides x") (simp_all add: rs render_override_def)
  have ok: "pred_option (\<lambda>ts. \<forall>t \<in> set ts. ident t) (ap_effective_allowed_tools x)"
      "pred_option (\<lambda>ts. \<forall>t \<in> set ts. ident t) (ap_effective_scopes x)"
      "\<forall>t \<in> set (ap_effective_denied_tools x). CHR 0x0A \<notin> set t"
      "\<forall>d \<in> set (ap_effective_directives x). ident (dv_key d) \<and> one_line (dv_value d)"
      "\<forall>ov \<in> set (ap_merge_overrides x).
         ident (ov_key ov) \<and> one_line (ov_winning_value ov) \<and> one_line (ov_overridden_value ov)"
    if "printable_prompt x" for x
    using that by (auto simp: printable_prompt_def ident_def)
  note okp = ok [OF assms(1)] and okq = ok [OF assms(2)]
  note 1 = constraint_inject [OF okp(1) okq(1) p1(1) p1(1) assms(3) [unfolded r0 [OF assms(1)] r0 [OF assms(2)]]]
  note 2 = block_inject [OF okp(3) okq(3) p1(2) p1(2) conjunct2 [OF 1, unfolded r1_def]]
  note 3 = budget_inject [OF conjunct2 [OF 2, unfolded r2_def]]
  note 4 = constraint_inject [OF okp(2) okq(2) p3 p3 conjunct2 [OF 3, unfolded r3_def]]
  note 5 = directives_inject [OF okp(4) okq(4) p4(1) p4(1) conjunct2 [OF 4, unfolded r4_def]]
  note 6 = overrides_inject [OF okp(5) okq(5) p4(2) p4(2) conjunct2 [OF 5, unfolded r5_def]]
  from 1 2 3 4 5 6 show ?thesis by blast
qed

section \<open>Assembled prompts are printable\<close>

lemma ident_okD:
  assumes "ident_ok bound cls s" "\<forall>c \<in> {CHR 0x0A, CHR '' '', CHR ''='', CHR ''*''}. \<not> cls c"
  shows "ident s"
proof -
  have "c \<notin> {CHR 0x0A, CHR '' '', CHR ''='', CHR ''*''}" if "c \<in> set s" for c
  proof
    assume bad: "c \<in> {CHR 0x0A, CHR '' '', CHR ''='', CHR ''*''}"
    have "is_ascii_lowercase c \<or> is_ascii_digit c \<or> cls c"
      using assms(1) that by (simp add: ident_ok_def list_all_iff)
    with bad assms(2) show False by (auto simp: ascii_class_defs)
  qed
  with assms(1) show ?thesis by (simp add: ident_def ident_ok_def)
qed

lemma tool_name_ident: "valid_tool_name t \<Longrightarrow> ident t"
  by (rule ident_okD [where cls = "\<lambda>b. b \<in> set ''_.-''" and bound = MAX_TOOL_NAME_LEN])
     (auto simp: valid_tool_name_def ident_ok_def tool_name_char_def list_all_iff)

lemma layer_idents:
  assumes "validate_layer l = Ok ()"
  shows "pred_option (\<lambda>ts. \<forall>t \<in> set ts. ident t) (li_allowed_tools l)" "\<forall>t \<in> set (li_denied_tools l). ident t"
    "pred_option (\<lambda>ts. \<forall>t \<in> set ts. ident t) (li_allowed_scopes l)"
    "\<forall>d \<in> set (li_directives l). ident (dv_key d) \<and> one_line (dv_value d)"
proof -
  have tool: "validate_prompt_tool_name t = Ok () \<Longrightarrow> ident t" for t
    by (auto simp: validate_prompt_tool_name_def result_simps intro: tool_name_ident split: result.splits)
  have scope: "validate_scope t = Ok () \<Longrightarrow> ident t" for t
    by (rule ident_okD [where cls = "\<lambda>b. b \<in> set ''_.-''" and bound = MAX_SCOPE_LEN])
       (auto simp: validate_scope_def split: if_splits)
  have dir: "validate_directive d = Ok () \<Longrightarrow> ident (dv_key d) \<and> one_line (dv_value d)" for d
    using ident_okD [where cls = "\<lambda>b. b \<in> set ''_.-''" and bound = MAX_DIRECTIVE_KEY_LEN and s = "dv_key d"]
    by (auto simp: validate_directive_def validate_directive_key_def validate_directive_value_def
        result_simps one_line_def list_ex_iff split: if_splits)
  have "pred_option (\<lambda>ts. \<forall>t \<in> set ts. validate_prompt_tool_name t = Ok ()) (li_allowed_tools l)"
    "\<forall>t \<in> set (li_denied_tools l). validate_prompt_tool_name t = Ok ()"
    "pred_option (\<lambda>ts. \<forall>t \<in> set ts. validate_scope t = Ok ()) (li_allowed_scopes l)"
    "\<forall>d \<in> set (li_directives l). validate_directive d = Ok ()"
    using assms
    by (simp_all add: validate_layer_def check_bounded_def result_simps split: option.splits if_splits)
  then show "pred_option (\<lambda>ts. \<forall>t \<in> set ts. ident t) (li_allowed_tools l)" "\<forall>t \<in> set (li_denied_tools l). ident t"
    "pred_option (\<lambda>ts. \<forall>t \<in> set ts. ident t) (li_allowed_scopes l)"
    "\<forall>d \<in> set (li_directives l). ident (dv_key d) \<and> one_line (dv_value d)"
    using tool scope dir by (auto intro: option.pred_mono_strong)
qed

lemma intersect_members:
  assumes "\<forall>c \<in> set cs. pred_option (\<lambda>ts. \<forall>t \<in> set ts. P t) c"
  shows "pred_option (\<lambda>ts. \<forall>t \<in> set ts. P t) (intersect_lists None cs)"
proof (cases "intersect_lists None cs")
  case (Some r)
  then obtain c where "c \<in> set cs" "c \<noteq> None" using intersect_None_iff [of None cs] by auto
  then obtain ts where ts: "Some ts \<in> set cs" by auto
  have "P t" if "t \<in> set r" for t
  proof -
    from that Some have "permits (intersect_lists None cs) t" by simp
    with ts have "t \<in> set ts" by (auto simp: permits_intersect)
    with assms ts show "P t" by fastforce
  qed
  with Some show ?thesis by simp
qed simp

lemma sorted_map_remdups_adj: "sorted (map f xs) \<Longrightarrow> sorted (map f (remdups_adj xs))"
  by (induction xs rule: remdups_adj.induct) auto

lemma assembled_printable:
  assumes "assemble_prompt s = Ok p"
  shows "printable_prompt p"
proof -
  note dirs = assembled_directives [OF assms refl]
  from assms obtain by_key overrides where valid: "validate_snapshot s = Ok ()"
    and p: "ap_core_version p = ps_core_version s"
    "ap_sections p = map (section_of (ordered_layers s)) stable_order"
    "ap_effective_allowed_tools p = intersect_lists None (map li_allowed_tools (ordered_layers s))"
    "ap_effective_allowed_tools p \<noteq> Some []"
    "ap_effective_denied_tools p = remdups_adj (sort (concat (map li_denied_tools (ordered_layers s))))"
    "ap_effective_scopes p = intersect_lists None (map li_allowed_scopes (ordered_layers s))"
    "ap_merge_overrides p = remdups_adj (sort_key override_key overrides)"
    by (rule assemble_prompt_OkE)
  have layer: "validate_layer l = Ok ()" if "l \<in> set (ps_layers s)" for l
    using valid that by (simp add: validate_snapshot_Ok_iff)
  note idents = layer_idents [OF layer]
  have allowed: "pred_option (\<lambda>ts. \<forall>t \<in> set ts. ident t) (ap_effective_allowed_tools p)"
    unfolding p(3) by (rule intersect_members) (use idents(1) in auto)
  have scopes: "pred_option (\<lambda>ts. \<forall>t \<in> set ts. ident t) (ap_effective_scopes p)"
    unfolding p(6) by (rule intersect_members) (use idents(3) in auto)
  have denied: "\<forall>t \<in> set (ap_effective_denied_tools p). ident t"
    unfolding p(5) using idents(2) by auto
  have version: "one_line (ap_core_version p)"
    using valid ident_okD [where cls = "\<lambda>b. b \<in> set ''-_.@''" and s = "ps_core_version s"]
    by (auto simp: p(1) validate_snapshot_Ok_iff validate_core_version_def intro!: ident_one_line split: if_splits)
  have setter: "ident k \<and> one_line v" if set: "first_setter (all_directives (ordered_layers s)) k = Some (v, wl)" for k v wl
  proof -
    from iffD1 [OF dirs(7) set] obtain l d where l: "l \<in> set (ps_layers s)"
      "find (\<lambda>d. dv_key d = k) (li_directives l) = Some d" "dv_value d = v"
      by (auto simp: layer_value_def)
    from find_key_Some [OF l(2)] idents(4) [OF l(1)] l(3) show ?thesis by auto
  qed
  have eff: "ident (dv_key d) \<and> one_line (dv_value d)" if "d \<in> set (ap_effective_directives p)" for d
  proof -
    have "\<lparr> dv_key = dv_key d, dv_value = dv_value d \<rparr> = d" by simp
    with that have "\<lparr> dv_key = dv_key d, dv_value = dv_value d \<rparr> \<in> set (ap_effective_directives p)" by (simp only:)
    with dirs(3) setter show ?thesis by blast
  qed
  have ovs: "ident (ov_key ov) \<and> one_line (ov_winning_value ov) \<and> one_line (ov_overridden_value ov)"
    if "ov \<in> set (ap_merge_overrides p)" for ov
  proof -
    from that [unfolded dirs(4) expected_overrides_def] obtain w l d where o: "ov = override_of w l d"
      "(l, d) \<in> set (all_directives (ordered_layers s))"
      "first_setter (all_directives (ordered_layers s)) (dv_key d) = Some w" by blast
    from o(2) obtain x where "x \<in> set (ps_layers s)" "d \<in> set (li_directives x)" using dirs(6) by blast
    with idents(4) have "one_line (dv_value d)" by blast
    moreover from setter [of "dv_key d" "fst w" "snd w"] o(3) have "ident (dv_key d) \<and> one_line (fst w)" by simp
    ultimately show ?thesis using o(1) by (simp add: override_of_def)
  qed
  have "sorted (map override_key (ap_merge_overrides p))" by (simp add: p(7) sorted_map_remdups_adj)
  moreover have "map se_layer (ap_sections p) = stable_order" by (simp add: p(2) section_of_def comp_def)
  ultimately show ?thesis
    unfolding printable_prompt_def using allowed scopes denied version p(4) eff ovs by blast
qed

lemma common_prefix_len_append: "length x \<le> common_prefix_len (x @ a) (x @ b)"
  by (induction x) auto

section \<open>Properties\<close>

text \<open>
  C10. The canonical form determines the prompt: two assembled prompts with the same canonical bytes
  agree in every field, whatever newlines, section-like text or separators their texts and values
  contain.
\<close>

theorem canonical_bytes_injective:
  assumes "assemble_prompt s = Ok p" "assemble_prompt t = Ok q" "ap_canonical_bytes p = ap_canonical_bytes q"
  shows "p = q"
proof -
  have bytes: "ap_canonical_bytes x = render_bytes x" if "assemble_prompt y = Ok x" for x y
    using that by (rule assemble_prompt_OkE)
  note print = assembled_printable [OF assms(1)] assembled_printable [OF assms(2)]
  have "ap_core_version p @ CHR 0x0A # concat (map render_section (ap_sections p)) @ ''[effective]'' @ LF @ render_policy p
      = ap_core_version q @ CHR 0x0A # concat (map render_section (ap_sections q)) @ ''[effective]'' @ LF @ render_policy q"
    using assms(3) by (simp add: bytes [OF assms(1)] bytes [OF assms(2)] render_bytes_def LF_def)
  from line_inject [OF _ _ this] print
  have version: "ap_core_version p = ap_core_version q"
    and rest: "concat (map render_section (ap_sections p)) @ (''[effective]'' @ LF @ render_policy p)
      = concat (map render_section (ap_sections q)) @ (''[effective]'' @ LF @ render_policy q)"
    by (simp_all add: printable_prompt_def one_line_def)
  have "map se_layer (ap_sections p) = map se_layer (ap_sections q)"
    using print by (simp add: printable_prompt_def)
  note sections = render_sections_inject [OF this rest]
  then have "render_policy p = render_policy q" by simp
  from render_policy_inject [OF print this] version sections assms(3) show ?thesis by simp
qed

theorem canonical_bytes_injective_witness:
  "\<exists>p. assemble_prompt \<lparr> ps_core_version = ''v'', ps_layers = [core_tone, user_conflict] \<rparr> = Ok p
     \<and> assemble_prompt \<lparr> ps_core_version = ''v'', ps_layers = [user_conflict, core_tone] \<rparr> = Ok p"
proof -
  let ?s = "\<lparr> ps_core_version = ''v'', ps_layers = [core_tone, user_conflict] \<rparr>"
  let ?t = "\<lparr> ps_core_version = ''v'', ps_layers = [user_conflict, core_tone] \<rparr>"
  from conflict_assembles obtain p where p: "assemble_prompt ?s = Ok p" by blast
  have ord: "ordered_layers ?t = ordered_layers ?s" by (simp add: ordered_layers_def conflict_defs)
  have valid: "validate_snapshot ?t = Ok ()"
    using conflict_snapshots_valid(2) by (simp add: validate_snapshot_Ok_iff) auto
  have "assemble_prompt ?t = assemble_prompt ?s"
    by (simp only: assemble_prompt_def ord valid conflict_snapshots_valid(2) prompt_snapshot.select_convs)
  with p obtain q where q: "assemble_prompt ?t = Ok q" "ap_canonical_bytes q = ap_canonical_bytes p" by simp
  from canonical_bytes_injective [OF q(1) p q(2)] p q show ?thesis by blast
qed

definition stable_head :: "string \<Rightarrow> layer_input list \<Rightarrow> bytes" where
  "stable_head v ls =
     ''prompt/1'' @ LF @ ''core-version:'' @ v @ LF
     @ concat (map (\<lambda>layer. render_section (section_of ls layer))
         [PL_CoreContract, PL_User, PL_Project, PL_SkillsProfile])"

text \<open>The canonical bytes of a snapshot whose last layer is the runtime layer: the stable head, the
  runtime section, and the policy.\<close>

lemma canonical_bytes_head:
  assumes "assemble_prompt \<lparr> ps_core_version = v, ps_layers = ls @ [c] \<rparr> = Ok x" "li_layer c = PL_RuntimeTurn"
  shows "\<exists>txt. ap_canonical_bytes x =
     stable_head v ls @ render_section \<lparr> se_layer = PL_RuntimeTurn, se_text = txt \<rparr> @ ''[effective]'' @ LF @ render_policy x"
  using assms(1)
proof (rule assemble_prompt_OkE)
  let ?s = "\<lparr> ps_core_version = v, ps_layers = ls @ [c] \<rparr>"
  assume valid: "validate_snapshot ?s = Ok ()" and x: "ap_core_version x = ps_core_version ?s"
    "ap_sections x = map (section_of (ordered_layers ?s)) stable_order"
    "ap_canonical_bytes x = render_bytes x"
  have sec: "section_of (ordered_layers ?s) layer = section_of ls layer" if "layer \<noteq> PL_RuntimeTurn" for layer
  proof -
    have "distinct (map li_layer (ls @ [c]))" using valid by (simp add: validate_snapshot_Ok_iff)
    moreover from this have "distinct (map li_layer (ordered_layers ?s))"
      by (auto simp: ordered_layers_def distinct_map)
    ultimately have "find (\<lambda>l. li_layer l = layer) (ordered_layers ?s) = find (\<lambda>l. li_layer l = layer) ls"
      using \<open>li_layer c = PL_RuntimeTurn\<close> that by (intro option_eqI) (auto simp: find_key_distinct)
    then show ?thesis by (simp add: section_of_def)
  qed
  obtain body where "section_of (ordered_layers ?s) PL_RuntimeTurn = \<lparr> se_layer = PL_RuntimeTurn, se_text = body \<rparr>"
    by (simp add: section_of_def)
  then show ?thesis by (auto simp: x render_bytes_def stable_head_def stable_order_def sec)
qed

text \<open>
  The leading bytes are stable: two snapshots with the same core version that differ only in their
  runtime layer have canonical forms that share the header and the four sections before that layer.
\<close>

theorem runtime_layer_keeps_prefix:
  assumes "assemble_prompt \<lparr> ps_core_version = v, ps_layers = ls @ [a] \<rparr> = Ok p"
    and "assemble_prompt \<lparr> ps_core_version = v, ps_layers = ls @ [b] \<rparr> = Ok q"
    and "li_layer a = PL_RuntimeTurn" "li_layer b = PL_RuntimeTurn"
  shows "prefix (stable_head v ls) (ap_canonical_bytes p)
         \<and> common_prefix_len (ap_canonical_bytes p) (ap_canonical_bytes q) \<ge> length (stable_head v ls)"
  using canonical_bytes_head [OF assms(1,3)] canonical_bytes_head [OF assms(2,4)]
  by (auto simp: common_prefix_len_append)

definition runtime_layer :: "string \<Rightarrow> layer_input" where
  "runtime_layer t = text_only PL_RuntimeTurn t"

lemma runtime_snapshots_valid:
  "validate_snapshot \<lparr> ps_core_version = ''v'', ps_layers = [core_tone, runtime_layer ''a''] \<rparr> = Ok ()"
  "validate_snapshot \<lparr> ps_core_version = ''v'', ps_layers = [core_tone, runtime_layer ''b''] \<rparr> = Ok ()"
  using conflict_layers_valid(2,3)
  by (simp_all add: validate_snapshot_Ok_iff stable_order_def runtime_layer_def text_only_def validate_layer_def
      validate_layer_text_def validate_pinned_layer_trust_def pinned_layer_untrusted_def check_bounded_def
      MAX_LAYER_TEXT_BYTES_def) (simp_all add: core_tone_def text_only_def)

lemma runtime_snapshots_assemble:
  "is_ok (assemble_prompt \<lparr> ps_core_version = ''v'', ps_layers = [core_tone, runtime_layer ''a''] \<rparr>)"
  "is_ok (assemble_prompt \<lparr> ps_core_version = ''v'', ps_layers = [core_tone, runtime_layer ''b''] \<rparr>)"
  by (simp_all add: assemble_prompt_def runtime_snapshots_valid ordered_layers_def)
     (simp_all add: conflict_defs runtime_layer_def merge_directive_def render_canonical_def render_bytes_def
       render_policy_def render_section_def section_of_def stable_order_def LF_def show_nat.simps
       MAX_CANONICAL_BYTES_def)

theorem runtime_layer_keeps_prefix_witness:
  "\<exists>p q. assemble_prompt \<lparr> ps_core_version = ''v'', ps_layers = [core_tone] @ [runtime_layer ''a''] \<rparr> = Ok p
     \<and> assemble_prompt \<lparr> ps_core_version = ''v'', ps_layers = [core_tone] @ [runtime_layer ''b''] \<rparr> = Ok q
     \<and> common_prefix_len (ap_canonical_bytes p) (ap_canonical_bytes q) \<ge> length (stable_head ''v'' [core_tone])"
proof -
  obtain p q where
    p: "assemble_prompt \<lparr> ps_core_version = ''v'', ps_layers = [core_tone] @ [runtime_layer ''a''] \<rparr> = Ok p"
    and q: "assemble_prompt \<lparr> ps_core_version = ''v'', ps_layers = [core_tone] @ [runtime_layer ''b''] \<rparr> = Ok q"
    using runtime_snapshots_assemble by (auto simp: result_simps)
  have "li_layer (runtime_layer t) = PL_RuntimeTurn" for t by (simp add: runtime_layer_def text_only_def)
  from runtime_layer_keeps_prefix [OF p q this this] p q show ?thesis by blast
qed

end
