(* ===== verification/Reconcile.thy ===== *)
theory Reconcile
  imports Tool_Bus
begin

text \<open>
  Reconciling effects of unknown outcome (\<open>bitty-ai-runtime/src/reconcile.rs\<close>): the retry budget, the
  deterministic backoff, the terminal statuses, and the scripted reconciler. A reconciler is a
  function on a world \<open>'w\<close> that answers one status query; it executes nothing.
\<close>

section \<open>Configuration\<close>

definition DEFAULT_MAX_UNKNOWN_RETRIES :: nat where
  "DEFAULT_MAX_UNKNOWN_RETRIES = 3"

definition DEFAULT_RECONCILE_BASE_DELAY_MS :: u64 where
  "DEFAULT_RECONCILE_BASE_DELAY_MS = 100"

definition DEFAULT_RECONCILE_MAX_DELAY_MS :: u64 where
  "DEFAULT_RECONCILE_MAX_DELAY_MS = 5000"

definition MAX_RECONCILE_ATTEMPTS :: nat where
  "MAX_RECONCILE_ATTEMPTS = 16"

definition MAX_RECONCILE_DELAY_MS :: u64 where
  "MAX_RECONCILE_DELAY_MS = 30000"

record reconcile_config =
  rg_max_unknown_retries :: nat
  rg_base_delay_ms :: u64
  rg_max_delay_ms :: u64

definition reconcile_config_default :: reconcile_config where
  "reconcile_config_default =
     \<lparr> rg_max_unknown_retries = DEFAULT_MAX_UNKNOWN_RETRIES,
       rg_base_delay_ms = DEFAULT_RECONCILE_BASE_DELAY_MS,
       rg_max_delay_ms = DEFAULT_RECONCILE_MAX_DELAY_MS \<rparr>"

definition effective_retries :: "reconcile_config \<Rightarrow> nat" where
  "effective_retries c = min (rg_max_unknown_retries c) MAX_RECONCILE_ATTEMPTS"

definition effective_max_delay_ms :: "reconcile_config \<Rightarrow> u64" where
  "effective_max_delay_ms c = min (rg_max_delay_ms c) MAX_RECONCILE_DELAY_MS"

section \<open>Answers and outcomes\<close>

datatype reconcile_status = RS_Resolved tool_status | RS_Pending string

record unknown_escalation =
  es_tool :: string
  es_reason :: string
  es_attempts :: nat
  es_dispatched :: nat
  es_delays_ms :: "u64 list"

datatype reconcile_outcome =
  RO_Resolved tool_status nat "u64 list"
| RO_NoUnknown
| RO_Escalated unknown_escalation

type_synonym 'w unknown_reconciler = "string \<Rightarrow> execution_id \<Rightarrow> u64 \<Rightarrow> 'w \<Rightarrow> reconcile_status \<times> 'w"

text \<open>The \<open>while index < attempt.min(30)\<close> loop, on the number of iterations left.\<close>

fun delay_loop :: "nat \<Rightarrow> u64 \<Rightarrow> u64 \<Rightarrow> u64" where
  "delay_loop 0 ceiling delay = delay"
| "delay_loop (Suc n) ceiling delay =
     (let delay = min (saturating_mul delay 2) ceiling
      in if delay \<ge> ceiling then delay else delay_loop n ceiling delay)"

definition reconcile_delay_ms :: "nat \<Rightarrow> u64 \<Rightarrow> u64 \<Rightarrow> u64" where
  "reconcile_delay_ms attempt base_delay_ms max_delay_ms =
     (let ceiling = min max_delay_ms MAX_RECONCILE_DELAY_MS;
          delay = min base_delay_ms ceiling
      in min (delay_loop (min attempt 30) ceiling delay) ceiling)"

fun is_reconcile_terminal :: "tool_status \<Rightarrow> bool" where
  "is_reconcile_terminal (TS_Unknown _) = False"
| "is_reconcile_terminal _ = True"

definition is_retry_eligible :: "tool_status \<Rightarrow> bool \<Rightarrow> bool \<Rightarrow> bool" where
  "is_retry_eligible status inspected_or_directed has_current_grant \<longleftrightarrow>
     inspected_or_directed \<and> has_current_grant \<and> is_reconcile_terminal status"

section \<open>The scripted reconciler\<close>

record fake_reconciler =
  fr_script :: "reconcile_status list"
  fr_queries :: "(string \<times> execution_id) list"

definition fake_reconciler_new :: fake_reconciler where
  "fake_reconciler_new = \<lparr> fr_script = [], fr_queries = [] \<rparr>"

definition fr_push_resolved :: "tool_status \<Rightarrow> fake_reconciler \<Rightarrow> fake_reconciler" where
  "fr_push_resolved status r = r\<lparr> fr_script := fr_script r @ [RS_Resolved status] \<rparr>"

definition fr_push_pending :: "string \<Rightarrow> fake_reconciler \<Rightarrow> fake_reconciler" where
  "fr_push_pending reason r = r\<lparr> fr_script := fr_script r @ [RS_Pending reason] \<rparr>"

definition fake_reconcile :: "fake_reconciler unknown_reconciler" where
  "fake_reconcile tool eid now_ms r =
     (let r1 = r\<lparr> fr_queries := fr_queries r @ [(tool, eid)] \<rparr>
      in case fr_script r1 of
           [] \<Rightarrow> (RS_Pending ''still uncertain'', r1)
         | answer # rest \<Rightarrow> (answer, r1\<lparr> fr_script := rest \<rparr>))"

section \<open>The bounded schedule\<close>

text \<open>
  The query loop that \<open>Agent::reconcile_pending_at\<close> and \<open>Agent::reconcile_executions_at\<close> share:
  \<open>Inl\<close> is a terminal answer with its attempt count, \<open>Inr\<close> the last pending reason; both carry the
  reported delays. \<open>attempt\<close> counts up to the budget, \<open>n\<close> is what is left of it.
\<close>

fun reconcile_loop ::
  "'w unknown_reconciler \<Rightarrow> string \<Rightarrow> execution_id \<Rightarrow> u64 \<Rightarrow> u64 \<Rightarrow> u64 \<Rightarrow> nat \<Rightarrow> nat \<Rightarrow> u64 list \<Rightarrow> string \<Rightarrow> 'w
     \<Rightarrow> ((tool_status \<times> nat) + string) \<times> u64 list \<times> 'w" where
  "reconcile_loop rec tool eid now_ms base ceiling 0 attempt delays last_reason w =
     (Inr last_reason, delays, w)"
| "reconcile_loop rec tool eid now_ms base ceiling (Suc n) attempt delays last_reason w =
     (let delays = delays @ [reconcile_delay_ms attempt base ceiling] in
      case rec tool eid now_ms w of
        (RS_Resolved status, w') \<Rightarrow>
          (case tool_status_normalized status of
             TS_Unknown reason \<Rightarrow>
               reconcile_loop rec tool eid now_ms base ceiling n (attempt + 1) delays (bound_reason reason) w'
           | status' \<Rightarrow> (Inl (status', attempt + 1), delays, w'))
      | (RS_Pending reason, w') \<Rightarrow>
          reconcile_loop rec tool eid now_ms base ceiling n (attempt + 1) delays (bound_reason reason) w')"

section \<open>Lemmas\<close>

lemma unat_min: "unat (min a b) = min (unat a) (unat (b :: 'l::len word))"
  by (simp add: min_def word_le_nat_alt)

lemma unat_double:
  assumes "unat c \<le> 30000"
  shows "unat (min (saturating_mul d 2) c :: u64) = min (2 * unat d) (unat c)"
  using assms by (simp add: unat_min unat_saturating_mul)

lemma delay_loop_closed:
  assumes "unat ceiling \<le> 30000" "delay \<le> ceiling"
  shows "unat (delay_loop n ceiling delay) = min (unat delay * 2 ^ n) (unat ceiling)"
  using assms(2)
proof (induction n arbitrary: delay)
  case 0
  then show ?case by (simp add: word_le_nat_alt)
next
  case (Suc n)
  let ?d = "min (saturating_mul delay 2) ceiling"
  have d: "unat ?d = min (2 * unat delay) (unat ceiling)" using unat_double [OF assms(1)] .
  show ?case
  proof (cases "?d \<ge> ceiling")
    case True
    then have "unat ceiling \<le> 2 * unat delay" using d by (simp add: word_le_nat_alt)
    moreover have "2 * unat delay \<le> unat delay * 2 ^ Suc n" by simp
    ultimately have "unat ceiling \<le> unat delay * 2 ^ Suc n" by linarith
    with True \<open>unat ceiling \<le> 2 * unat delay\<close> d show ?thesis by simp
  next
    case False
    then have "unat ?d = 2 * unat delay" using d by (simp add: word_le_nat_alt min_def split: if_splits)
    with Suc.IH [of ?d] False show ?thesis by (simp add: Let_def algebra_simps)
  qed
qed

lemma reconcile_delay_closed:
  "unat (reconcile_delay_ms attempt base maximum) =
     min (unat base * 2 ^ attempt) (min (unat maximum) (unat MAX_RECONCILE_DELAY_MS))"
proof -
  let ?c = "min maximum MAX_RECONCILE_DELAY_MS"
  have c: "unat ?c \<le> 30000" by (simp add: unat_min MAX_RECONCILE_DELAY_MS_def)
  have "unat (delay_loop (min attempt 30) ?c (min base ?c))
      = min (unat (min base ?c) * 2 ^ min attempt 30) (unat ?c)"
    by (rule delay_loop_closed [OF c]) (rule min.cobounded2)
  then have 1: "unat (reconcile_delay_ms attempt base maximum) = min (unat (min base ?c) * 2 ^ min attempt 30) (unat ?c)"
    by (simp add: reconcile_delay_ms_def Let_def unat_min min.assoc)
  have "min (min b k * 2 ^ min attempt 30) k = min (b * 2 ^ attempt) k" if k: "k \<le> 30000" for b k :: nat
  proof -
    consider "b \<ge> k" | "b < k" "attempt \<le> 30" | "b < k" "30 < attempt" by linarith
    then show ?thesis
    proof cases
      case 1
      have "n \<le> n * 2 ^ m" for n m :: nat by simp
      with 1 have "k \<le> k * 2 ^ min attempt 30" "k \<le> b * 2 ^ attempt" by (simp, meson le_trans)
      with 1 show ?thesis by (simp only: min_absorb2)
    next
      case 3
      then show ?thesis
      proof (cases "b = 0")
        case False
        then have "2 ^ 30 \<le> b * 2 ^ 30" by simp
        moreover from 3 have "b * 2 ^ 30 \<le> b * 2 ^ attempt" by (intro mult_le_mono2 power_increasing) simp_all
        moreover have "k \<le> 2 ^ 30" using k by simp
        ultimately have "k \<le> b * 2 ^ 30" "k \<le> b * 2 ^ attempt" by (meson le_trans)+
        moreover have "min b k = b" "min attempt 30 = 30" using 3 by simp_all
        ultimately show ?thesis by (simp only: min_absorb2)
      qed simp
    qed simp
  qed
  from this [OF c] 1 show ?thesis by (simp add: unat_min)
qed

text \<open>
  What the query loop returns: the delays of the attempts made, within the budget; a terminal
  normalized status, or the exhaustion of the whole budget.
\<close>

lemma status_terminal_cases:
  "(case tool_status_normalized status of TS_Unknown reason \<Rightarrow> f reason | other \<Rightarrow> g other) =
   (if is_reconcile_terminal status then g (tool_status_normalized status)
    else case tool_status_normalized status of TS_Unknown reason \<Rightarrow> f reason | other \<Rightarrow> g other)"
  by (cases status) auto

lemma terminal_normalized [simp]:
  "is_reconcile_terminal (tool_status_normalized status) = is_reconcile_terminal status"
  by (cases status) auto

lemma reconcile_loop_result:
  assumes "reconcile_loop rec tool eid now_ms base ceiling n attempt delays reason w = (r, delays', w')"
  shows "\<exists>k \<le> n. delays' = delays @ map (\<lambda>i. reconcile_delay_ms i base ceiling) [attempt..<attempt + k]
           \<and> (case r of
                Inl (status, attempts) \<Rightarrow> is_reconcile_terminal status \<and> tool_status_normalized status = status
                                          \<and> attempts = attempt + k \<and> 0 < k
              | Inr last_reason \<Rightarrow> k = n \<and> (0 < n \<or> last_reason = reason))"
  using assms
proof (induction n arbitrary: attempt delays reason w)
  case (Suc n)
  have step: "\<exists>k \<le> Suc n. delays' = delays @ map (\<lambda>i. reconcile_delay_ms i base ceiling) [attempt..<attempt + k]
           \<and> (case r of
                Inl (status, attempts) \<Rightarrow> is_reconcile_terminal status \<and> tool_status_normalized status = status
                                          \<and> attempts = attempt + k \<and> 0 < k
              | Inr last_reason \<Rightarrow> k = Suc n \<and> (0 < Suc n \<or> last_reason = reason))"
    if run: "reconcile_loop rec tool eid now_ms base ceiling n (attempt + 1)
      (delays @ [reconcile_delay_ms attempt base ceiling]) reason' w1 = (r, delays', w')" for reason' w1
  proof -
    from Suc.IH [OF run] obtain k where k: "k \<le> n"
      "delays' = (delays @ [reconcile_delay_ms attempt base ceiling])
         @ map (\<lambda>i. reconcile_delay_ms i base ceiling) [attempt + 1..<attempt + 1 + k]"
      "case r of Inl (status, attempts) \<Rightarrow> is_reconcile_terminal status
          \<and> tool_status_normalized status = status \<and> attempts = attempt + 1 + k \<and> 0 < k
        | Inr last_reason \<Rightarrow> k = n \<and> (0 < n \<or> last_reason = reason')" by blast
    have "[attempt..<attempt + Suc k] = attempt # [attempt + 1..<attempt + 1 + k]" by (simp add: upt_conv_Cons)
    with k show ?thesis by (intro exI [of _ "Suc k"]) (cases r, auto)
  qed
  obtain answer w1 where q: "rec tool eid now_ms w = (answer, w1)" by fastforce
  show ?case
  proof (cases answer)
    case (RS_Resolved status)
    show ?thesis
    proof (cases "is_reconcile_terminal status")
      case True
      with Suc.prems q RS_Resolved have "r = Inl (tool_status_normalized status, attempt + 1)"
        "delays' = delays @ [reconcile_delay_ms attempt base ceiling]"
        by (cases status; simp add: Let_def)+
      with True show ?thesis by (intro exI [of _ 1]) simp
    next
      case False
      then show ?thesis using Suc.prems q RS_Resolved step by (cases status) (simp_all add: Let_def)
    qed
  next
    case (RS_Pending reason')
    then show ?thesis using Suc.prems q step by (simp add: Let_def)
  qed
qed auto

text \<open>A reconciler that keeps a log of its queries is asked about the one execution only.\<close>

locale logging_reconciler =
  fixes rec :: "'w unknown_reconciler" and queries :: "'w \<Rightarrow> (string \<times> execution_id) list"
  assumes rec_logs: "rec tool eid now_ms w = (answer, w') \<Longrightarrow> queries w' = queries w @ [(tool, eid)]"
begin

lemma reconcile_loop_queries:
  assumes "reconcile_loop rec tool eid now_ms base ceiling n attempt delays reason w = (r, delays', w')"
  shows "\<exists>k. length delays' = length delays + k \<and> queries w' = queries w @ replicate k (tool, eid)"
  using assms
proof (induction n arbitrary: attempt delays reason w)
  case (Suc n)
  obtain answer w1 where q: "rec tool eid now_ms w = (answer, w1)" by fastforce
  note log = rec_logs [OF q]
  have step: "\<exists>k. length delays' = length delays + k \<and> queries w' = queries w @ replicate k (tool, eid)"
    if "reconcile_loop rec tool eid now_ms base ceiling n (attempt + 1)
      (delays @ [reconcile_delay_ms attempt base ceiling]) reason' w1 = (r, delays', w')" for reason'
  proof -
    from Suc.IH [OF that] obtain k where "length delays' = length delays + Suc k"
      "queries w' = queries w1 @ replicate k (tool, eid)" by auto
    with log show ?thesis by (intro exI [of _ "Suc k"]) simp
  qed
  show ?case
  proof (cases "\<exists>status. answer = RS_Resolved status \<and> is_reconcile_terminal status")
    case True
    then have "delays' = delays @ [reconcile_delay_ms attempt base ceiling]" "w' = w1"
      using Suc.prems q by (auto simp: Let_def elim!: is_reconcile_terminal.elims split: tool_status.splits)
    with log show ?thesis by (intro exI [of _ 1]) simp
  next
    case False
    with Suc.prems q show ?thesis
      using step by (cases answer) (auto simp: Let_def split: tool_status.splits elim!: tool_status_normalized.elims)
  qed
qed simp

end

interpretation scripted: logging_reconciler fake_reconcile fr_queries
  by unfold_locales (auto simp: fake_reconcile_def Let_def split: list.splits)

end
