(* ===== verification/Agent.thy ===== *)
theory Agent
  imports Reconcile Screen Selection Prompt Streaming
begin

text \<open>
  The agent (\<open>bitty-ai-runtime/src/agent.rs\<close>): its configuration, the execution records, the turn loop
  \<open>run_turn\<close> and the reconciliation of unknown effects. The provider, the executor, the sink and the
  reconciler are code outside the agent. They act on a world that holds what they share with it:
  the session handle, which they may cancel, finish, elevate or rotate, and the process-wide id
  counter. Everything else they reach is the type parameter \<open>'e\<close>.
\<close>

section \<open>Configuration, errors and outcomes\<close>

definition DEFAULT_MAX_ROUNDS :: nat where
  "DEFAULT_MAX_ROUNDS = 4"

definition MAX_EXECUTIONS_PER_AGENT :: nat where
  "MAX_EXECUTIONS_PER_AGENT = 32"

record agent_config =
  cfg_max_rounds :: nat
  cfg_max_tool_calls_per_turn :: nat
  cfg_context_budget_bytes :: nat
  cfg_context_window_tokens :: "u32 option"
  cfg_provider_timeout_ms :: u64
  cfg_max_turn_cost :: "u64 option"
  cfg_input_cost_weight :: u32
  cfg_output_cost_weight :: u32
  cfg_max_unknown_retries :: nat
  cfg_unknown_reconcile_base_delay_ms :: u64
  cfg_unknown_reconcile_max_delay_ms :: u64

definition agent_config_default :: agent_config where
  "agent_config_default =
     \<lparr> cfg_max_rounds = DEFAULT_MAX_ROUNDS,
       cfg_max_tool_calls_per_turn = MAX_TOOL_CALLS_PER_TURN,
       cfg_context_budget_bytes = DEFAULT_CONTEXT_BUDGET_BYTES,
       cfg_context_window_tokens = None,
       cfg_provider_timeout_ms = DEFAULT_REQUEST_TIMEOUT_MS,
       cfg_max_turn_cost = None,
       cfg_input_cost_weight = 1,
       cfg_output_cost_weight = 1,
       cfg_max_unknown_retries = DEFAULT_MAX_UNKNOWN_RETRIES,
       cfg_unknown_reconcile_base_delay_ms = DEFAULT_RECONCILE_BASE_DELAY_MS,
       cfg_unknown_reconcile_max_delay_ms = DEFAULT_RECONCILE_MAX_DELAY_MS \<rparr>"

definition agent_reconcile_config :: "agent_config \<Rightarrow> reconcile_config" where
  "agent_reconcile_config c =
     \<lparr> rg_max_unknown_retries = cfg_max_unknown_retries c,
       rg_base_delay_ms = cfg_unknown_reconcile_base_delay_ms c,
       rg_max_delay_ms = cfg_unknown_reconcile_max_delay_ms c \<rparr>"

definition config_budget_bytes :: "agent_config \<Rightarrow> nat" where
  "config_budget_bytes c =
     (let window_bound = (case cfg_context_window_tokens c of
                            Some tokens \<Rightarrow>
                              if tokens > 0
                              then Some (saturating_mul_usize (unat tokens) BYTES_PER_TOKEN_ESTIMATE) else None
                          | None \<Rightarrow> None)
      in case window_bound of
           Some bound \<Rightarrow> min (cfg_context_budget_bytes c) bound
         | None \<Rightarrow> cfg_context_budget_bytes c)"

datatype agent_error =
  AE_Provider provider_error
| AE_Context context_error
| AE_Tool tool_error
| AE_Stream stream_error
| AE_Session session_error
| AE_RoundLimitExceeded nat
| AE_CostCeilingExceeded u64 u64
| AE_UnknownUnresolved string string nat nat

fun is_backpressure :: "agent_error \<Rightarrow> bool" where
  "is_backpressure (AE_Tool (TE_CallLimitExceeded _)) = True"
| "is_backpressure _ = False"

fun provider_error_into :: "provider_error \<Rightarrow> agent_error" where
  "provider_error_into (PE_Transport provider reason) =
     AE_Provider (PE_Transport (bound_reason provider) (bound_reason reason))"
| "provider_error_into (PE_Auth provider reason) =
     AE_Provider (PE_Auth (bound_reason provider) (bound_reason reason))"
| "provider_error_into (PE_RateLimited provider retry_after_ms) =
     AE_Provider (PE_RateLimited (bound_reason provider) retry_after_ms)"
| "provider_error_into (PE_Unknown provider reason) =
     AE_Provider (PE_Unknown (bound_reason provider) (bound_reason reason))"
| "provider_error_into other = AE_Provider other"

definition escalation_into :: "unknown_escalation \<Rightarrow> agent_error" where
  "escalation_into report =
     AE_UnknownUnresolved (es_tool report) (es_reason report) (es_attempts report) (es_dispatched report)"

record execution_record =
  xr_execution_id :: execution_id
  xr_tool :: string
  xr_status :: tool_status
  xr_result_disposition :: result_disposition

datatype exec_outcome =
  EO_Completed string
| EO_Failed agent_error
| EO_Canceled nat nat
| EO_Unknown string nat

section \<open>State\<close>

record 'e world =
  wd_session :: session
  wd_next_id :: u64
  wd_env :: 'e

record 'w agent =
  ag_tools :: "'w tool_bus"
  ag_artifacts :: artifact_store
  ag_config :: agent_config
  ag_prompt :: "assembled_prompt option"
  ag_allowed_tools :: "string list option"
  ag_executions :: "execution_record list"
  ag_tool_history :: "context_record list"
  ag_pending_unknown :: "execution_record list"
  ag_turn_cost :: u64
  ag_next_seq :: u32
  ag_last_advisory :: "directive_screen_flags option"

definition agent_new :: "'w tool_bus \<Rightarrow> agent_config \<Rightarrow> 'w agent" where
  "agent_new tools config =
     \<lparr> ag_tools = tools, ag_artifacts = artifact_store_new, ag_config = config, ag_prompt = None,
       ag_allowed_tools = None, ag_executions = [], ag_tool_history = [], ag_pending_unknown = [],
       ag_turn_cost = 0, ag_next_seq = 0, ag_last_advisory = None \<rparr>"

definition set_prompt :: "assembled_prompt \<Rightarrow> 'w agent \<Rightarrow> 'w agent" where
  "set_prompt prompt a = a\<lparr> ag_prompt := Some prompt \<rparr>"

definition set_allowed_tools :: "string list option \<Rightarrow> 'w agent \<Rightarrow> 'w agent" where
  "set_allowed_tools allowed a = a\<lparr> ag_allowed_tools := allowed \<rparr>"

definition abandon_pending :: "execution_id \<Rightarrow> 'w agent \<Rightarrow> bool \<times> 'w agent" where
  "abandon_pending eid a =
     (let kept = filter (\<lambda>r. xr_execution_id r \<noteq> eid) (ag_pending_unknown a)
      in (length kept \<noteq> length (ag_pending_unknown a), a\<lparr> ag_pending_unknown := kept \<rparr>))"

definition session_auth_base :: "session \<Rightarrow> auth_base" where
  "session_auth_base ses =
     \<lparr> ab_agent_instance_id = ses_agent_instance_id ses, ab_session_id = ses_session_id ses,
       ab_level = ses_level ses \<rparr>"

section \<open>The gates in front of a batch\<close>

fun find_map :: "('a \<Rightarrow> 'b option) \<Rightarrow> 'a list \<Rightarrow> 'b option" where
  "find_map f [] = None"
| "find_map f (x # xs) = (case f x of Some y \<Rightarrow> Some y | None \<Rightarrow> find_map f xs)"

definition dispatcher_grants :: "'w agent \<Rightarrow> string \<Rightarrow> bool" where
  "dispatcher_grants a tool \<longleftrightarrow> list_ex (\<lambda>name. name = tool) (tool_names (tb_registry (ag_tools a)))"

definition agent_narrowing_omits :: "'w agent \<Rightarrow> string \<Rightarrow> bool" where
  "agent_narrowing_omits a tool =
     (case ag_allowed_tools a of
        None \<Rightarrow> False
      | Some list \<Rightarrow> \<not> list_ex (\<lambda>entry. entry = tool) list)"

definition agent_narrowing_denial :: "string \<Rightarrow> tool_error" where
  "agent_narrowing_denial tool =
     tool_error_normalized (TE_Denied tool
       (''tool '' @ [CHR 0x27] @ tool @ [CHR 0x27] @ '' omitted by per-call narrowing''))"

definition narrowing_denial_for_batch :: "'w agent \<Rightarrow> tool_call list \<Rightarrow> (string \<times> tool_error) option" where
  "narrowing_denial_for_batch a calls =
     find_map (\<lambda>call. if agent_narrowing_omits a (tc_name call)
                      then Some (tc_name call, agent_narrowing_denial (tc_name call)) else None) calls"

definition narrowed_admitted_calls :: "'w agent \<Rightarrow> tool_call list \<Rightarrow> tool_call list" where
  "narrowed_admitted_calls a calls =
     filter (\<lambda>call.
       if agent_narrowing_omits a (tc_name call) then False
       else case ag_prompt a of
         None \<Rightarrow> dispatcher_grants a (tc_name call)
       | Some prompt \<Rightarrow> is_ok (check_dispatch prompt (tc_name call) (dispatcher_grants a (tc_name call)))) calls"

definition prompt_gate_denial :: "'w agent \<Rightarrow> tool_call list \<Rightarrow> (string \<times> tool_error) option" where
  "prompt_gate_denial a calls =
     (case ag_prompt a of
        None \<Rightarrow> None
      | Some prompt \<Rightarrow>
          find_map (\<lambda>call.
            case check_dispatch prompt (tc_name call) (dispatcher_grants a (tc_name call)) of
              Ok _ \<Rightarrow> None
            | Err error \<Rightarrow> Some (tc_name call, dispatch_denial_cause (tc_name call) error)) calls)"

definition prompt_refusal :: "execution_id \<Rightarrow> string \<Rightarrow> tool_error \<Rightarrow> tool_execution" where
  "prompt_refusal eid tool cause =
     \<lparr> te_execution_id = eid, te_tool = tool, te_status = TS_Refused cause,
       te_result_disposition = RD_Accepted, te_summary = ''refused before dispatch'', te_data = [],
       te_is_untrusted_surface = False \<rparr>"

section \<open>Steps of a turn\<close>

text \<open>
  A step takes the agent and the world. \<^const>\<open>Ok\<close> continues with a value, \<^const>\<open>Err\<close> is an early
  return of the turn with its outcome, and \<^const>\<open>None\<close> is a turn that does not return: the id space
  is exhausted, or \<open>fragment_text\<close> is given bytes that are not UTF-8, which no \<open>String\<close> holds.
\<close>

type_synonym 'e turn_state = "'e world agent \<times> 'e world"
type_synonym ('e, 'a) turn = "'e turn_state \<Rightarrow> (('a, exec_outcome) result \<times> 'e turn_state) option"

definition turn_return :: "'a \<Rightarrow> ('e, 'a) turn" where
  "turn_return x st = Some (Ok x, st)"

definition turn_stop :: "exec_outcome \<Rightarrow> ('e, 'a) turn" where
  "turn_stop out st = Some (Err out, st)"

definition turn_bind :: "('e, 'a) turn \<Rightarrow> ('a \<Rightarrow> ('e, 'b) turn) \<Rightarrow> ('e, 'b) turn" where
  "turn_bind m f st =
     (case m st of
        None \<Rightarrow> None
      | Some (Err out, st') \<Rightarrow> Some (Err out, st')
      | Some (Ok x, st') \<Rightarrow> f x st')"

text \<open>A step that reads or changes the agent only.\<close>

definition turn_agent :: "('e world agent \<Rightarrow> 'e world agent) \<Rightarrow> ('e, unit) turn" where
  "turn_agent f = (\<lambda>(a, w). Some (Ok (), f a, w))"

definition turn_with :: "('e world agent \<Rightarrow> 'e world \<Rightarrow> ('e, 'a) turn) \<Rightarrow> ('e, 'a) turn" where
  "turn_with f = (\<lambda>(a, w). f a w (a, w))"

definition turn_fail :: "agent_error \<Rightarrow> ('e, 'a) turn" where
  "turn_fail error = (\<lambda>(a, w).
     Some (Err (EO_Failed error), a, w\<lparr> wd_session := session_finish True (wd_session w) \<rparr>))"

fun is_unknown :: "tool_status \<Rightarrow> bool" where
  "is_unknown (TS_Unknown _) = True"
| "is_unknown _ = False"

definition cancel_outcome :: "'w agent \<Rightarrow> exec_outcome" where
  "cancel_outcome a =
     (let unknown = length (filter (\<lambda>r. is_unknown (xr_status r)) (ag_executions a))
      in if unknown > 0
         then EO_Unknown (''cancelled with '' @ show_nat unknown
                @ '' unreconciled effects; reconcile before retry'') (length (ag_executions a))
         else EO_Canceled (length (ag_executions a)) 0)"

definition reconcile_cancel :: "('e, 'a) turn" where
  "reconcile_cancel = turn_with (\<lambda>a w. turn_stop (cancel_outcome a))"

definition check_cancelled :: "('e, unit) turn" where
  "check_cancelled = turn_with (\<lambda>a w.
     if is_cancelled (wd_session w) then reconcile_cancel else turn_return ())"

definition next_execution :: "('e, execution_id) turn" where
  "next_execution = (\<lambda>(a, w).
     case issue_execution (wd_next_id w) of
       None \<Rightarrow> None
     | Some (eid, updated) \<Rightarrow> Some (Ok eid, a, w\<lparr> wd_next_id := updated \<rparr>))"

definition unknown_outcome :: "string \<Rightarrow> string \<Rightarrow> ('e, 'a) turn" where
  "unknown_outcome reason tool = turn_with (\<lambda>a w.
     turn_stop (EO_Unknown (reason @ '' (tool '' @ bound_reason tool @ '')'') (length (ag_executions a))))"

text \<open>The repeated cap on the records of one turn.\<close>

definition check_execution_room :: "('e, unit) turn" where
  "check_execution_room = turn_with (\<lambda>a w.
     if length (ag_executions a) \<ge> MAX_EXECUTIONS_PER_AGENT
     then turn_fail (AE_Tool (TE_CallLimitExceeded MAX_EXECUTIONS_PER_AGENT)) else turn_return ())"

definition push_execution :: "execution_record \<Rightarrow> 'w agent \<Rightarrow> 'w agent" where
  "push_execution r a = a\<lparr> ag_executions := ag_executions a @ [r] \<rparr>"

definition attribute_execution :: "tool_execution \<Rightarrow> 'w agent \<Rightarrow> 'w agent" where
  "attribute_execution x a =
     push_execution \<lparr> xr_execution_id = te_execution_id x, xr_tool = te_tool x, xr_status = te_status x,
                      xr_result_disposition = te_result_disposition x \<rparr> a"

definition provider_unknown :: "string \<Rightarrow> string \<Rightarrow> ('e, 'a) turn" where
  "provider_unknown provider reason =
     (let provider = bound_reason provider; reason = bound_reason reason in
      turn_bind check_execution_room (\<lambda>_.
      turn_bind next_execution (\<lambda>eid.
      turn_bind (turn_agent (push_execution
        \<lparr> xr_execution_id = eid, xr_tool = provider, xr_status = TS_Unknown reason,
          xr_result_disposition = RD_Accepted \<rparr>)) (\<lambda>_.
      unknown_outcome ''provider effect uncertain; reconcile before retry'' provider))))"

section \<open>Streaming and recording\<close>

type_synonym 'w sink_emit = "'w \<Rightarrow> stream_chunk \<Rightarrow> (unit, stream_error) result \<times> 'w"

definition emit_batch ::
  "'e world sink_emit \<Rightarrow> fragment list \<Rightarrow> 'e turn_state \<Rightarrow> (bool, stream_error) result \<times> 'e turn_state" where
  "emit_batch emit fragments = (\<lambda>(a, w).
     case emit_fragments emit (\<lambda>w. is_cancelled (wd_session w)) fragments (ag_next_seq a) w of
       (Err e, w') \<Rightarrow> (Err e, a, w')
     | (Ok (Some next_seq), w') \<Rightarrow> (Ok True, a\<lparr> ag_next_seq := next_seq \<rparr>, w')
     | (Ok None, w') \<Rightarrow> (Ok False, a, w'))"

definition emit_text ::
  "'e world sink_emit \<Rightarrow> provider_turn \<Rightarrow> 'e turn_state
     \<Rightarrow> ((bool, stream_error) result \<times> 'e turn_state) option" where
  "emit_text emit turn st =
     (if pt_text turn = [] then Some (Ok (\<not> is_cancelled (wd_session (snd st))), st)
      else map_option (\<lambda>fragments. emit_batch emit fragments st) (fragment_text FK_Markdown (pt_text turn)))"

fun status_label :: "tool_status \<Rightarrow> string" where
  "status_label TS_Success = ''ok''"
| "status_label (TS_Failed _) = ''failed''"
| "status_label (TS_Denied _) = ''denied''"
| "status_label (TS_Refused _) = ''refused''"
| "status_label (TS_Unknown _) = ''unknown''"

definition emit_tool_card ::
  "'e world sink_emit \<Rightarrow> tool_execution \<Rightarrow> 'e turn_state
     \<Rightarrow> ((bool, stream_error) result \<times> 'e turn_state) option" where
  "emit_tool_card emit x st =
     (let card = ''tool='' @ te_tool x @ '' status='' @ status_label (te_status x)
                   @ '' summary='' @ te_summary x
      in map_option (\<lambda>fragments. emit_batch emit fragments st) (fragment_text FK_ToolCard card))"

text \<open>What \<open>run_turn\<close> makes of an emission: go on, reconcile the cancellation, or fail.\<close>

definition deliver ::
  "('e turn_state \<Rightarrow> ((bool, stream_error) result \<times> 'e turn_state) option) \<Rightarrow> ('e, unit) turn" where
  "deliver m st =
     (case m st of
        None \<Rightarrow> None
      | Some (Ok True, st') \<Rightarrow> turn_return () st'
      | Some (Ok False, st') \<Rightarrow> reconcile_cancel st'
      | Some (Err error, st') \<Rightarrow> turn_fail (AE_Stream error) st')"

definition record_execution ::
  "tool_execution \<Rightarrow> u64 \<Rightarrow> u64 \<Rightarrow> 'w agent \<Rightarrow> (unit, context_error) result \<times> 'w agent" where
  "record_execution x now_ms generation a =
     (let a = attribute_execution x a;
          finish = (\<lambda>body a.
            case stable_id_new ''agent-turn'' of
              Ok owner \<Rightarrow>
                a\<lparr> ag_tool_history := ag_tool_history a @
                     [\<lparr> cr_id = ''exec-'' @ show_nat (unat (execution_value (te_execution_id x))),
                        cr_provider = ''workspace'', cr_owner = owner, cr_generation = generation,
                        cr_collected_at_ms = now_ms, cr_priority = CP_Normal,
                        cr_summary = ''tool='' @ te_tool x @ '' '' @ te_summary x, cr_body = body,
                        cr_supersedes = None, cr_is_untrusted_surface = te_is_untrusted_surface x \<rparr>] \<rparr>
            | Err _ \<Rightarrow> a)
      in if length (te_data x) > EXTERNALIZE_THRESHOLD_BYTES
         then (case artifact_put (te_data x) generation (ag_artifacts a) of
                 (Err e, store) \<Rightarrow> (Err e, a\<lparr> ag_artifacts := store \<rparr>)
               | (Ok reference, store) \<Rightarrow>
                   (Ok (), finish (RB_Artifact reference) (a\<lparr> ag_artifacts := store \<rparr>)))
         else (Ok (), finish (RB_Inline (te_data x)) a))"

section \<open>The turn\<close>

record 'e turn_env =
  env_complete :: "'e world model_provider"
  env_execute :: "'e world tool_executor"
  env_emit :: "'e world sink_emit"

definition record_step :: "tool_execution \<Rightarrow> u64 \<Rightarrow> ('e, unit) turn" where
  "record_step x now_ms = (\<lambda>(a, w).
     case record_execution x now_ms (ses_generation (wd_session w)) a of
       (Ok _, a') \<Rightarrow> turn_return () (a', w)
     | (Err error, a') \<Rightarrow> turn_fail (AE_Context error) (a', w))"

definition advise :: "tool_execution \<Rightarrow> 'w agent \<Rightarrow> 'w agent" where
  "advise x a =
     a\<lparr> ag_last_advisory :=
          Some (flags_combined
            (case ag_last_advisory a of None \<Rightarrow> screen_flags_default | Some flags \<Rightarrow> flags)
            (screen_tool_execution x)) \<rparr>"

text \<open>The \<open>Ok\<close> arm of a dispatch: attribute, record, stream, and stop on anything but an answer.\<close>

definition accept_execution ::
  "'e world sink_emit \<Rightarrow> u64 \<Rightarrow> tool_execution \<Rightarrow> message list \<Rightarrow> ('e, message list) turn" where
  "accept_execution emit now_ms x messages =
     (case te_status x of
        TS_Refused cause \<Rightarrow>
          turn_bind (turn_agent (attribute_execution x)) (\<lambda>_. turn_fail (AE_Tool cause))
      | _ \<Rightarrow>
     (case te_result_disposition x of
        RD_Rejected cause \<Rightarrow>
          turn_bind (turn_agent (attribute_execution x)) (\<lambda>_. turn_fail (AE_Tool cause))
      | RD_Accepted \<Rightarrow>
          turn_bind (record_step x now_ms) (\<lambda>_.
          turn_bind (turn_agent (advise x)) (\<lambda>_.
          turn_bind (deliver (emit_tool_card emit x)) (\<lambda>_.
          case te_status x of
            TS_Unknown _ \<Rightarrow> unknown_outcome ''tool effect uncertain; reconcile before retry'' (te_tool x)
          | TS_Denied reason \<Rightarrow> turn_fail (AE_Tool (TE_Denied (te_tool x) reason))
          | _ \<Rightarrow> turn_return (messages @ [execution_message x]))))))"

text \<open>One dispatch through the bus; the base is read from the session at that moment.\<close>

definition dispatch_step :: "'e turn_env \<Rightarrow> u64 \<Rightarrow> tool_call \<Rightarrow> execution_id \<Rightarrow> ('e, (tool_execution, tool_error) result) turn" where
  "dispatch_step env now_ms call eid = (\<lambda>(a, w).
     case dispatch_narrowed (env_execute env) call (session_auth_base (wd_session w)) eid now_ms
            (ag_allowed_tools a) (ag_tools a) w of
       (r, tools, w') \<Rightarrow> Some (Ok r, a\<lparr> ag_tools := tools \<rparr>, w'))"

definition dispatch_one ::
  "'e turn_env \<Rightarrow> u64 \<Rightarrow> tool_call \<Rightarrow> message list \<Rightarrow> ('e, message list) turn" where
  "dispatch_one env now_ms call messages =
     turn_bind check_cancelled (\<lambda>_.
     turn_bind check_execution_room (\<lambda>_.
     turn_bind next_execution (\<lambda>eid.
     turn_bind (dispatch_step env now_ms call eid) (\<lambda>r.
     case r of
       Ok x \<Rightarrow> accept_execution (env_emit env) now_ms x messages
     | Err error \<Rightarrow>
         (let error = tool_error_normalized error in
          turn_bind (turn_agent (push_execution
            \<lparr> xr_execution_id = eid, xr_tool = tc_name call,
              xr_status = TS_Failed (bound_reason (tool_error_display error)),
              xr_result_disposition = RD_Accepted \<rparr>)) (\<lambda>_.
          turn_fail (AE_Tool error)))))))"

fun call_loop :: "'e turn_env \<Rightarrow> u64 \<Rightarrow> tool_call list \<Rightarrow> message list \<Rightarrow> ('e, message list) turn" where
  "call_loop env now_ms [] messages = turn_return messages"
| "call_loop env now_ms (call # calls) messages =
     turn_bind (dispatch_one env now_ms call messages) (call_loop env now_ms calls)"

definition round_usage :: "turn_request \<Rightarrow> provider_turn \<Rightarrow> u64 \<times> u64" where
  "round_usage req turn =
     (if pu_input_tokens (pt_usage turn) \<noteq> 0 \<or> pu_output_tokens (pt_usage turn) \<noteq> 0
      then (ucast (pu_input_tokens (pt_usage turn)), ucast (pu_output_tokens (pt_usage turn)))
      else (estimate_tokens (total_message_bytes req), estimate_tokens (length (pt_text turn))))"

definition agent_cost_weight :: "u32 \<Rightarrow> u32" where
  "agent_cost_weight weight = (if weight = 0 then 1 else weight)"

text \<open>The cost fuse: it returns \<open>Failed\<close> and leaves the session as it is.\<close>

definition charge_round :: "turn_request \<Rightarrow> provider_turn \<Rightarrow> ('e, unit) turn" where
  "charge_round req turn = (\<lambda>(a, w).
     let (input_tokens, output_tokens) = round_usage req turn;
         round_cost = estimate_cost input_tokens output_tokens
           (agent_cost_weight (cfg_input_cost_weight (ag_config a)))
           (agent_cost_weight (cfg_output_cost_weight (ag_config a)));
         a = a\<lparr> ag_turn_cost := saturating_add (ag_turn_cost a) round_cost \<rparr>
     in case cfg_max_turn_cost (ag_config a) of
          Some limit \<Rightarrow>
            if ag_turn_cost a > limit
            then turn_stop (EO_Failed (AE_CostCeilingExceeded limit (ag_turn_cost a))) (a, w)
            else turn_return () (a, w)
        | None \<Rightarrow> turn_return () (a, w))"

text \<open>A batch refused as a whole by a gate: one attributed refusal, then the turn fails.\<close>

definition refuse_batch :: "(string \<times> tool_error) option \<Rightarrow> ('e, unit) turn" where
  "refuse_batch denial =
     (case denial of
        None \<Rightarrow> turn_return ()
      | Some (tool, cause) \<Rightarrow>
          turn_bind check_execution_room (\<lambda>_.
          turn_bind next_execution (\<lambda>eid.
          turn_bind (turn_agent (attribute_execution (prompt_refusal eid tool cause))) (\<lambda>_.
          turn_fail (AE_Tool cause)))))"

definition precheck_step :: "tool_call list \<Rightarrow> auth_base \<Rightarrow> ('e, unit) turn" where
  "precheck_step calls base = turn_with (\<lambda>a w.
     case precheck_narrowed (ag_tools a) w calls base (cfg_max_tool_calls_per_turn (ag_config a))
            (ag_allowed_tools a) of
       Ok _ \<Rightarrow> turn_return ()
     | Err error \<Rightarrow> turn_fail (AE_Tool error))"

definition finish_turn :: "string \<Rightarrow> ('e, 'a) turn" where
  "finish_turn txt = (\<lambda>(a, w).
     Some (Err (EO_Completed txt), a, w\<lparr> wd_session := session_finish False (wd_session w) \<rparr>))"

definition dispatch_batch ::
  "'e turn_env \<Rightarrow> u64 \<Rightarrow> provider_turn \<Rightarrow> message list \<Rightarrow> ('e, message list) turn" where
  "dispatch_batch env now_ms turn messages =
     (let calls = map (\<lambda>call. \<lparr> tc_name = tcr_name call, tc_arguments = tcr_arguments call \<rparr>) (pt_tool_calls turn)
      in turn_with (\<lambda>a0 w0.
         turn_bind (turn_with (\<lambda>a w. refuse_batch (narrowing_denial_for_batch a calls))) (\<lambda>_.
         turn_bind (turn_with (\<lambda>a w. refuse_batch (prompt_gate_denial a calls))) (\<lambda>_.
         turn_bind (precheck_step calls (session_auth_base (wd_session w0))) (\<lambda>_.
         call_loop env now_ms calls (messages @ [message_assistant (pt_text turn)]))))))"

definition provider_step :: "'e turn_env \<Rightarrow> turn_request \<Rightarrow> ('e, provider_turn) turn" where
  "provider_step env req = (\<lambda>(a, w).
     case env_complete env req w of
       (Ok turn, w') \<Rightarrow> turn_return turn (a, w')
     | (Err (PE_Unknown provider reason), w') \<Rightarrow> provider_unknown provider reason (a, w')
     | (Err error, w') \<Rightarrow> turn_fail (provider_error_into error) (a, w'))"

definition turn_request_of ::
  "agent_config \<Rightarrow> string \<Rightarrow> string list \<Rightarrow> string list \<Rightarrow> u64 \<Rightarrow> message list \<Rightarrow> turn_request" where
  "turn_request_of config model names context_refs now_ms messages =
     \<lparr> tr_model = model, tr_messages = messages, tr_context_refs = context_refs, tr_tools = names,
       tr_budget_bytes = config_budget_bytes config, tr_timeout_ms = cfg_provider_timeout_ms config,
       tr_now_ms = now_ms, tr_sampling = None \<rparr>"

definition run_round ::
  "'e turn_env \<Rightarrow> u64 \<Rightarrow> (message list \<Rightarrow> turn_request) \<Rightarrow> message list \<Rightarrow> ('e, message list) turn" where
  "run_round env now_ms request messages =
     (let req = request messages in
      turn_bind (provider_step env req) (\<lambda>turn.
      turn_bind (charge_round req turn) (\<lambda>_.
      turn_bind (deliver (emit_text (env_emit env) turn)) (\<lambda>_.
      if pt_tool_calls turn = []
      then turn_bind check_cancelled (\<lambda>_. finish_turn (pt_text turn))
      else dispatch_batch env now_ms turn messages))))"

text \<open>The \<open>loop\<close>, on the number of rounds that \<open>max_rounds\<close> leaves.\<close>

fun round_loop ::
  "'e turn_env \<Rightarrow> u64 \<Rightarrow> (message list \<Rightarrow> turn_request) \<Rightarrow> nat \<Rightarrow> message list \<Rightarrow> ('e, unit) turn" where
  "round_loop env now_ms request 0 messages =
     turn_bind check_cancelled (\<lambda>_.
     turn_with (\<lambda>a w. turn_fail (AE_RoundLimitExceeded (cfg_max_rounds (ag_config a)))))"
| "round_loop env now_ms request (Suc n) messages =
     turn_bind check_cancelled (\<lambda>_.
     turn_bind (run_round env now_ms request messages) (round_loop env now_ms request n))"

text \<open>The carry of unresolved records of the last turn into the pending list.\<close>

fun carry_loop :: "execution_record list \<Rightarrow> ('e, unit) turn" where
  "carry_loop [] = turn_return ()"
| "carry_loop (r # rs) = (\<lambda>(a, w).
     case position (\<lambda>pending. xr_execution_id pending = xr_execution_id r) (ag_pending_unknown a) of
       Some i \<Rightarrow>
         carry_loop rs
           (a\<lparr> ag_pending_unknown := (ag_pending_unknown a)[i := (ag_pending_unknown a ! i)
                \<lparr> xr_status := xr_status r, xr_result_disposition := xr_result_disposition r,
                  xr_tool := xr_tool r \<rparr>] \<rparr>, w)
     | None \<Rightarrow>
         if length (ag_pending_unknown a) \<ge> MAX_EXECUTIONS_PER_AGENT
         then turn_fail (AE_Tool (TE_CallLimitExceeded MAX_EXECUTIONS_PER_AGENT)) (a, w)
         else carry_loop rs (a\<lparr> ag_pending_unknown := ag_pending_unknown a @ [r] \<rparr>, w))"

definition timeout_gate :: "('e, unit) turn" where
  "timeout_gate = turn_with (\<lambda>a w.
     let timeout_ms = cfg_provider_timeout_ms (ag_config a)
     in if timeout_ms = 0 \<or> timeout_ms > MAX_REQUEST_TIMEOUT_MS
        then turn_fail (AE_Tool (TE_Denied ''provider_timeout_ms''
               (provider_error_display (PE_TimeoutTooLarge MAX_REQUEST_TIMEOUT_MS timeout_ms))))
        else turn_return ())"

definition seed_advisory :: "assembled_context \<Rightarrow> directive_screen_flags" where
  "seed_advisory assembled =
     foldl flags_combined screen_flags_default
       (map screen_assembled_record (filter ar_is_untrusted_surface (ac_records assembled)))"

definition assemble_step :: "context_record list \<Rightarrow> ('e, assembled_context) turn" where
  "assemble_step seed_records = (\<lambda>(a, w).
     let a = a\<lparr> ag_last_advisory := None \<rparr>;
         request = \<lparr> req_max_tokens = None, req_max_bytes = Some (of_nat (config_budget_bytes (ag_config a))),
                     req_current_generation = ses_generation (wd_session w) \<rparr>
     in case assemble seed_records request (ag_artifacts a) of
          (Err error, store) \<Rightarrow> turn_fail (AE_Context error) (a\<lparr> ag_artifacts := store \<rparr>, w)
        | (Ok assembled, store) \<Rightarrow>
            turn_return assembled
              (a\<lparr> ag_artifacts := store, ag_last_advisory := Some (seed_advisory assembled) \<rparr>, w))"

definition reset_turn :: "'w agent \<Rightarrow> 'w agent" where
  "reset_turn a =
     a\<lparr> ag_tools := begin_turn (ag_tools a), ag_executions := [], ag_tool_history := [],
        ag_turn_cost := 0, ag_next_seq := 0 \<rparr>"

definition turn_body ::
  "'e turn_env \<Rightarrow> string \<Rightarrow> string \<Rightarrow> context_record list \<Rightarrow> u64 \<Rightarrow> ('e, unit) turn" where
  "turn_body env model prompt seed_records now_ms =
     turn_bind timeout_gate (\<lambda>_.
     turn_bind (assemble_step seed_records) (\<lambda>assembled.
     turn_bind (turn_with (\<lambda>a w. carry_loop (filter (\<lambda>r. is_unknown (xr_status r)) (ag_executions a)))) (\<lambda>_.
     turn_bind (turn_agent reset_turn) (\<lambda>_.
     turn_with (\<lambda>a w.
       round_loop env now_ms
         (turn_request_of (ag_config a) model (tool_names (tb_registry (ag_tools a)))
            (ac_context_refs assembled) now_ms)
         (cfg_max_rounds (ag_config a))
         (map assembled_record_message (ac_records assembled) @ [message_user prompt]))))))"

definition run_turn ::
  "'e turn_env \<Rightarrow> string \<Rightarrow> string \<Rightarrow> context_record list \<Rightarrow> u64 \<Rightarrow> 'e turn_state
     \<Rightarrow> (exec_outcome \<times> 'e turn_state) option" where
  "run_turn env model prompt seed_records now_ms = (\<lambda>(a, w).
     if is_cancelled (wd_session w) then Some (EO_Canceled 0 0, a, w)
     else if ses_state (wd_session w) \<noteq> SS_Active
     then Some (EO_Failed (AE_Session (SE_AlreadyTerminated (ses_state (wd_session w)))), a, w)
     else case turn_body env model prompt seed_records now_ms (a, w) of
            Some (Err out, st) \<Rightarrow> Some (out, st)
          | _ \<Rightarrow> None)"

section \<open>Reconciliation\<close>

definition schedule ::
  "agent_config \<Rightarrow> 'w unknown_reconciler \<Rightarrow> string \<Rightarrow> execution_id \<Rightarrow> u64 \<Rightarrow> string \<Rightarrow> 'w
     \<Rightarrow> ((tool_status \<times> nat) + string) \<times> u64 list \<times> 'w" where
  "schedule c rec tool eid now_ms current_reason w =
     (let config = agent_reconcile_config c;
          ceiling = effective_max_delay_ms config
      in reconcile_loop rec tool eid now_ms (min (rg_base_delay_ms config) ceiling) ceiling
           (effective_retries config) 0 [] current_reason w)"

definition escalate ::
  "string \<Rightarrow> string \<Rightarrow> u64 list \<Rightarrow> 'e turn_state \<Rightarrow> reconcile_outcome \<times> 'e turn_state" where
  "escalate tool reason delays = (\<lambda>(a, w).
     (RO_Escalated \<lparr> es_tool = tool, es_reason = reason, es_attempts = length delays,
                     es_dispatched = length (ag_executions a), es_delays_ms = delays \<rparr>,
      a, w\<lparr> wd_session := session_finish True (wd_session w) \<rparr>))"

definition set_first_status ::
  "execution_id \<Rightarrow> tool_status \<Rightarrow> execution_record list \<Rightarrow> execution_record list" where
  "set_first_status eid status rs =
     (case position (\<lambda>r. xr_execution_id r = eid) rs of
        Some i \<Rightarrow> rs[i := (rs ! i)\<lparr> xr_status := status \<rparr>]
      | None \<Rightarrow> rs)"

definition reconcile_pending_at ::
  "'e world unknown_reconciler \<Rightarrow> nat \<Rightarrow> u64 \<Rightarrow> 'e turn_state \<Rightarrow> reconcile_outcome \<times> 'e turn_state" where
  "reconcile_pending_at rec pending now_ms = (\<lambda>(a, w).
     let r = ag_pending_unknown a ! pending in
     case xr_status r of
       TS_Unknown reason \<Rightarrow>
         (case schedule (ag_config a) rec (xr_tool r) (xr_execution_id r) now_ms (bound_reason reason) w of
            (Inl (status, attempts), delays, w') \<Rightarrow>
              (RO_Resolved status attempts delays,
               a\<lparr> ag_pending_unknown := take pending (ag_pending_unknown a) @ drop (Suc pending) (ag_pending_unknown a),
                  ag_executions := set_first_status (xr_execution_id r) status (ag_executions a) \<rparr>, w')
          | (Inr last_reason, delays, w') \<Rightarrow> escalate (xr_tool r) last_reason delays (a, w'))
     | _ \<Rightarrow> (RO_NoUnknown, a, w))"

definition reconcile_executions_at ::
  "'e world unknown_reconciler \<Rightarrow> nat \<Rightarrow> execution_id \<Rightarrow> u64 \<Rightarrow> 'e turn_state
     \<Rightarrow> reconcile_outcome \<times> 'e turn_state" where
  "reconcile_executions_at rec index eid now_ms = (\<lambda>(a, w).
     let r = ag_executions a ! index;
         reason = (case xr_status r of TS_Unknown reason \<Rightarrow> reason | _ \<Rightarrow> [])
     in case schedule (ag_config a) rec (xr_tool r) eid now_ms (bound_reason reason) w of
          (Inl (status, attempts), delays, w') \<Rightarrow>
            (RO_Resolved status attempts delays,
             a\<lparr> ag_executions := (ag_executions a)[index := r\<lparr> xr_status := status \<rparr>],
                ag_pending_unknown := filter (\<lambda>p. xr_execution_id p \<noteq> eid) (ag_pending_unknown a) \<rparr>, w')
        | (Inr last_reason, delays, w') \<Rightarrow> escalate (xr_tool r) last_reason delays (a, w'))"

definition reconcile_current ::
  "'e world unknown_reconciler \<Rightarrow> execution_id \<Rightarrow> u64 \<Rightarrow> 'e turn_state \<Rightarrow> reconcile_outcome \<times> 'e turn_state" where
  "reconcile_current rec eid now_ms = (\<lambda>(a, w).
     case position (\<lambda>r. xr_execution_id r = eid \<and> is_unknown (xr_status r)) (ag_executions a) of
       None \<Rightarrow> (RO_NoUnknown, a, w)
     | Some index \<Rightarrow> reconcile_executions_at rec index eid now_ms (a, w))"

definition reconcile_unknown ::
  "'e world unknown_reconciler \<Rightarrow> execution_id \<Rightarrow> u64 \<Rightarrow> 'e turn_state \<Rightarrow> reconcile_outcome \<times> 'e turn_state" where
  "reconcile_unknown rec eid now_ms = (\<lambda>(a, w).
     case position (\<lambda>r. xr_execution_id r = eid) (ag_pending_unknown a) of
       Some pending \<Rightarrow>
         (case reconcile_pending_at rec pending now_ms (a, w) of
            (RO_NoUnknown, st) \<Rightarrow> reconcile_current rec eid now_ms st
          | result \<Rightarrow> result)
     | None \<Rightarrow> reconcile_current rec eid now_ms (a, w))"

end
