(* ===== verification/Agent_Walk.thy ===== *)
theory Agent_Walk
  imports Agent
begin

text \<open>
  What a turn of the agent guarantees. The steps of a turn are taken through a weakest-precondition
  transformer. One walk over the turn, made in a locale whose parameters are the environment and an
  invariant of the world indexed by the provider calls and the execution ids so far, gives all
  results on \<open>run_turn\<close>; each result chooses its own invariant.
\<close>

section \<open>Weakest preconditions\<close>

text \<open>\<open>N\<close> is the verdict on a turn that does not return: \<^term>\<open>True\<close> for partial, \<^term>\<open>False\<close> for total correctness.\<close>

definition wp ::
  "bool \<Rightarrow> ('e, 'a) turn \<Rightarrow> ('a \<Rightarrow> 'e turn_state \<Rightarrow> bool) \<Rightarrow> (exec_outcome \<Rightarrow> 'e turn_state \<Rightarrow> bool)
     \<Rightarrow> 'e turn_state \<Rightarrow> bool" where
  "wp N m Q E st =
     (case m st of
        None \<Rightarrow> N
      | Some (Ok x, st') \<Rightarrow> Q x st'
      | Some (Err out, st') \<Rightarrow> E out st')"

lemma wp_return [simp]: "wp N (turn_return x) Q E st = Q x st"
  by (simp add: wp_def turn_return_def)

lemma wp_stop [simp]: "wp N (turn_stop out) Q E st = E out st"
  by (simp add: wp_def turn_stop_def)

lemma wp_bind [simp]: "wp N (turn_bind m f) Q E st = wp N m (\<lambda>x. wp N (f x) Q E) E st"
  by (simp add: wp_def turn_bind_def split: option.splits result.splits prod.splits)

lemma wp_agent [simp]: "wp N (turn_agent f) Q E (a, w) = Q () (f a, w)"
  by (simp add: wp_def turn_agent_def)

lemma wp_with [simp]: "wp N (turn_with f) Q E (a, w) = wp N (f a w) Q E (a, w)"
  by (simp add: wp_def turn_with_def)

lemma wp_fail [simp]:
  "wp N (turn_fail e) Q E (a, w) =
     E (EO_Failed e) (a, w\<lparr> wd_session := session_finish True (wd_session w) \<rparr>)"
  by (simp add: wp_def turn_fail_def)

lemma wp_finish [simp]:
  "wp N (finish_turn txt) Q E (a, w) =
     E (EO_Completed txt) (a, w\<lparr> wd_session := session_finish False (wd_session w) \<rparr>)"
  by (simp add: wp_def finish_turn_def)

lemma wp_cancel [simp]: "wp N reconcile_cancel Q E (a, w) = E (cancel_outcome a) (a, w)"
  by (simp add: reconcile_cancel_def)

lemma wp_check_cancelled [simp]:
  "wp N check_cancelled Q E (a, w) =
     (if is_cancelled (wd_session w) then E (cancel_outcome a) (a, w) else Q () (a, w))"
  by (simp add: check_cancelled_def)

lemma wp_next [simp]:
  "wp N next_execution Q E (a, w) =
     (case issue_execution (wd_next_id w) of
        None \<Rightarrow> N
      | Some (eid, u) \<Rightarrow> Q eid (a, w\<lparr> wd_next_id := u \<rparr>))"
  by (simp add: wp_def next_execution_def split: option.splits prod.splits)

lemma wp_room [simp]:
  "length (ag_executions a) < MAX_EXECUTIONS_PER_AGENT \<Longrightarrow> wp N check_execution_room Q E (a, w) = Q () (a, w)"
  by (simp add: check_execution_room_def)

lemma wp_unknown_outcome [simp]:
  "wp N (unknown_outcome reason tool) Q E (a, w) =
     E (EO_Unknown (reason @ '' (tool '' @ bound_reason tool @ '')'') (length (ag_executions a))) (a, w)"
  by (simp add: unknown_outcome_def)

lemma wp_mono:
  assumes "wp N m Q E st" "\<And>x st'. Q x st' \<Longrightarrow> Q' x st'" "\<And>out st'. E out st' \<Longrightarrow> E' out st'"
  shows "wp N m Q' E' st"
  using assms by (auto simp: wp_def split: option.splits result.splits prod.splits)

section \<open>Outcomes\<close>

abbreviation execution_ids :: "'w agent \<Rightarrow> execution_id list" where
  "execution_ids a \<equiv> map xr_execution_id (ag_executions a)"

abbreviation has_unknown :: "'w agent \<Rightarrow> bool" where
  "has_unknown a \<equiv> list_ex (\<lambda>r. is_unknown (xr_status r)) (ag_executions a)"

text \<open>What an outcome says of the agent and the session it leaves.\<close>

fun outcome_agrees :: "exec_outcome \<Rightarrow> 'e turn_state \<Rightarrow> bool" where
  "outcome_agrees (EO_Completed _) (a, w) \<longleftrightarrow> ses_state (wd_session w) \<in> {SS_Completed, SS_Failed}"
| "outcome_agrees (EO_Failed (AE_CostCeilingExceeded limit actual)) (a, w) \<longleftrightarrow>
     cfg_max_turn_cost (ag_config a) = Some limit \<and> limit < actual \<and> ag_turn_cost a = actual"
| "outcome_agrees (EO_Failed _) (a, w) \<longleftrightarrow> ses_state (wd_session w) \<noteq> SS_Active"
| "outcome_agrees (EO_Canceled dispatched unknown) (a, w) \<longleftrightarrow>
     is_cancelled (wd_session w) \<and> dispatched = length (ag_executions a) \<and> unknown = 0 \<and> \<not> has_unknown a"
| "outcome_agrees (EO_Unknown _ dispatched) (a, w) \<longleftrightarrow>
     dispatched = length (ag_executions a) \<and> has_unknown a"

lemma filter_pos_list_ex: "0 < length (filter P xs) \<longleftrightarrow> list_ex P xs"
  by (auto simp: list_ex_iff filter_empty_conv)

lemma agrees_cancel [simp]:
  "is_cancelled (wd_session w) \<Longrightarrow> outcome_agrees (cancel_outcome a) (a, w)"
  using filter_pos_list_ex [of "\<lambda>r. is_unknown (xr_status r)" "ag_executions a"]
  by (auto simp: cancel_outcome_def Let_def)

lemma finish_not_active [simp]: "ses_state (session_finish b s) \<noteq> SS_Active"
  by (simp add: session_finish_def)

fun is_cost_fuse :: "agent_error \<Rightarrow> bool" where
  "is_cost_fuse (AE_CostCeilingExceeded _ _) = True"
| "is_cost_fuse _ = False"

lemma agrees_failed [simp]:
  "\<not> is_cost_fuse e \<Longrightarrow> outcome_agrees (EO_Failed e) (a, w) \<longleftrightarrow> ses_state (wd_session w) \<noteq> SS_Active"
  by (cases e) auto

lemma agrees_completed:
  "\<not> is_cancelled s \<Longrightarrow> outcome_agrees (EO_Completed txt) (a, w\<lparr> wd_session := session_finish False s \<rparr>)"
  by (cases "ses_state s") (auto simp: session_finish_def is_cancelled_def)

lemma provider_error_no_fuse [simp]: "\<not> is_cost_fuse (provider_error_into e)"
  by (cases e) auto

lemma attribute_frame [simp]:
  "ag_executions (attribute_execution x a) = ag_executions a @
     [\<lparr> xr_execution_id = te_execution_id x, xr_tool = te_tool x, xr_status = te_status x,
        xr_result_disposition = te_result_disposition x \<rparr>]"
  "ag_tools (attribute_execution x a) = ag_tools a"
  "ag_pending_unknown (attribute_execution x a) = ag_pending_unknown a"
  "ag_config (attribute_execution x a) = ag_config a"
  by (simp_all add: attribute_execution_def push_execution_def)

lemma push_frame [simp]:
  "ag_executions (push_execution r a) = ag_executions a @ [r]"
  "ag_tools (push_execution r a) = ag_tools a"
  "ag_pending_unknown (push_execution r a) = ag_pending_unknown a"
  "ag_config (push_execution r a) = ag_config a"
  by (simp_all add: push_execution_def)

lemma advise_frame [simp]:
  "ag_executions (advise x a) = ag_executions a"
  "ag_tools (advise x a) = ag_tools a"
  "ag_pending_unknown (advise x a) = ag_pending_unknown a"
  "ag_config (advise x a) = ag_config a"
  by (simp_all add: advise_def)

lemma record_frame:
  assumes "record_execution x now_ms generation a = (r, a')"
  shows "ag_executions a' = ag_executions (attribute_execution x a) \<and> ag_tools a' = ag_tools a
         \<and> ag_pending_unknown a' = ag_pending_unknown a \<and> ag_config a' = ag_config a"
  using assms
  by (auto simp: record_execution_def Let_def split: if_splits result.splits prod.splits)

lemma wp_record:
  assumes "\<And>a'. ag_executions a' = ag_executions (attribute_execution x a) \<Longrightarrow> ag_tools a' = ag_tools a
      \<Longrightarrow> ag_pending_unknown a' = ag_pending_unknown a \<Longrightarrow> ag_config a' = ag_config a \<Longrightarrow>
      Q () (a', w) \<and>
      (\<forall>e. E (EO_Failed (AE_Context e)) (a', w\<lparr> wd_session := session_finish True (wd_session w) \<rparr>))"
  shows "wp N (record_step x now_ms) Q E (a, w)"
proof -
  obtain r a' where r: "record_execution x now_ms (ses_generation (wd_session w)) a = (r, a')" by fastforce
  from record_frame [OF r] assms [of a'] r show ?thesis
    by (cases r) (simp_all add: wp_def record_step_def turn_return_def turn_fail_def)
qed

section \<open>Dispatching from a turn\<close>

lemma dispatch_narrowed_cases:
  obtains (refused) cause bus' where
      "dispatch_narrowed execute call base eid now_ms allowed bus w = (Ok (refused eid call cause), bus', w)"
      "tb_calls_this_turn bus' = tb_calls_this_turn bus"
  | (contact) outcome w' bus' where
      "execute (tc_name call) (tc_arguments call) \<lparr> ec_execution_id = eid, ec_now_ms = now_ms \<rparr> w = (outcome, w')"
      "dispatch_narrowed execute call base eid now_ms allowed bus w = (outcome_execution eid call outcome, bus', w')"
      "tb_calls_this_turn bus' = tb_calls_this_turn bus + 1"
      "tb_calls_this_turn bus < MAX_TOOL_CALLS_PER_TURN" "valid_tool_name (tc_name call)"
proof (cases "narrowing_omits allowed (tc_name call)")
  case True
  then show ?thesis using that(1) by (simp add: dispatch_narrowed_def Let_def)
next
  case False
  note n = dispatch_narrowed_def [of execute call base eid now_ms allowed bus w]
  show ?thesis
    using dispatch_cases [of bus w base call now_ms execute eid]
  proof cases
    case (refused cause)
    then show ?thesis using that(1) False n by simp
  next
    case (contact outcome w')
    have "tb_calls_this_turn (let bus' = bus\<lparr> tb_calls_this_turn := tb_calls_this_turn bus + 1 \<rparr>
        in case outcome_execution eid call outcome of
             Ok x \<Rightarrow> observed eid call base now_ms x bus' | Err _ \<Rightarrow> bus') = tb_calls_this_turn bus + 1"
      by (simp add: Let_def split: result.splits)
    with contact False n show ?thesis
      by (intro that(2)) (auto simp: admitted_def authorized_def)
  qed
qed

lemma valid_tool_name_utf8: "valid_tool_name s \<Longrightarrow> valid_utf8 s"
  by (intro valid_utf8_ascii)
     (auto simp: valid_tool_name_def tool_name_char_def ascii_class_defs list_all_iff)

lemma card_utf8:
  assumes "valid_tool_name tool" "valid_utf8 summary"
  shows "valid_utf8 (''tool='' @ tool @ '' status='' @ status_label status @ '' summary='' @ summary)"
proof -
  have a: "valid_utf8 ''tool=''" "valid_utf8 '' status=''" "valid_utf8 (status_label status)"
    "valid_utf8 '' summary=''"
    by (cases status; intro valid_utf8_ascii; simp)+
  show ?thesis
    by (simp only: valid_utf8_append [OF a(1)] valid_utf8_append [OF valid_tool_name_utf8 [OF assms(1)]]
        valid_utf8_append [OF a(2)] valid_utf8_append [OF a(3)] valid_utf8_append [OF a(4)] assms(2))
qed

lemma outcome_summary_utf8:
  assumes "outcome_execution eid call outcome = Ok x" "\<And>s. outcome = Ok s \<Longrightarrow> valid_utf8 (su_summary s)"
    "te_result_disposition x = RD_Accepted"
  shows "valid_utf8 (te_summary x)"
  using assms
  by (cases "(eid, call, outcome)" rule: outcome_execution.cases)
     (auto simp: result_rejected_def ack_loss_def host_answered_def valid_utf8_ascii split: if_splits)

section \<open>Carrying unresolved records\<close>

abbreviation record_ids :: "execution_record list \<Rightarrow> execution_id set" where
  "record_ids rs \<equiv> xr_execution_id ` set rs"

definition pending_ok :: "execution_record list \<Rightarrow> bool" where
  "pending_ok rs \<longleftrightarrow>
     distinct (map xr_execution_id rs) \<and> list_all (\<lambda>r. is_unknown (xr_status r)) rs
     \<and> length rs \<le> MAX_EXECUTIONS_PER_AGENT"

lemma map_update_same: "i < length xs \<Longrightarrow> f y = f (xs ! i) \<Longrightarrow> map f (xs[i := y]) = map f xs"
  by (metis list_update_id map_update nth_map)

lemma pending_ok_update:
  assumes "pending_ok rs" "i < length rs" "xr_execution_id r = xr_execution_id (rs ! i)" "is_unknown (xr_status r)"
  shows "pending_ok (rs[i := r])"
proof -
  have "map xr_execution_id (rs[i := r]) = map xr_execution_id rs" using assms(2,3) by (rule map_update_same)
  moreover have "list_all (\<lambda>r. is_unknown (xr_status r)) (rs[i := r])"
    using assms(1,4) set_update_subset_insert [of rs i r] by (auto simp: pending_ok_def list_all_iff)
  ultimately show ?thesis using assms(1) by (simp add: pending_ok_def)
qed

lemma pending_ok_snoc:
  assumes "pending_ok rs" "xr_execution_id r \<notin> record_ids rs" "is_unknown (xr_status r)"
    "length rs < MAX_EXECUTIONS_PER_AGENT"
  shows "pending_ok (rs @ [r])"
  using assms by (auto simp: pending_ok_def)

text \<open>The pending list after a carry: nothing dropped, the carried records added, well-formed.\<close>

definition carried :: "execution_record list \<Rightarrow> execution_record list \<Rightarrow> execution_record list \<Rightarrow> bool" where
  "carried old rs new \<longleftrightarrow>
     record_ids new = record_ids old \<union> record_ids rs
     \<and> (pending_ok old \<and> list_all (\<lambda>r. is_unknown (xr_status r)) rs \<longrightarrow> pending_ok new)"

lemma carried_step:
  assumes "carried (if b then old[i := r] else old @ [r]) rs new"
    and "b \<Longrightarrow> i < length old \<and> xr_execution_id (old ! i) = xr_execution_id r"
    and "\<not> b \<Longrightarrow> xr_execution_id r \<notin> record_ids old \<and> length old < MAX_EXECUTIONS_PER_AGENT"
  shows "carried old (r # rs) new"
proof (cases b)
  case True
  with assms(2) have i: "i < length old" "xr_execution_id r = xr_execution_id (old ! i)" by simp_all
  have "record_ids (old[i := r]) = set (map xr_execution_id (old[i := r]))" by simp
  also have "\<dots> = record_ids old" unfolding map_update_same [OF i] by simp
  finally have ids: "record_ids (old[i := r]) = record_ids old" .
  have "xr_execution_id r \<in> record_ids old" using i by (simp add: i(2))
  with assms(1) True ids pending_ok_update [OF _ i] show ?thesis by (auto simp: carried_def)
next
  case False
  with assms(1,3) pending_ok_snoc [of old r] show ?thesis by (auto simp: carried_def)
qed

lemma wp_carry:
  assumes "\<And>p. carried (ag_pending_unknown a) rs p \<Longrightarrow> Q () (a\<lparr> ag_pending_unknown := p \<rparr>, w)"
    and "\<And>p qs. carried (ag_pending_unknown a) qs p \<Longrightarrow> set qs \<subseteq> set rs \<Longrightarrow>
      E (EO_Failed (AE_Tool (TE_CallLimitExceeded MAX_EXECUTIONS_PER_AGENT)))
        (a\<lparr> ag_pending_unknown := p \<rparr>, w\<lparr> wd_session := session_finish True (wd_session w) \<rparr>)"
  shows "wp N (carry_loop rs) Q E (a, w)"
  using assms
proof (induction rs arbitrary: a)
  case Nil
  from Nil(1) [of "ag_pending_unknown a"] show ?case by (simp add: carried_def)
next
  case (Cons r rs)
  let ?p = "ag_pending_unknown a"
  have go: "wp N (carry_loop rs) Q E (a\<lparr> ag_pending_unknown := (if b then ?p[i := r] else ?p @ [r]) \<rparr>, w)"
    if b: "b \<Longrightarrow> i < length ?p \<and> xr_execution_id (?p ! i) = xr_execution_id r"
      "\<not> b \<Longrightarrow> xr_execution_id r \<notin> record_ids ?p \<and> length ?p < MAX_EXECUTIONS_PER_AGENT" for b i
  proof (rule Cons.IH, goal_cases)
    case (1 p)
    then have "carried (if b then ?p[i := r] else ?p @ [r]) rs p" by simp
    from Cons.prems(1) [OF carried_step [OF this b]] show ?case by simp
  next
    case (2 qs p)
    then have "carried (if b then ?p[i := r] else ?p @ [r]) qs p" by simp
    from Cons.prems(2) [OF carried_step [OF this b]] 2 show ?case by auto
  qed
  show ?case
  proof (cases "position (\<lambda>pending. xr_execution_id pending = xr_execution_id r) ?p")
    case None
    then have fresh: "xr_execution_id r \<notin> record_ids ?p" by (auto simp: position_None_iff)
    show ?thesis
    proof (cases "length ?p \<ge> MAX_EXECUTIONS_PER_AGENT")
      case True
      have "carried ?p [] ?p" by (simp add: carried_def)
      from Cons.prems(2) [OF this] True None show ?thesis by (simp add: wp_def turn_fail_def)
    next
      case False
      with go [of False] fresh None show ?thesis by (simp add: wp_def)
    qed
  next
    case (Some i)
    then have i: "i < length ?p" "xr_execution_id (?p ! i) = xr_execution_id r" using position_Some by force+
    then have u: "(?p ! i)\<lparr> xr_status := xr_status r, xr_result_disposition := xr_result_disposition r,
        xr_tool := xr_tool r \<rparr> = r" by (cases r; cases "?p ! i") simp
    have "carry_loop (r # rs) (a, w) = carry_loop rs (a\<lparr> ag_pending_unknown := ?p[i := r] \<rparr>, w)"
      by (simp only: carry_loop.simps prod.case Some option.case u)
    with go [of True i] i show ?thesis by (simp add: wp_def)
  qed
qed

section \<open>Emission\<close>

definition emit_keeps :: "'w sink_emit \<Rightarrow> ('w \<Rightarrow> bool) \<Rightarrow> bool" where
  "emit_keeps emit P \<longleftrightarrow> (\<forall>w chunk. P w \<longrightarrow> P (snd (emit w chunk)))"

lemma emit_loop_preserves:
  assumes "emit_keeps emit P"
    and "emit_loop emit cancelled start next n index fs w = (r, w')" "P w"
  shows "P w' \<and> (r = Ok None \<longrightarrow> cancelled w')"
  using assms(2,3)
proof (induction fs arbitrary: index w)
  case (Cons f fs)
  show ?case
  proof (cases "cancelled w")
    case False
    obtain c r1 w1 where e: "emit w c = (r1, w1)" "c = \<lparr> chunk_seq = start + of_nat index, chunk_total = next,
        chunk_is_final = (index + 1 = n), chunk_fragment = f \<rparr>" by fastforce
    have "P w1" using assms Cons.prems(2) e(1) by (metis emit_keeps_def snd_conv)
    with Cons.prems(1) False e Cons.IH [of "index + 1" w1] show ?thesis by (cases r1) auto
  qed (use Cons.prems in auto)
qed (auto split: if_splits)

lemma emit_fragments_preserves:
  assumes "emit_keeps emit P"
    and "emit_fragments emit cancelled fs start w = (r, w')" "P w"
  shows "P w' \<and> (r = Ok None \<longrightarrow> cancelled w')"
  using assms(2,3) emit_loop_preserves [OF assms(1)]
  by (simp add: emit_fragments_def split: if_splits option.splits) fastforce+

lemma wp_deliver:
  assumes emit: "emit_keeps emit P" and "P w"
    and more: "\<And>s w'. P w' \<Longrightarrow> Q () (a\<lparr> ag_next_seq := s \<rparr>, w')"
    and cancel: "\<And>w'. P w' \<Longrightarrow> is_cancelled (wd_session w') \<Longrightarrow> E (cancel_outcome a) (a, w')"
    and fail: "\<And>e w'. P w' \<Longrightarrow>
      E (EO_Failed (AE_Stream e)) (a, w'\<lparr> wd_session := session_finish True (wd_session w') \<rparr>)"
    and m: "m (a, w) = Some (emit_batch emit fs (a, w))
      \<or> m (a, w) = Some (Ok (\<not> is_cancelled (wd_session w)), a, w) \<or> m (a, w) = None \<and> N"
  shows "wp N (deliver m) Q E (a, w)"
proof -
  obtain r w' where r: "emit_fragments emit (\<lambda>w. is_cancelled (wd_session w)) fs (ag_next_seq a) w = (r, w')"
    by fastforce
  from emit_fragments_preserves [OF emit r \<open>P w\<close>]
  have "P w'" "r = Ok None \<Longrightarrow> is_cancelled (wd_session w')" by simp_all
  then have batch: "case emit_batch emit fs (a, w) of
      (Ok True, st') \<Rightarrow> Q () st'
    | (Ok False, (a', w')) \<Rightarrow> E (cancel_outcome a') (a', w')
    | (Err e, (a', w')) \<Rightarrow> E (EO_Failed (AE_Stream e)) (a', w'\<lparr> wd_session := session_finish True (wd_session w') \<rparr>)"
    using more cancel fail r by (auto simp: emit_batch_def split: result.splits option.splits)
  show ?thesis
  proof (cases "m (a, w) = Some (emit_batch emit fs (a, w))")
    case True
    with batch show ?thesis
      by (cases "emit_batch emit fs (a, w)")
         (auto simp: wp_def deliver_def turn_return_def turn_fail_def reconcile_cancel_def turn_with_def
           turn_stop_def split: result.splits bool.splits)
  next
    case False
    moreover have "Q () (a, w)" using more [OF \<open>P w\<close>, of "ag_next_seq a"] by simp
    ultimately show ?thesis using m cancel [OF \<open>P w\<close>]
      by (cases "is_cancelled (wd_session w)")
         (auto simp: wp_def deliver_def turn_return_def reconcile_cancel_def turn_with_def turn_stop_def)
  qed
qed

lemma emit_text_forms:
  assumes "N \<or> valid_utf8 (pt_text turn)"
  shows "\<exists>fs. emit_text emit turn (a, w) = Some (emit_batch emit fs (a, w))
    \<or> emit_text emit turn (a, w) = Some (Ok (\<not> is_cancelled (wd_session w)), a, w)
    \<or> emit_text emit turn (a, w) = None \<and> N"
  using assms fragment_text_correct [of "pt_text turn" FK_Markdown]
  by (cases "fragment_text FK_Markdown (pt_text turn)") (auto simp: emit_text_def)

lemma emit_card_forms:
  assumes "N \<or> valid_tool_name (te_tool x) \<and> valid_utf8 (te_summary x)"
  shows "\<exists>fs. emit_tool_card emit x (a, w) = Some (emit_batch emit fs (a, w))
    \<or> emit_tool_card emit x (a, w) = Some (Ok (\<not> is_cancelled (wd_session w)), a, w)
    \<or> emit_tool_card emit x (a, w) = None \<and> N"
proof -
  let ?card = "''tool='' @ te_tool x @ '' status='' @ status_label (te_status x) @ '' summary='' @ te_summary x"
  have "N \<or> fragment_text FK_ToolCard ?card \<noteq> None"
    using assms card_utf8 fragment_text_correct [of ?card FK_ToolCard] by auto
  then show ?thesis
    by (cases "fragment_text FK_ToolCard ?card") (auto simp: emit_tool_card_def Let_def)
qed

section \<open>The walk\<close>

type_synonym trace = "(bool \<times> execution_id) list"

text \<open>
  \<open>R k t w\<close> is the invariant of the world after \<open>k\<close> provider calls and the ids \<open>t\<close>, each marked with
  whether the executor was contacted for it. The predicates below describe the agent between two
  calls (\<open>turn_open\<close>) and at any point where the turn may end (\<open>turn_done\<close>).
\<close>

fun turn_done ::
  "(nat \<Rightarrow> trace \<Rightarrow> 'e world \<Rightarrow> bool) \<Rightarrow> execution_record list \<Rightarrow> nat \<Rightarrow> 'e turn_state \<Rightarrow> bool" where
  "turn_done R p0 km (a, w) \<longleftrightarrow>
     (\<exists>k \<le> km. \<exists>t. R k t w \<and> map snd t = execution_ids a \<and> list_all fst (butlast t)
        \<and> length t \<le> Suc MAX_TOOL_CALLS_PER_TURN
        \<and> length (filter fst t) \<le> MAX_TOOL_CALLS_PER_TURN) \<and> ag_pending_unknown a = p0"

fun turn_open ::
  "(nat \<Rightarrow> trace \<Rightarrow> 'e world \<Rightarrow> bool) \<Rightarrow> execution_record list \<Rightarrow> nat \<Rightarrow> 'e turn_state \<Rightarrow> bool" where
  "turn_open R p0 km (a, w) \<longleftrightarrow>
     (\<exists>k \<le> km. R k (map (Pair True) (execution_ids a)) w) \<and> ag_pending_unknown a = p0
     \<and> tb_calls_this_turn (ag_tools a) = length (ag_executions a)
     \<and> length (ag_executions a) \<le> MAX_TOOL_CALLS_PER_TURN"

definition turn_end ::
  "(nat \<Rightarrow> trace \<Rightarrow> 'e world \<Rightarrow> bool) \<Rightarrow> execution_record list \<Rightarrow> nat \<Rightarrow> exec_outcome \<Rightarrow> 'e turn_state \<Rightarrow> bool" where
  "turn_end R p0 km out st \<longleftrightarrow> turn_done R p0 km st \<and> outcome_agrees out st"

lemma turn_open_done: "turn_open R p0 km (a, w) \<Longrightarrow> turn_done R p0 km (a, w)"
  by (simp, elim conjE exE, intro exI conjI [rotated] exI [of _ "map (Pair True) (execution_ids a)"])
     (auto simp: list_all_iff o_def dest: in_set_butlastD)

lemma turn_done_mono: "turn_done R p0 km st \<Longrightarrow> km \<le> km' \<Longrightarrow> turn_done R p0 km' st"
  by (cases st) (auto intro: le_trans)

lemma turn_open_mono: "turn_open R p0 km st \<Longrightarrow> km \<le> km' \<Longrightarrow> turn_open R p0 km' st"
  by (cases st) (simp, meson le_trans)

lemma turn_end_mono: "turn_end R p0 km out st \<Longrightarrow> km \<le> km' \<Longrightarrow> turn_end R p0 km' out st"
  by (auto simp: turn_end_def intro: turn_done_mono)

lemma turn_end_cancel:
  "turn_done R p0 km (a, w) \<Longrightarrow> is_cancelled (wd_session w) \<Longrightarrow> turn_end R p0 km (cancel_outcome a) (a, w)"
  by (simp add: turn_end_def del: turn_done.simps)

lemma turn_room: "MAX_TOOL_CALLS_PER_TURN < MAX_EXECUTIONS_PER_AGENT"
  by (simp add: MAX_TOOL_CALLS_PER_TURN_def MAX_EXECUTIONS_PER_AGENT_def)

locale turn_world =
  fixes env :: "'e turn_env" and N :: bool and R :: "nat \<Rightarrow> trace \<Rightarrow> 'e world \<Rightarrow> bool"
  assumes complete_step: "R k t w \<Longrightarrow> env_complete env req w = (r, w') \<Longrightarrow>
      R (Suc k) t w' \<and> (\<forall>turn. r = Ok turn \<longrightarrow> N \<or> valid_utf8 (pt_text turn))"
    and emit_step: "R k t w \<Longrightarrow> env_emit env w chunk = (e, w') \<Longrightarrow> R k t w'"
    and contact_step: "R k t w \<Longrightarrow> issue_execution (wd_next_id w) = Some (eid, u) \<Longrightarrow>
      env_execute env tool args \<lparr> ec_execution_id = eid, ec_now_ms = now_ms \<rparr> (w\<lparr> wd_next_id := u \<rparr>) = (x, w') \<Longrightarrow>
      R k (t @ [(True, eid)]) w' \<and> (\<forall>s. x = Ok s \<longrightarrow> N \<or> valid_utf8 (su_summary s))"
    and issue_step: "R k t w \<Longrightarrow> issue_execution (wd_next_id w) = Some (eid, u) \<Longrightarrow>
      R k (t @ [(False, eid)]) (w\<lparr> wd_next_id := u \<rparr>)"
    and room: "R k t w \<Longrightarrow> length t \<le> MAX_TOOL_CALLS_PER_TURN \<Longrightarrow> N \<or> issue_execution (wd_next_id w) \<noteq> None"
    and finish_step: "R k t w \<Longrightarrow> R k t (w\<lparr> wd_session := session_finish failed (wd_session w) \<rparr>)"
begin

lemma done_finish:
  "turn_done R p0 km (a, w) \<Longrightarrow>
   turn_done R p0 km (a, w\<lparr> wd_session := session_finish failed (wd_session w) \<rparr>)"
  using finish_step by fastforce

lemma end_fail:
  "turn_done R p0 km (a, w) \<Longrightarrow> \<not> is_cost_fuse e \<Longrightarrow>
   turn_end R p0 km (EO_Failed e) (a, w\<lparr> wd_session := session_finish True (wd_session w) \<rparr>)"
  using done_finish [of p0 km a w True] by (simp add: turn_end_def del: turn_done.simps)

lemma emit_keeps_R: "emit_keeps (env_emit env) (R k t)"
  using emit_step by (metis emit_keeps_def prod.collapse)


lemma doneI:
  assumes "R k t w" "k \<le> km" "map snd t = execution_ids a" "list_all fst (butlast t)"
    "length t \<le> Suc MAX_TOOL_CALLS_PER_TURN" "length (filter fst t) \<le> MAX_TOOL_CALLS_PER_TURN"
    "ag_pending_unknown a = p0"
  shows "turn_done R p0 km (a, w)"
  using assms by auto

lemma accept_contact:
  assumes x: "te_execution_id x = eid" "\<not> is_admission_refusal (te_status x)"
      "te_result_disposition x = RD_Accepted \<Longrightarrow> N \<or> valid_tool_name (te_tool x) \<and> valid_utf8 (te_summary x)"
    and R: "R k (map (Pair True) (execution_ids a @ [eid])) w" "k \<le> km"
    and a: "ag_pending_unknown a = p0" "tb_calls_this_turn (ag_tools a) = Suc (length (ag_executions a))"
      "length (ag_executions a) < MAX_TOOL_CALLS_PER_TURN"
  shows "wp N (accept_execution (env_emit env) now_ms x messages) (\<lambda>_. turn_open R p0 km) (turn_end R p0 km) (a, w)"
proof -
  let ?t = "map (Pair True) (execution_ids a @ [eid])"
  let ?execs = "ag_executions (attribute_execution x a)"
  have ids: "execution_ids a' = execution_ids a @ [eid]" if "ag_executions a' = ?execs" for a' :: "'e world agent"
    using that x(1) by simp
  have opn: "turn_open R p0 km (a', w')" if "ag_executions a' = ?execs" "ag_tools a' = ag_tools a"
      "ag_pending_unknown a' = ag_pending_unknown a" "R k ?t w'" for a' w'
  proof -
    have "R k (map (Pair True) (execution_ids a')) w'" using that(4) by (simp only: ids [OF that(1)])
    moreover have "length (ag_executions a') = Suc (length (ag_executions a))" by (simp add: that(1))
    ultimately show ?thesis using R(2) a that(2,3) by auto
  qed
  have rejected: "wp N (turn_bind (turn_agent (attribute_execution x)) (\<lambda>_. turn_fail (AE_Tool cause)))
      (\<lambda>_. turn_open R p0 km) (turn_end R p0 km) (a, w)" for cause
    using end_fail [OF turn_open_done [OF opn [of "attribute_execution x a"]]] R(1) by simp
  have accepted: "wp N (turn_bind (record_step x now_ms) (\<lambda>_. turn_bind (turn_agent (advise x)) (\<lambda>_.
      turn_bind (deliver (emit_tool_card (env_emit env) x)) (\<lambda>_.
      case te_status x of
        TS_Unknown _ \<Rightarrow> unknown_outcome ''tool effect uncertain; reconcile before retry'' (te_tool x)
      | TS_Denied reason \<Rightarrow> turn_fail (AE_Tool (TE_Denied (te_tool x) reason))
      | _ \<Rightarrow> turn_return (messages @ [execution_message x])))))
      (\<lambda>_. turn_open R p0 km) (turn_end R p0 km) (a, w)" if disp: "te_result_disposition x = RD_Accepted"
  proof (simp only: wp_bind, rule wp_record, goal_cases)
    case (1 a')
    let ?a = "advise x a'"
    note frame = 1
    obtain fs where fs: "emit_tool_card (env_emit env) x (?a, w) = Some (emit_batch (env_emit env) fs (?a, w))
        \<or> emit_tool_card (env_emit env) x (?a, w) = Some (Ok (\<not> is_cancelled (wd_session w)), ?a, w)
        \<or> emit_tool_card (env_emit env) x (?a, w) = None \<and> N"
      using emit_card_forms [OF x(3) [OF disp], of "env_emit env" ?a w] by (rule exE)
    have oa: "turn_open R p0 km (?a, w')" if "R k ?t w'" for w'
      using that frame by (intro opn) simp_all
    have "wp N (deliver (emit_tool_card (env_emit env) x)) (\<lambda>xa. wp N (case te_status x of
        TS_Unknown _ \<Rightarrow> unknown_outcome ''tool effect uncertain; reconcile before retry'' (te_tool x)
      | TS_Denied reason \<Rightarrow> turn_fail (AE_Tool (TE_Denied (te_tool x) reason))
      | _ \<Rightarrow> turn_return (messages @ [execution_message x]))
      (\<lambda>_. turn_open R p0 km) (turn_end R p0 km)) (turn_end R p0 km) (?a, w)"
    proof (rule wp_deliver [where P = "R k ?t" and emit = "env_emit env" and fs = fs], goal_cases)
      case 1
      show ?case by (rule emit_keeps_R)
    next
      case 2
      show ?case by (rule R(1))
    next
      case (3 s w')
      let ?s = "?a\<lparr> ag_next_seq := s \<rparr>"
      have os: "turn_open R p0 km (?s, w')" using frame 3 by (intro opn) simp_all
      note ds = turn_open_done [OF os]
      show ?case
      proof (cases "te_status x")
        case (TS_Unknown reason)
        then have "has_unknown ?s" using \<open>ag_executions a' = ?execs\<close> by simp
        with TS_Unknown ds show ?thesis by (simp add: turn_end_def del: turn_done.simps)
      qed (use os end_fail [OF ds] x(2) in \<open>simp_all del: turn_open.simps\<close>)
    next
      case (4 w')
      show ?case by (rule turn_end_cancel [OF turn_open_done [OF oa [OF 4(1)]] 4(2)])
    next
      case (5 e w')
      show ?case by (rule end_fail [OF turn_open_done [OF oa [OF 5]]]) simp
    qed (rule fs)
    then show ?case using end_fail [OF turn_open_done [OF opn [OF frame(1-3) R(1)]]] by simp
  qed
  show ?thesis
    using rejected accepted x(2)
    unfolding accept_execution_def
    by (cases "te_result_disposition x"; cases "te_status x") (simp_all del: turn_open.simps)
qed

text \<open>An id issued for a record that the turn ends with.\<close>

lemma done_issue:
  assumes "turn_open R p0 km (a, w)" "issue_execution (wd_next_id w) = Some (eid, u)" "xr_execution_id r = eid"
    and "ag_executions a' = ag_executions a @ [r]" "ag_pending_unknown a' = p0"
  shows "turn_done R p0 km (a', w\<lparr> wd_next_id := u \<rparr>)"
proof -
  let ?t = "map (Pair True) (execution_ids a)"
  from assms(1) obtain k where k: "k \<le> km" "R k ?t w" "length (ag_executions a) \<le> MAX_TOOL_CALLS_PER_TURN"
    by auto
  show ?thesis
    using issue_step [OF k(2) assms(2)] k(1,3) assms(3-5)
    by (intro doneI [of k "?t @ [(False, eid)]"]) (simp_all add: list_all_iff o_def)
qed

lemma dispatch_one_walk:
  assumes opn: "turn_open R p0 km (a, w)"
  shows "wp N (dispatch_one env now_ms call messages) (\<lambda>_. turn_open R p0 km) (turn_end R p0 km) (a, w)"
proof -
  from opn obtain k where k: "k \<le> km" "R k (map (Pair True) (execution_ids a)) w"
    and a: "ag_pending_unknown a = p0" "tb_calls_this_turn (ag_tools a) = length (ag_executions a)"
      "length (ag_executions a) \<le> MAX_TOOL_CALLS_PER_TURN" by auto
  have len: "length (ag_executions a) < MAX_EXECUTIONS_PER_AGENT" using a(3) turn_room by simp
  let ?rest = "\<lambda>eid. turn_bind (dispatch_step env now_ms call eid) (\<lambda>r.
     case r of
       Ok x \<Rightarrow> accept_execution (env_emit env) now_ms x messages
     | Err error \<Rightarrow>
         (let error = tool_error_normalized error in
          turn_bind (turn_agent (push_execution
            \<lparr> xr_execution_id = eid, xr_tool = tc_name call,
              xr_status = TS_Failed (bound_reason (tool_error_display error)),
              xr_result_disposition = RD_Accepted \<rparr>)) (\<lambda>_. turn_fail (AE_Tool error))))"
  have step: "wp N (?rest eid) (\<lambda>_. turn_open R p0 km) (turn_end R p0 km) (a, w\<lparr> wd_next_id := u \<rparr>)"
    if i: "issue_execution (wd_next_id w) = Some (eid, u)" for eid u
  proof -
    let ?w = "w\<lparr> wd_next_id := u \<rparr>"
    have wps: "wp N (dispatch_step env now_ms call eid) Q E (a, ?w) = Q r (a\<lparr> ag_tools := bus' \<rparr>, w')"
      if "dispatch_narrowed (env_execute env) call (session_auth_base (wd_session ?w)) eid now_ms
            (ag_allowed_tools a) (ag_tools a) ?w = (r, bus', w')" for Q E r bus' w'
      using that by (simp add: wp_def dispatch_step_def)
    show ?thesis
      using dispatch_narrowed_cases [of "env_execute env" call "session_auth_base (wd_session ?w)" eid now_ms
          "ag_allowed_tools a" "ag_tools a" ?w]
    proof cases
      case (refused cause bus')
      have "turn_done R p0 km (attribute_execution (refused eid call cause) (a\<lparr> ag_tools := bus' \<rparr>), ?w)"
        by (rule done_issue [OF opn i, where r = "\<lparr> xr_execution_id = eid, xr_tool = tc_name call,
            xr_status = TS_Refused cause, xr_result_disposition = RD_Accepted \<rparr>"])
           (simp_all add: refused_def a)
      from end_fail [OF this] wps [OF refused(1)] show ?thesis
        by (simp add: accept_execution_def refused_def)
    next
      case (contact outcome w' bus')
      from contact_step [OF k(2) i contact(1)]
      have R: "R k (map (Pair True) (execution_ids a @ [eid])) w'"
        and valid: "\<forall>s. outcome = Ok s \<longrightarrow> N \<or> valid_utf8 (su_summary s)" by simp_all
      let ?a = "a\<lparr> ag_tools := bus' \<rparr>"
      have b: "ag_pending_unknown ?a = p0" "tb_calls_this_turn (ag_tools ?a) = Suc (length (ag_executions ?a))"
        "length (ag_executions ?a) < MAX_TOOL_CALLS_PER_TURN" using a contact by simp_all
      show ?thesis
      proof (cases "outcome_execution eid call outcome")
        case (Ok x)
        note facts = outcome_execution_facts [OF Ok]
        have "wp N (accept_execution (env_emit env) now_ms x messages) (\<lambda>_. turn_open R p0 km)
            (turn_end R p0 km) (?a, w')"
          using R facts b contact(5) outcome_summary_utf8 [OF Ok] valid
          by (intro accept_contact [OF _ _ _ _ k(1)]) auto
        with wps [OF contact(2)] Ok show ?thesis by simp
      next
        case (Err e)
        let ?r = "\<lparr> xr_execution_id = eid, xr_tool = tc_name call,
            xr_status = TS_Failed (bound_reason (tool_error_display (tool_error_normalized e))),
            xr_result_disposition = RD_Accepted \<rparr>"
        have "turn_done R p0 km (push_execution ?r ?a, w')"
          using R k(1) b by (intro doneI [OF R]) (auto simp: list_all_iff o_def dest: in_set_butlastD)
        from end_fail [OF this] wps [OF contact(2)] Err show ?thesis by (simp add: Let_def)
      qed
    qed
  qed
  show ?thesis
  proof (cases "is_cancelled (wd_session w)")
    case True
    then show ?thesis using turn_end_cancel [OF turn_open_done [OF opn]] by (simp add: dispatch_one_def)
  next
    case False
    then show ?thesis using step room [OF k(2)] a(3) len
      by (auto simp add: dispatch_one_def simp del: turn_open.simps wp_bind [of _ "dispatch_step env now_ms call _"]
          split: option.split)
  qed
qed

lemma call_loop_walk:
  "turn_open R p0 km st \<Longrightarrow>
   wp N (call_loop env now_ms calls messages) (\<lambda>_. turn_open R p0 km) (turn_end R p0 km) st"
proof (induction calls arbitrary: messages st)
  case (Cons call calls)
  obtain a w where st: "st = (a, w)" by fastforce
  show ?case
    unfolding call_loop.simps wp_bind st
    by (rule wp_mono [OF dispatch_one_walk [OF Cons.prems [unfolded st]]]) (rule Cons.IH)
qed simp

lemma refuse_batch_walk:
  assumes opn: "turn_open R p0 km (a, w)"
  shows "wp N (refuse_batch denial) (\<lambda>_. turn_open R p0 km) (turn_end R p0 km) (a, w)"
proof (cases denial)
  case None
  then show ?thesis using opn by (simp add: refuse_batch_def del: turn_open.simps)
next
  case (Some d)
  obtain tool cause where d: "d = (tool, cause)" by fastforce
  from opn obtain k where k: "R k (map (Pair True) (execution_ids a)) w" "ag_pending_unknown a = p0"
    "length (ag_executions a) \<le> MAX_TOOL_CALLS_PER_TURN" by auto
  have "turn_end R p0 km (EO_Failed (AE_Tool cause)) (attribute_execution (prompt_refusal eid tool cause) a,
      w\<lparr> wd_next_id := u, wd_session := session_finish True (wd_session w) \<rparr>)"
    if i: "issue_execution (wd_next_id w) = Some (eid, u)" for eid u
  proof -
    have "turn_done R p0 km (attribute_execution (prompt_refusal eid tool cause) a, w\<lparr> wd_next_id := u \<rparr>)"
      by (rule done_issue [OF opn i, where r = "\<lparr> xr_execution_id = eid, xr_tool = tool,
          xr_status = TS_Refused cause, xr_result_disposition = RD_Accepted \<rparr>"])
         (simp_all add: prompt_refusal_def k)
    from end_fail [OF this] show ?thesis by simp
  qed
  moreover have "length (ag_executions a) < MAX_EXECUTIONS_PER_AGENT" using k(3) turn_room by simp
  ultimately show ?thesis using room [OF k(1)] k(3) Some d
    by (auto simp: refuse_batch_def split: option.split)
qed

lemma precheck_walk:
  assumes "turn_open R p0 km (a, w)"
  shows "wp N (precheck_step calls base) (\<lambda>_. turn_open R p0 km) (turn_end R p0 km) (a, w)"
  using assms end_fail [OF turn_open_done [OF assms]]
  by (simp add: precheck_step_def del: turn_open.simps split: result.split)

lemma dispatch_batch_walk:
  assumes "turn_open R p0 km (a, w)"
  shows "wp N (dispatch_batch env now_ms turn messages) (\<lambda>_. turn_open R p0 km) (turn_end R p0 km) (a, w)"
proof -
  have gate: "wp N (turn_with (\<lambda>a w. refuse_batch (g a))) (\<lambda>_. turn_open R p0 km) (turn_end R p0 km) st"
    if "turn_open R p0 km st" for st g
    using that by (cases st) (simp only: wp_with refuse_batch_walk)
  have pre: "wp N (precheck_step calls base) (\<lambda>_. turn_open R p0 km) (turn_end R p0 km) st"
    if "turn_open R p0 km st" for st calls base
    using that by (cases st) (simp only: precheck_walk)
  show ?thesis
    unfolding dispatch_batch_def Let_def wp_with wp_bind [of _ "turn_with _"] wp_bind [of _ "precheck_step _ _"]
    by (rule wp_mono [OF refuse_batch_walk [OF assms]], rule wp_mono [OF gate], assumption,
        rule wp_mono [OF pre], assumption, rule call_loop_walk)
qed

text \<open>A provider call is counted before anything else happens in its round.\<close>

lemma provider_walk:
  assumes opn: "turn_open R p0 km (a, w)"
  shows "wp N (provider_step env req) (\<lambda>turn st. turn_open R p0 (Suc km) st \<and> (N \<or> valid_utf8 (pt_text turn)))
           (turn_end R p0 (Suc km)) (a, w)"
proof -
  obtain r w' where c: "env_complete env req w = (r, w')" by fastforce
  from opn obtain k where k: "k \<le> km" "R k (map (Pair True) (execution_ids a)) w" and len:
    "length (ag_executions a) \<le> MAX_TOOL_CALLS_PER_TURN" "ag_pending_unknown a = p0" by auto
  note cs = complete_step [OF k(2) c]
  then have opn': "turn_open R p0 (Suc km) (a, w')" using opn k(1) by auto
  note dn = turn_open_done [OF opn']
  show ?thesis
  proof (cases r)
    case (Ok turn)
    with cs c opn' show ?thesis by (simp add: wp_def provider_step_def turn_return_def del: turn_open.simps)
  next
    case (Err e)
    show ?thesis
    proof (cases "\<exists>provider reason. e = PE_Unknown provider reason")
      case True
      then obtain provider reason where e: "e = PE_Unknown provider reason" by blast
      let ?r = "\<lambda>eid. \<lparr> xr_execution_id = eid, xr_tool = bound_reason provider,
          xr_status = TS_Unknown (bound_reason reason), xr_result_disposition = RD_Accepted \<rparr>"
      have "turn_end R p0 (Suc km) (EO_Unknown s (Suc (length (ag_executions a))))
          (push_execution (?r eid) a, w'\<lparr> wd_next_id := u \<rparr>)"
        if i: "issue_execution (wd_next_id w') = Some (eid, u)" for eid u s
      proof -
        have "turn_done R p0 (Suc km) (push_execution (?r eid) a, w'\<lparr> wd_next_id := u \<rparr>)"
          by (rule done_issue [OF opn' i, of "?r eid"]) (simp_all add: len)
        then show ?thesis by (simp add: turn_end_def del: turn_done.simps)
      qed
      moreover have "wp N (provider_step env req) Q E (a, w) = wp N (provider_unknown provider reason) Q E (a, w')" for Q E
        using c Err e by (simp add: wp_def provider_step_def)
      moreover have "length (ag_executions a) < MAX_EXECUTIONS_PER_AGENT" using len turn_room by simp
      moreover have "N \<or> issue_execution (wd_next_id w') \<noteq> None" using room [of "Suc k" _ w'] cs len by fastforce
      ultimately show ?thesis by (auto simp: provider_unknown_def Let_def split: option.split)
    next
      case False
      then have "provider_step env req (a, w) = turn_fail (provider_error_into e) (a, w')"
        using c Err by (cases e) (simp_all add: provider_step_def)
      then show ?thesis using end_fail [OF dn] by (simp add: wp_def turn_fail_def)
    qed
  qed
qed

lemma charge_walk:
  assumes "turn_open R p0 km (a, w)"
  shows "wp N (charge_round req turn) (\<lambda>_. turn_open R p0 km) (turn_end R p0 km) (a, w)"
proof -
  have o: "turn_open R p0 km (a\<lparr> ag_turn_cost := c \<rparr>, w)" for c using assms by simp
  from o turn_open_done [OF o] show ?thesis
    by (simp add: wp_def charge_round_def turn_return_def turn_stop_def turn_end_def Let_def case_prod_beta
        del: turn_open.simps turn_done.simps split: option.split)
qed

lemma text_walk:
  assumes opn: "turn_open R p0 km (a, w)" and valid: "N \<or> valid_utf8 (pt_text turn)"
  shows "wp N (deliver (emit_text (env_emit env) turn)) (\<lambda>_. turn_open R p0 km) (turn_end R p0 km) (a, w)"
proof -
  let ?t = "map (Pair True) (execution_ids a)"
  from opn obtain k where k: "k \<le> km" "R k ?t w" by auto
  have o: "turn_open R p0 km (a\<lparr> ag_next_seq := s \<rparr>, w')" if "R k ?t w'" for s w'
    using opn that k(1) by auto
  then have oa: "turn_open R p0 km (a, w')" if "R k ?t w'" for w'
    using o [OF that, of "ag_next_seq a"] by simp
  obtain fs where fs: "emit_text (env_emit env) turn (a, w) = Some (emit_batch (env_emit env) fs (a, w))
      \<or> emit_text (env_emit env) turn (a, w) = Some (Ok (\<not> is_cancelled (wd_session w)), a, w)
      \<or> emit_text (env_emit env) turn (a, w) = None \<and> N"
    using emit_text_forms [OF valid, of "env_emit env" a w] by (rule exE)
  show ?thesis
  proof (rule wp_deliver [where P = "R k ?t" and emit = "env_emit env" and fs = fs], goal_cases)
    case (3 s w')
    then show ?case by (rule o)
  next
    case (4 w')
    show ?case by (rule turn_end_cancel [OF turn_open_done [OF oa [OF 4(1)]] 4(2)])
  next
    case (5 e w')
    show ?case by (rule end_fail [OF turn_open_done [OF oa [OF 5]]]) simp
  qed (rule emit_keeps_R k(2) fs)+
qed

lemma cancel_walk:
  assumes "turn_open R p0 km (a, w)"
    and "\<not> is_cancelled (wd_session w) \<Longrightarrow> wp N m Q (turn_end R p0 km) (a, w)"
  shows "wp N (turn_bind check_cancelled (\<lambda>_. m)) Q (turn_end R p0 km) (a, w)"
  using assms(2) turn_end_cancel [OF turn_open_done [OF assms(1)]] by simp

lemma run_round_walk:
  assumes opn: "turn_open R p0 km (a, w)"
  shows "wp N (run_round env now_ms request messages) (\<lambda>_. turn_open R p0 (Suc km)) (turn_end R p0 (Suc km)) (a, w)"
proof -
  let ?Q = "\<lambda>_. turn_open R p0 (Suc km)" and ?E = "turn_end R p0 (Suc km)"
  have fin: "wp N (if pt_tool_calls turn = []
      then turn_bind check_cancelled (\<lambda>_. finish_turn (pt_text turn))
      else dispatch_batch env now_ms turn messages) ?Q ?E st" if "turn_open R p0 (Suc km) st" for st turn
  proof (cases st)
    case (Pair a' w')
    note o = that [unfolded Pair]
    have "wp N (turn_bind check_cancelled (\<lambda>_. finish_turn (pt_text turn))) ?Q ?E (a', w')"
      using agrees_completed done_finish [OF turn_open_done [OF o]]
      by (intro cancel_walk [OF o]) (simp add: turn_end_def del: turn_done.simps outcome_agrees.simps)
    with dispatch_batch_walk [OF o] show ?thesis unfolding Pair by (simp only: split: if_split) blast
  qed
  have charge: "wp N (charge_round (request messages) turn) ?Q ?E st" if "turn_open R p0 (Suc km) st" for st turn
    using that by (cases st) (simp only: charge_walk)
  have texts: "wp N (deliver (emit_text (env_emit env) turn)) ?Q ?E st"
    if "turn_open R p0 (Suc km) st" "N \<or> valid_utf8 (pt_text turn)" for st turn
    using that by (cases st) (simp only: text_walk)
  show ?thesis
    unfolding run_round_def Let_def wp_bind [of _ "provider_step _ _"] wp_bind [of _ "charge_round _ _"]
      wp_bind [of _ "deliver _"]
    by (rule wp_mono [OF provider_walk [OF opn]], erule conjE, rule wp_mono [OF charge], assumption,
        rule wp_mono [OF texts], assumption, assumption, rule fin)
qed

lemma round_loop_walk:
  "turn_open R p0 km st \<Longrightarrow>
   wp N (round_loop env now_ms request n messages) (\<lambda>_ _. False) (turn_end R p0 (km + n)) st"
proof (induction n arbitrary: km messages st)
  case 0
  obtain a w where st: "st = (a, w)" by fastforce
  note o = 0 [unfolded st]
  have "wp N (turn_with (\<lambda>a w. turn_fail (AE_RoundLimitExceeded (cfg_max_rounds (ag_config a)))))
      (\<lambda>_ _. False) (turn_end R p0 km) (a, w)"
    using end_fail [OF turn_open_done [OF o]] by simp
  then have "wp N (round_loop env now_ms request 0 messages) (\<lambda>_ _. False) (turn_end R p0 km) (a, w)"
    unfolding round_loop.simps by (rule cancel_walk [OF o])
  then show ?case by (simp only: st add_0_right)
next
  case (Suc n)
  obtain a w where st: "st = (a, w)" by fastforce
  note o = Suc.prems [unfolded st]
  have o': "turn_open R p0 (km + Suc n) (a, w)" by (rule turn_open_mono [OF o]) simp
  have IH: "wp N (round_loop env now_ms request n ms) (\<lambda>_ _. False) (turn_end R p0 (km + Suc n)) st'"
    if "turn_open R p0 (Suc km) st'" for ms st'
    using Suc.IH [OF that] by simp
  have "wp N (turn_bind (run_round env now_ms request messages) (round_loop env now_ms request n))
      (\<lambda>_ _. False) (turn_end R p0 (km + Suc n)) (a, w)"
    unfolding wp_bind
    by (rule wp_mono [OF run_round_walk [OF o]]) (erule IH, erule turn_end_mono, simp)
  then show ?case unfolding round_loop.simps st by (rule cancel_walk [OF o'])
qed

end

text \<open>
  The two ways a turn can end: refused before it starts, with the records of the last turn and the
  pending list (possibly grown) in place, or run, with the unresolved records carried over.
\<close>

fun turn_result ::
  "(nat \<Rightarrow> trace \<Rightarrow> 'e world \<Rightarrow> bool) \<Rightarrow> 'e world agent \<Rightarrow> exec_outcome \<Rightarrow> 'e turn_state \<Rightarrow> bool" where
  "turn_result R a out (a', w') \<longleftrightarrow>
     (\<exists>e qs. out = EO_Failed e \<and> \<not> is_cost_fuse e \<and> ses_state (wd_session w') \<noteq> SS_Active
        \<and> ag_executions a' = ag_executions a \<and> R 0 [] w'
        \<and> carried (ag_pending_unknown a) qs (ag_pending_unknown a')
        \<and> set qs \<subseteq> set (filter (\<lambda>r. is_unknown (xr_status r)) (ag_executions a)))
     \<or> (\<exists>p. carried (ag_pending_unknown a) (filter (\<lambda>r. is_unknown (xr_status r)) (ag_executions a)) p
        \<and> turn_end R p (cfg_max_rounds (ag_config a)) out (a', w'))"

context turn_world
begin

lemma early_fail:
  assumes "R 0 [] w" "\<not> is_cost_fuse e" "ag_executions a' = ag_executions a"
    and "carried (ag_pending_unknown a) qs (ag_pending_unknown a')"
    and "set qs \<subseteq> set (filter (\<lambda>r. is_unknown (xr_status r)) (ag_executions a))"
  shows "turn_result R a (EO_Failed e) (a', w\<lparr> wd_session := session_finish True (wd_session w) \<rparr>)"
  using assms finish_step by auto

lemma reset_open:
  "R 0 [] w \<Longrightarrow> turn_open R (ag_pending_unknown a) 0 (reset_turn a, w)"
  by (simp add: reset_turn_def begin_turn_def)

lemma assemble_walk:
  assumes "R 0 [] w"
    and "\<And>assembled a'. ag_executions a' = ag_executions a \<Longrightarrow> ag_pending_unknown a' = ag_pending_unknown a
      \<Longrightarrow> ag_config a' = ag_config a \<Longrightarrow> Q assembled (a', w)"
  shows "wp N (assemble_step seed) Q (turn_result R a) (a, w)"
proof -
  have "carried ps [] ps" for ps by (simp add: carried_def)
  then have "turn_result R a (EO_Failed (AE_Context e)) (a', w\<lparr> wd_session := session_finish True (wd_session w) \<rparr>)"
    if "ag_executions a' = ag_executions a" "ag_pending_unknown a' = ag_pending_unknown a" for e a'
    using that early_fail [OF assms(1), of "AE_Context e" a' a "[]"] by simp
  then show ?thesis using assms(2)
    by (simp add: wp_def assemble_step_def turn_return_def turn_fail_def Let_def del: turn_result.simps
        split: result.split prod.split)
qed

lemma turn_body_walk:
  assumes R: "R 0 [] w"
  shows "wp N (turn_body env model prompt seed now_ms) (\<lambda>_ _. False) (turn_result R a) (a, w)"
proof -
  let ?u = "\<lambda>a. filter (\<lambda>r. is_unknown (xr_status r)) (ag_executions a)"
  have rounds: "wp N (round_loop env now_ms request (cfg_max_rounds (ag_config a)) messages) (\<lambda>_ _. False)
      (turn_result R a) (reset_turn a', w)"
    if "carried (ag_pending_unknown a) (?u a) (ag_pending_unknown a')" for a' request messages
    using that by (intro wp_mono [OF round_loop_walk [OF reset_open [OF R]]]) (auto simp: split_paired_all)
  have carry: "wp N (carry_loop (?u a')) (\<lambda>_ st. \<exists>p. st = (a'\<lparr> ag_pending_unknown := p \<rparr>, w)
      \<and> carried (ag_pending_unknown a) (?u a) p) (turn_result R a) (a', w)"
    if "ag_executions a' = ag_executions a" "ag_pending_unknown a' = ag_pending_unknown a" for a'
    using that by (intro wp_carry early_fail [OF R]) auto
  have "wp N timeout_gate (\<lambda>_ st. st = (a, w)) (turn_result R a) (a, w)"
    using early_fail [OF R, of _ a a "[]"] by (simp add: timeout_gate_def Let_def carried_def del: turn_result.simps)
  then show ?thesis
    unfolding turn_body_def wp_bind
  proof (rule wp_mono, goal_cases)
    case (1 x st)
    show ?case unfolding 1
    proof (rule assemble_walk [OF R], goal_cases)
      case (1 assembled a')
      show ?case unfolding wp_with
      proof (rule wp_mono [OF carry [OF 1(1,2)]], goal_cases)
        case (1 y st)
        then obtain p where p: "st = (a'\<lparr> ag_pending_unknown := p \<rparr>, w)"
          "carried (ag_pending_unknown a) (?u a) p" by blast
        with rounds [of "a'\<lparr> ag_pending_unknown := p \<rparr>"] \<open>ag_config a' = ag_config a\<close>
        show ?case by (simp add: reset_turn_def del: turn_result.simps)
      qed
    qed
  qed
qed

lemma run_turn_walk:
  assumes "R 0 [] w" "ses_state (wd_session w) = SS_Active"
  shows "case run_turn env model prompt seed now_ms (a, w) of
           None \<Rightarrow> N | Some (out, st) \<Rightarrow> turn_result R a out st"
  using turn_body_walk [OF assms(1), of model prompt seed now_ms a] assms(2)
  by (auto simp add: run_turn_def is_cancelled_def wp_def simp del: turn_result.simps
      split: option.splits prod.splits result.splits)

end

end
