(* ===== verification/Agent_Theorems.thy ===== *)
theory Agent_Theorems
  imports Agent_Walk
begin

text \<open>
  The guarantees of a turn (\<open>Agent::run_turn\<close>) and of reconciliation (\<open>Agent::reconcile_unknown\<close>), as
  instances of the walk: for any environment, for environments that keep a log, for environments
  that only move the id counter forward, and for environments whose calls return text.
\<close>

section \<open>Environments\<close>

text \<open>The environment of the crate's own tests: scripted provider, recording executor, vector sink.\<close>

record script_env =
  sv_provider :: fake_provider
  sv_executor :: recording_executor
  sv_sink :: vec_sink

definition scripted_env :: "script_env turn_env" where
  "scripted_env =
     \<lparr> env_complete = (\<lambda>req w. case fake_complete req (sv_provider (wd_env w)) of
         (r, p) \<Rightarrow> (r, w\<lparr> wd_env := (wd_env w)\<lparr> sv_provider := p \<rparr> \<rparr>)),
       env_execute = (\<lambda>tool args ctx w. case recording_execute tool args ctx (sv_executor (wd_env w)) of
         (r, x) \<Rightarrow> (r, w\<lparr> wd_env := (wd_env w)\<lparr> sv_executor := x \<rparr> \<rparr>)),
       env_emit = (\<lambda>w chunk. case vec_sink_emit (sv_sink (wd_env w)) chunk of
         (r, k) \<Rightarrow> (r, w\<lparr> wd_env := (wd_env w)\<lparr> sv_sink := k \<rparr> \<rparr>)) \<rparr>"

text \<open>The executor keeps a log of the ids it is given; nothing else writes to it.\<close>

definition env_logs :: "'e turn_env \<Rightarrow> ('e world \<Rightarrow> execution_id list) \<Rightarrow> bool" where
  "env_logs env contacts \<longleftrightarrow>
     (\<forall>req w. contacts (snd (env_complete env req w)) = contacts w)
     \<and> (\<forall>chunk w. contacts (snd (env_emit env w chunk)) = contacts w)
     \<and> (\<forall>tool args ctx w. contacts (snd (env_execute env tool args ctx w)) = contacts w @ [ec_execution_id ctx])
     \<and> (\<forall>s w. contacts (w\<lparr> wd_session := s \<rparr>) = contacts w) \<and> (\<forall>u w. contacts (w\<lparr> wd_next_id := u \<rparr>) = contacts w)"

text \<open>The id counter is never moved back.\<close>

definition env_ids_grow :: "'e turn_env \<Rightarrow> bool" where
  "env_ids_grow env \<longleftrightarrow>
     (\<forall>req w. wd_next_id w \<le> wd_next_id (snd (env_complete env req w)))
     \<and> (\<forall>chunk w. wd_next_id w \<le> wd_next_id (snd (env_emit env w chunk)))
     \<and> (\<forall>tool args ctx w. wd_next_id w \<le> wd_next_id (snd (env_execute env tool args ctx w)))"

text \<open>
  Calls return UTF-8 text, as a \<open>String\<close> does, issue no ids of their own, and \<open>calls\<close> counts the
  provider calls.
\<close>

definition env_returns :: "'e turn_env \<Rightarrow> ('e world \<Rightarrow> nat) \<Rightarrow> bool" where
  "env_returns env calls \<longleftrightarrow>
     (\<forall>req w r w'. env_complete env req w = (r, w') \<longrightarrow>
        wd_next_id w' = wd_next_id w \<and> calls w' = Suc (calls w) \<and> (\<forall>turn. r = Ok turn \<longrightarrow> valid_utf8 (pt_text turn)))
     \<and> (\<forall>chunk w r w'. env_emit env w chunk = (r, w') \<longrightarrow> wd_next_id w' = wd_next_id w \<and> calls w' = calls w)
     \<and> (\<forall>tool args ctx w r w'. env_execute env tool args ctx w = (r, w') \<longrightarrow>
        wd_next_id w' = wd_next_id w \<and> calls w' = calls w \<and> (\<forall>s. r = Ok s \<longrightarrow> valid_utf8 (su_summary s)))
     \<and> (\<forall>s w. calls (w\<lparr> wd_session := s \<rparr>) = calls w) \<and> (\<forall>u w. calls (w\<lparr> wd_next_id := u \<rparr>) = calls w)"

section \<open>Instances of the walk\<close>

interpretation unconstrained: turn_world env True "\<lambda>k t w. True" for env
  by unfold_locales auto

lemma logging_walk:
  assumes "env_logs env contacts"
  shows "turn_world env True (\<lambda>k t w. contacts w = contacts0 @ map snd (filter fst t))"
proof (unfold_locales, goal_cases)
  case (1 k t w req r w')
  then show ?case using assms by (metis env_logs_def snd_conv)
next
  case (2 k t w chunk e w')
  then show ?case using assms by (metis env_logs_def snd_conv)
next
  case (3 k t w eid u tool args now_ms x w')
  have "contacts w' = contacts (w\<lparr> wd_next_id := u \<rparr>) @ [eid]"
    using assms 3(3) unfolding env_logs_def by (metis execution_context.select_convs(1) snd_conv)
  with 3(1) assms show ?case by (simp add: env_logs_def)
next
  case (4 k t w eid u)
  then show ?case using assms by (simp add: env_logs_def)
next
  case (6 k t w failed)
  then show ?case using assms by (simp add: env_logs_def)
qed simp

lemma scripted_logs: "env_logs scripted_env (\<lambda>w. map fst (rx_calls (sv_executor (wd_env w))))"
  by (auto simp: env_logs_def scripted_env_def recording_execute_def Let_def split: prod.splits list.splits)

interpretation scripted_turn: turn_world scripted_env True
  "\<lambda>k t w. map fst (rx_calls (sv_executor (wd_env w))) = ids0 @ map snd (filter fst t)" for ids0
  by (rule logging_walk [OF scripted_logs])

lemma issue_execution_value:
  "issue_execution c = Some (eid, u) \<longleftrightarrow> unat c + 1 < 2 ^ 64 \<and> eid = ExecutionId (c + 1) \<and> u = c + 1"
  by (auto simp: issue_execution_def issuer_next_def checked_add_def unat_word_ariths split: if_splits option.splits)

definition ids_between :: "u64 \<Rightarrow> u64 \<Rightarrow> execution_id list \<Rightarrow> bool" where
  "ids_between lo hi ids \<longleftrightarrow>
     lo \<le> hi \<and> sorted_wrt (<) (map execution_value ids) \<and> (\<forall>v \<in> set ids. lo < execution_value v \<and> execution_value v \<le> hi)"

lemma ids_between_mono: "ids_between lo hi ids \<Longrightarrow> hi \<le> hi' \<Longrightarrow> ids_between lo hi' ids"
  by (auto simp: ids_between_def)

lemma ids_between_snoc:
  assumes "ids_between lo c ids" "issue_execution c = Some (eid, u)"
  shows "ids_between lo u (ids @ [eid])"
proof -
  from assms(2) have u: "eid = ExecutionId u" "u = c + 1" "c < u"
    by (simp_all add: issue_execution_value word_less_nat_alt unat_word_ariths)
  with assms(1) show ?thesis by (force simp: ids_between_def sorted_wrt_append)
qed

lemma ids_between_distinct: "ids_between lo hi ids \<Longrightarrow> distinct ids"
  unfolding ids_between_def by (metis distinct_map strict_sorted_iff)

lemma env_ids_growD:
  assumes "env_ids_grow env"
  shows "env_complete env req w = (r, w') \<Longrightarrow> wd_next_id w \<le> wd_next_id w'"
    and "env_emit env w chunk = (e, w') \<Longrightarrow> wd_next_id w \<le> wd_next_id w'"
    and "env_execute env tool args ctx w = (x, w') \<Longrightarrow> wd_next_id w \<le> wd_next_id w'"
  using assms by (metis env_ids_grow_def snd_conv)+

lemma growing_walk:
  assumes "env_ids_grow env"
  shows "turn_world env True (\<lambda>k t w. ids_between lo (wd_next_id w) (map snd t))"
proof (unfold_locales, goal_cases)
  case (1 k t w req r w')
  then show ?case using env_ids_growD(1) [OF assms 1(2)] ids_between_mono by simp
next
  case (2 k t w chunk e w')
  then show ?case using env_ids_growD(2) [OF assms 2(2)] ids_between_mono by blast
next
  case (3 k t w eid u tool args now_ms x w')
  from env_ids_growD(3) [OF assms 3(3)] have "u \<le> wd_next_id w'" by simp
  with ids_between_snoc [OF 3(1,2)] ids_between_mono show ?case by simp
next
  case (4 k t w eid u)
  with ids_between_snoc [OF 4] show ?case by simp
qed simp_all

lemma env_returnsD:
  assumes "env_returns env calls"
  shows "env_complete env req w = (r, w') \<Longrightarrow> wd_next_id w' = wd_next_id w \<and> calls w' = Suc (calls w)
      \<and> (\<forall>turn. r = Ok turn \<longrightarrow> valid_utf8 (pt_text turn))"
    and "env_emit env w chunk = (e, w') \<Longrightarrow> wd_next_id w' = wd_next_id w \<and> calls w' = calls w"
    and "env_execute env tool args ctx w = (x, w') \<Longrightarrow> wd_next_id w' = wd_next_id w \<and> calls w' = calls w
      \<and> (\<forall>s. x = Ok s \<longrightarrow> valid_utf8 (su_summary s))"
    and "calls (w\<lparr> wd_session := s \<rparr>) = calls w" "calls (w\<lparr> wd_next_id := u \<rparr>) = calls w"
proof -
  note d = assms [unfolded env_returns_def]
  show "env_complete env req w = (r, w') \<Longrightarrow> wd_next_id w' = wd_next_id w \<and> calls w' = Suc (calls w)
      \<and> (\<forall>turn. r = Ok turn \<longrightarrow> valid_utf8 (pt_text turn))" by (rule d [THEN conjunct1, rule_format])
  show "env_emit env w chunk = (e, w') \<Longrightarrow> wd_next_id w' = wd_next_id w \<and> calls w' = calls w"
    by (rule d [THEN conjunct2, THEN conjunct1, rule_format])
  show "env_execute env tool args ctx w = (x, w') \<Longrightarrow> wd_next_id w' = wd_next_id w \<and> calls w' = calls w
      \<and> (\<forall>s. x = Ok s \<longrightarrow> valid_utf8 (su_summary s))"
    by (rule d [THEN conjunct2, THEN conjunct2, THEN conjunct1, rule_format])
qed (use assms in \<open>simp_all add: env_returns_def\<close>)

lemma returning_walk:
  assumes "env_returns env calls" "unat c0 + Suc MAX_TOOL_CALLS_PER_TURN < 2 ^ 64"
  shows "turn_world env False (\<lambda>k t w. unat (wd_next_id w) = unat c0 + length t \<and> calls w = n0 + k)"
proof (unfold_locales, goal_cases)
  case (1 k t w req r w')
  with env_returnsD(1) [OF assms(1) 1(2)] show ?case by simp
next
  case (2 k t w chunk e w')
  with env_returnsD(2) [OF assms(1) 2(2)] show ?case by simp
next
  case (3 k t w eid u tool args now_ms x w')
  with env_returnsD(3) [OF assms(1) 3(3)] show ?case
    by (simp add: env_returnsD(5) [OF assms(1)] issue_execution_value unat_word_ariths)
next
  case (4 k t w eid u)
  then show ?case by (simp add: env_returnsD(5) [OF assms(1)] issue_execution_value unat_word_ariths)
next
  case (5 k t w)
  with assms(2) show ?case by (simp add: issue_execution_def issuer_next_def checked_add_def)
next
  case (6 k t w failed)
  then show ?case by (simp add: env_returnsD(4) [OF assms(1)])
qed

section \<open>Reading a result\<close>

lemma run_turn_inactive:
  "ses_state (wd_session w) \<noteq> SS_Active \<Longrightarrow>
   run_turn env model prompt seed now_ms (a, w) =
     Some (if is_cancelled (wd_session w) then EO_Canceled 0 0
           else EO_Failed (AE_Session (SE_AlreadyTerminated (ses_state (wd_session w)))), a, w)"
  by (simp add: run_turn_def)

text \<open>The result of a turn on an active session, from any instance of the walk.\<close>

lemma run_turn_result:
  assumes "turn_world env N R" "R 0 [] w" "ses_state (wd_session w) = SS_Active"
    and "run_turn env model prompt seed now_ms (a, w) = Some (out, a', w')"
  shows "turn_result R a out (a', w')"
  using turn_world.run_turn_walk [OF assms(1-3), where model = model and prompt = prompt and seed = seed and now_ms = now_ms and a = a] assms(4) by simp

definition unresolved :: "'w agent \<Rightarrow> execution_id set" where
  "unresolved a =
     record_ids (ag_pending_unknown a) \<union> record_ids (filter (\<lambda>r. is_unknown (xr_status r)) (ag_executions a))"

text \<open>What holds of the agent after any turn, by whether it was started.\<close>

lemma turn_result_cases:
  assumes "turn_result R a out (a', w')"
  obtains (early) e where "out = EO_Failed e" "\<not> is_cost_fuse e" "ses_state (wd_session w') \<noteq> SS_Active"
      "ag_executions a' = ag_executions a" "R 0 [] w'"
      "record_ids (ag_pending_unknown a) \<subseteq> record_ids (ag_pending_unknown a')"
      "record_ids (ag_pending_unknown a') \<subseteq> unresolved a"
      "pending_ok (ag_pending_unknown a) \<longrightarrow> pending_ok (ag_pending_unknown a')"
  | (run) k t where "k \<le> cfg_max_rounds (ag_config a)" "R k t w'" "map snd t = execution_ids a'"
      "list_all fst (butlast t)" "length t \<le> Suc MAX_TOOL_CALLS_PER_TURN"
      "length (filter fst t) \<le> MAX_TOOL_CALLS_PER_TURN" "outcome_agrees out (a', w')"
      "record_ids (ag_pending_unknown a') = unresolved a"
      "pending_ok (ag_pending_unknown a) \<longrightarrow> pending_ok (ag_pending_unknown a')"
proof -
  let ?u = "filter (\<lambda>r. is_unknown (xr_status r)) (ag_executions a)"
  from assms consider
    (e) e qs where "out = EO_Failed e" "\<not> is_cost_fuse e" "ses_state (wd_session w') \<noteq> SS_Active"
      "ag_executions a' = ag_executions a" "R 0 [] w'"
      "carried (ag_pending_unknown a) qs (ag_pending_unknown a')" "set qs \<subseteq> set ?u"
  | (r) p where "carried (ag_pending_unknown a) ?u p" "turn_end R p (cfg_max_rounds (ag_config a)) out (a', w')"
    by auto
  then show ?thesis
  proof cases
    case e
    from e(7) have "list_all (\<lambda>r. is_unknown (xr_status r)) qs" by (auto simp: list_all_iff)
    with e show ?thesis by (intro early) (auto simp: carried_def unresolved_def)
  next
    case r
    then have p: "ag_pending_unknown a' = p" by (simp add: turn_end_def)
    have "record_ids p = unresolved a" "pending_ok (ag_pending_unknown a) \<longrightarrow> pending_ok p"
      using r(1) by (simp_all add: carried_def unresolved_def list_all_iff)
    moreover from r(2) obtain k t where "k \<le> cfg_max_rounds (ag_config a)" "R k t w'"
      "map snd t = execution_ids a'" "list_all fst (butlast t)" "length t \<le> Suc MAX_TOOL_CALLS_PER_TURN"
      "length (filter fst t) \<le> MAX_TOOL_CALLS_PER_TURN" unfolding turn_end_def turn_done.simps by blast
    ultimately show ?thesis using run [of k t] p r(2) unfolding turn_end_def by blast
  qed
qed

definition agent_ids_ok :: "'e turn_state \<Rightarrow> bool" where
  "agent_ids_ok st \<longleftrightarrow>
     distinct (execution_ids (fst st)) \<and> pending_ok (ag_pending_unknown (fst st))
     \<and> (\<forall>eid \<in> set (execution_ids (fst st)) \<union> record_ids (ag_pending_unknown (fst st)).
          execution_value eid \<le> wd_next_id (snd st))"

section \<open>A worked environment\<close>

text \<open>
  A provider that always gives the same turn, an executor that always gives the same answer and a
  sink that accepts everything; the world counts the provider calls and keeps the contacted ids.
\<close>

record steady =
  sy_calls :: nat
  sy_contacts :: "execution_id list"

definition steady_env :: "provider_turn \<Rightarrow> tool_success \<Rightarrow> steady turn_env" where
  "steady_env turn success =
     \<lparr> env_complete = (\<lambda>req w. (Ok turn, w\<lparr> wd_env := (wd_env w)\<lparr> sy_calls := Suc (sy_calls (wd_env w)) \<rparr> \<rparr>)),
       env_execute = (\<lambda>tool args ctx w.
         (Ok success, w\<lparr> wd_env := (wd_env w)\<lparr> sy_contacts := sy_contacts (wd_env w) @ [ec_execution_id ctx] \<rparr> \<rparr>)),
       env_emit = (\<lambda>w chunk. (Ok (), w)) \<rparr>"

definition steady_world :: "steady world" where
  "steady_world = \<lparr> wd_session = session_new (AgentInstanceId 1) (RunId 2) (SessionId 3), wd_next_id = 9,
     wd_env = \<lparr> sy_calls = 0, sy_contacts = [] \<rparr> \<rparr>"

definition lost_record :: execution_record where
  "lost_record = \<lparr> xr_execution_id = ExecutionId 7, xr_tool = ''read'', xr_status = TS_Unknown ''lost'',
     xr_result_disposition = RD_Accepted \<rparr>"

definition steady_agent :: "steady world agent" where
  "steady_agent = (agent_new sample_bus agent_config_default)\<lparr> ag_executions := [lost_record] \<rparr>"

definition reading_turn :: provider_turn where
  "reading_turn = empty_turn\<lparr> pt_text := ''reading'', pt_tool_calls := [\<lparr> tcr_name = ''read'', tcr_arguments = ''{}'' \<rparr>] \<rparr>"

abbreviation reading_env :: "steady turn_env" where
  "reading_env \<equiv> steady_env reading_turn \<lparr> su_summary = ''done'', su_data = [] \<rparr>"

lemma reading_logs: "env_logs reading_env (\<lambda>w. sy_contacts (wd_env w))"
  by (simp add: env_logs_def steady_env_def)

lemma reading_grows: "env_ids_grow reading_env"
  by (simp add: env_ids_grow_def steady_env_def)

lemma reading_returns: "env_returns reading_env (\<lambda>w. sy_calls (wd_env w))"
  by (auto simp: env_returns_def steady_env_def reading_turn_def intro!: valid_utf8_ascii)

lemma steady_room: "unat (wd_next_id steady_world) + Suc MAX_TOOL_CALLS_PER_TURN < 2 ^ 64"
  by (simp add: steady_world_def MAX_TOOL_CALLS_PER_TURN_def)

lemma reading_run:
  obtains out a' w' where "run_turn reading_env ''m'' ''q'' [] 5 (steady_agent, steady_world) = Some (out, a', w')"
proof -
  have "ses_state (wd_session steady_world) = SS_Active" by (simp add: steady_world_def session_new_def)
  from turn_world.run_turn_walk [OF returning_walk [OF reading_returns steady_room, of 0] _ this,
      where model = "''m''" and prompt = "''q''" and seed = "[]" and now_ms = 5 and a = steady_agent] that
  show ?thesis by (auto simp: steady_world_def split: option.splits)
qed

lemma steady_ids_ok: "agent_ids_ok (steady_agent, steady_world)"
  by (simp add: agent_ids_ok_def steady_agent_def steady_world_def agent_new_def lost_record_def pending_ok_def)

section \<open>Properties of a turn\<close>

text \<open>
  C1. The outcome of a turn is honest, whatever the provider, the executor and the sink do: a
  cancelled session gives \<open>Canceled\<close> and a finished one \<open>AlreadyTerminated\<close>, both without touching
  anything; otherwise \<open>Completed\<close> leaves a session that is neither active nor cancelled, \<open>Failed\<close>
  one that is not active except for the cost fuse, which reports a cost above the configured limit,
  \<open>Canceled\<close> means the session is cancelled and no recorded effect is unknown, and \<open>Unknown\<close> that
  one is; the counts are the number of records.
\<close>

theorem run_turn_outcome_honest:
  "case run_turn env model prompt seed now_ms (a, w) of
     None \<Rightarrow> True
   | Some (out, a', w') \<Rightarrow>
       if is_cancelled (wd_session w) then out = EO_Canceled 0 0 \<and> a' = a \<and> w' = w
       else if ses_state (wd_session w) \<noteq> SS_Active
       then out = EO_Failed (AE_Session (SE_AlreadyTerminated (ses_state (wd_session w)))) \<and> a' = a \<and> w' = w
       else outcome_agrees out (a', w')"
proof (cases "ses_state (wd_session w) = SS_Active")
  case True
  have "outcome_agrees out (a', w')" if "run_turn env model prompt seed now_ms (a, w) = Some (out, a', w')" for out a' w'
    using run_turn_result [OF unconstrained.turn_world_axioms _ True that]
    by (rule turn_result_cases) simp_all
  with True show ?thesis by (auto simp: is_cancelled_def split: option.splits)
next
  case False
  then show ?thesis by (simp add: run_turn_inactive)
qed

text \<open>
  C3. A turn never loses an unresolved effect: every id that was unknown before, in the records of
  the last turn or in the pending list, is still so afterwards, however the turn ends, and the
  pending list stays duplicate-free, all unknown and within its cap.
\<close>

theorem turn_keeps_unresolved:
  assumes "run_turn env model prompt seed now_ms (a, w) = Some (out, a', w')"
  shows "unresolved a \<subseteq> unresolved a'
         \<and> (pending_ok (ag_pending_unknown a) \<longrightarrow> pending_ok (ag_pending_unknown a'))"
proof (cases "ses_state (wd_session w) = SS_Active")
  case True
  from run_turn_result [OF unconstrained.turn_world_axioms _ True assms]
  show ?thesis by (rule turn_result_cases) (auto simp: unresolved_def)
next
  case False
  then show ?thesis using assms by (simp add: run_turn_inactive)
qed

theorem turn_keeps_unresolved_witness:
  "\<exists>out a' w'. run_turn reading_env ''m'' ''q'' [] 5 (steady_agent, steady_world) = Some (out, a', w')
     \<and> ExecutionId 7 \<in> unresolved a' \<and> pending_ok (ag_pending_unknown a')"
proof -
  obtain out a' w' where r: "run_turn reading_env ''m'' ''q'' [] 5 (steady_agent, steady_world) = Some (out, a', w')"
    by (rule reading_run)
  have "ExecutionId 7 \<in> unresolved steady_agent" "pending_ok (ag_pending_unknown steady_agent)"
    by (simp_all add: steady_agent_def agent_new_def unresolved_def lost_record_def pending_ok_def)
  with turn_keeps_unresolved [OF r] r show ?thesis by blast
qed

text \<open>
  A turn leaves at most nine records, the eight calls that the bus admits and one refusal, for
  any configured number of rounds and calls. The cap of 32 records is never reached.
\<close>

theorem turn_records_bounded:
  assumes "run_turn env model prompt seed now_ms (a, w) = Some (out, a', w')"
    and "length (ag_executions a) \<le> Suc MAX_TOOL_CALLS_PER_TURN"
  shows "length (ag_executions a') \<le> Suc MAX_TOOL_CALLS_PER_TURN
         \<and> length (ag_executions a') < MAX_EXECUTIONS_PER_AGENT"
proof -
  have "length (ag_executions a') \<le> Suc MAX_TOOL_CALLS_PER_TURN"
  proof (cases "ses_state (wd_session w) = SS_Active")
    case True
    from run_turn_result [OF unconstrained.turn_world_axioms _ True assms(1)]
    show ?thesis
    proof (rule turn_result_cases)
      fix k t
      assume "map snd t = execution_ids a'" "length t \<le> Suc MAX_TOOL_CALLS_PER_TURN"
      then show ?thesis by (metis length_map)
    qed (use assms(2) in simp_all)
  next
    case False
    then show ?thesis using assms by (simp add: run_turn_inactive)
  qed
  then show ?thesis by (simp add: MAX_TOOL_CALLS_PER_TURN_def MAX_EXECUTIONS_PER_AGENT_def)
qed

theorem turn_records_bounded_witness:
  "\<exists>out a' w'. run_turn reading_env ''m'' ''q'' [] 5 (steady_agent, steady_world) = Some (out, a', w')
     \<and> length (ag_executions a') \<le> 9"
proof -
  obtain out a' w' where r: "run_turn reading_env ''m'' ''q'' [] 5 (steady_agent, steady_world) = Some (out, a', w')"
    by (rule reading_run)
  have "length (ag_executions steady_agent) \<le> Suc MAX_TOOL_CALLS_PER_TURN" by (simp add: steady_agent_def)
  from turn_records_bounded [OF r this] r show ?thesis by (simp add: MAX_TOOL_CALLS_PER_TURN_def)
qed

text \<open>
  C2. No effect is unattributed: with an executor that logs the ids it is contacted with, the ids a
  turn adds to the log are those of its records, in order, except possibly the last record (a
  refusal, or an uncertain provider call), and there are at most eight of them.
\<close>

theorem contacts_are_attributed:
  assumes "env_logs env contacts"
    and "run_turn env model prompt seed now_ms (a, w) = Some (out, a', w')"
  shows "\<exists>ids. contacts w' = contacts w @ ids \<and> length ids \<le> MAX_TOOL_CALLS_PER_TURN
           \<and> (ids = [] \<or> ids = execution_ids a' \<or> ids = butlast (execution_ids a'))"
proof (cases "ses_state (wd_session w) = SS_Active")
  case True
  from run_turn_result [OF logging_walk [OF assms(1)] _ True assms(2), of "contacts w"]
  show ?thesis
  proof (rule turn_result_cases)
    fix k t
    assume t: "contacts w' = contacts w @ map snd (filter fst t)" "map snd t = execution_ids a'"
      "list_all fst (butlast t)" "length (filter fst t) \<le> MAX_TOOL_CALLS_PER_TURN"
    have b: "filter fst (butlast t) = butlast t" using t(3) by (simp add: filter_id_conv list_all_iff)
    have "filter fst t = t \<or> filter fst t = butlast t"
    proof (cases t rule: rev_cases)
      case (snoc ys y)
      then show ?thesis using b by (cases "fst y") simp_all
    qed simp
    then have "map snd (filter fst t) = execution_ids a' \<or> map snd (filter fst t) = butlast (execution_ids a')"
      using t(2) by (metis map_butlast)
    with t(1,4) show ?thesis by auto
  qed simp_all
next
  case False
  then show ?thesis using assms(2) by (simp add: run_turn_inactive)
qed

theorem contacts_are_attributed_witness:
  "\<exists>out a' w'. run_turn reading_env ''m'' ''q'' [] 5 (steady_agent, steady_world) = Some (out, a', w')
     \<and> set (sy_contacts (wd_env w')) \<subseteq> set (execution_ids a') \<and> length (sy_contacts (wd_env w')) \<le> 8"
proof -
  obtain out a' w' where r: "run_turn reading_env ''m'' ''q'' [] 5 (steady_agent, steady_world) = Some (out, a', w')"
    by (rule reading_run)
  have "set (butlast (execution_ids a')) \<subseteq> set (execution_ids a')" by (meson in_set_butlastD subsetI)
  with contacts_are_attributed [OF reading_logs r] r show ?thesis
    by (auto simp: steady_world_def MAX_TOOL_CALLS_PER_TURN_def)
qed

text \<open>
  Execution ids stay unambiguous: if the counter is never moved back, a turn keeps the records
  and the pending list free of repeated ids and every id at most the counter, and the records of a
  turn that was started carry ids issued during it, in increasing order.
\<close>

theorem execution_ids_unambiguous:
  assumes "env_ids_grow env" "agent_ids_ok (a, w)"
    and "run_turn env model prompt seed now_ms (a, w) = Some (out, a', w')"
  shows "agent_ids_ok (a', w')
         \<and> (execution_ids a' = execution_ids a \<or> ids_between (wd_next_id w) (wd_next_id w') (execution_ids a'))"
proof (cases "ses_state (wd_session w) = SS_Active")
  case True
  have start: "ids_between (wd_next_id w) (wd_next_id w) (map snd [])" by (simp add: ids_between_def)
  have old: "distinct (execution_ids a)" "pending_ok (ag_pending_unknown a)"
    "\<forall>eid \<in> set (execution_ids a) \<union> unresolved a. execution_value eid \<le> wd_next_id w"
    using assms(2) by (auto simp: agent_ids_ok_def unresolved_def)
  from run_turn_result [OF growing_walk [OF assms(1)] start True assms(3)]
  show ?thesis
  proof (rule turn_result_cases)
    assume e: "ag_executions a' = ag_executions a" "ids_between (wd_next_id w) (wd_next_id w') (map snd [])"
      "record_ids (ag_pending_unknown a') \<subseteq> unresolved a"
      "pending_ok (ag_pending_unknown a) \<longrightarrow> pending_ok (ag_pending_unknown a')"
    then have "wd_next_id w \<le> wd_next_id w'" by (simp add: ids_between_def)
    with old(3) e(3) have "\<forall>eid \<in> set (execution_ids a) \<union> record_ids (ag_pending_unknown a').
        execution_value eid \<le> wd_next_id w'" by (meson UnE UnI1 UnI2 order_trans subsetD)
    with old e show ?thesis by (simp add: agent_ids_ok_def)
  next
    fix k t
    assume r: "ids_between (wd_next_id w) (wd_next_id w') (map snd t)" "map snd t = execution_ids a'"
      "record_ids (ag_pending_unknown a') = unresolved a"
      "pending_ok (ag_pending_unknown a) \<longrightarrow> pending_ok (ag_pending_unknown a')"
    note b = r(1) [unfolded r(2)]
    then have "wd_next_id w \<le> wd_next_id w'" "\<forall>eid \<in> set (execution_ids a'). execution_value eid \<le> wd_next_id w'"
      by (simp_all add: ids_between_def)
    with old(3) r(3) have "\<forall>eid \<in> set (execution_ids a') \<union> record_ids (ag_pending_unknown a').
        execution_value eid \<le> wd_next_id w'" by (metis UnE UnI2 order_trans)
    with old(2) r(4) ids_between_distinct [OF b] b show ?thesis by (simp add: agent_ids_ok_def)
  qed
next
  case False
  then show ?thesis using assms(2,3) by (simp add: run_turn_inactive)
qed

theorem execution_ids_unambiguous_witness:
  "\<exists>out a' w'. run_turn reading_env ''m'' ''q'' [] 5 (steady_agent, steady_world) = Some (out, a', w')
     \<and> agent_ids_ok (a', w')"
proof -
  obtain out a' w' where r: "run_turn reading_env ''m'' ''q'' [] 5 (steady_agent, steady_world) = Some (out, a', w')"
    by (rule reading_run)
  from execution_ids_unambiguous [OF reading_grows steady_ids_ok r] r show ?thesis by blast
qed

text \<open>
  C4. A turn returns: if the provider, the executor and the sink return text and take no ids
  themselves, and the id space has room for nine more ids, \<open>run_turn\<close> ends with an outcome, after at most as many provider calls as
  the configuration has rounds.
\<close>

theorem run_turn_returns:
  assumes "env_returns env calls" "unat (wd_next_id w) + Suc MAX_TOOL_CALLS_PER_TURN < 2 ^ 64"
  shows "\<exists>out a' w'. run_turn env model prompt seed now_ms (a, w) = Some (out, a', w')
           \<and> calls w' \<le> calls w + cfg_max_rounds (ag_config a)"
proof (cases "ses_state (wd_session w) = SS_Active")
  case True
  note walk = returning_walk [OF assms, of "calls w"]
  have start: "unat (wd_next_id w) = unat (wd_next_id w) + length ([] :: trace) \<and> calls w = calls w + 0" by simp
  from turn_world.run_turn_walk [OF walk start True, where model = model and prompt = prompt and seed = seed and now_ms = now_ms and a = a]
  obtain out a' w' where r: "run_turn env model prompt seed now_ms (a, w) = Some (out, a', w')"
    by (auto split: option.splits)
  from run_turn_result [OF walk start True r] have "calls w' \<le> calls w + cfg_max_rounds (ag_config a)"
    by (rule turn_result_cases) simp_all
  with r show ?thesis by blast
next
  case False
  then show ?thesis by (simp add: run_turn_inactive)
qed

theorem run_turn_returns_witness:
  "\<exists>out a' w'. run_turn reading_env ''m'' ''q'' [] 5 (steady_agent, steady_world) = Some (out, a', w')
     \<and> sy_calls (wd_env w') \<le> 4"
  using run_turn_returns [OF reading_returns steady_room, of "''m''" "''q''" "[]" 5 steady_agent]
  by (simp add: steady_agent_def steady_world_def agent_new_def agent_config_default_def DEFAULT_MAX_ROUNDS_def)

end
