(* ===== verification/Agent_Reconcile.thy ===== *)
theory Agent_Reconcile
  imports Agent_Theorems
begin

text \<open>
  Reconciling an unknown effect (\<open>Agent::reconcile_unknown\<close>): what each outcome says of the agent,
  the session and the queries made.
\<close>

section \<open>The schedule\<close>

abbreviation retry_budget :: "agent_config \<Rightarrow> nat" where
  "retry_budget c \<equiv> effective_retries (agent_reconcile_config c)"

text \<open>The delays due before \<open>n\<close> queries in milliseconds: the configured base, doubled before each further
  query, never above the configured maximum and never above half a minute.\<close>

definition retry_delays :: "agent_config \<Rightarrow> nat \<Rightarrow> nat list" where
  "retry_delays c n =
     map (\<lambda>i. min (unat (cfg_unknown_reconcile_base_delay_ms c) * 2 ^ i)
              (min (unat (cfg_unknown_reconcile_max_delay_ms c)) 30000)) [0..<n]"

lemma min_doubled: "min (min b m * 2 ^ i) m = min (b * 2 ^ i) m" for b m :: nat
proof (cases "b \<le> m")
  case False
  have le: "n \<le> n * 2 ^ i" for n :: nat by simp
  with False have "m \<le> b * 2 ^ i" by (meson le_trans nat_le_linear)
  with False le [of m] show ?thesis by (simp only: min_absorb2 nat_le_linear linear)
qed simp

lemma scheduled_delays:
  "map (unat \<circ> (\<lambda>i. reconcile_delay_ms i
      (min (rg_base_delay_ms (agent_reconcile_config c)) (effective_max_delay_ms (agent_reconcile_config c)))
      (effective_max_delay_ms (agent_reconcile_config c)))) [0..<n] = retry_delays c n"
  by (simp add: retry_delays_def reconcile_delay_closed agent_reconcile_config_def
      effective_max_delay_ms_def unat_min MAX_RECONCILE_DELAY_MS_def min.assoc min.left_idem min_doubled)

lemma schedule_result:
  assumes "schedule c rec tool eid now_ms reason w = (r, delays, w')"
  shows "case r of
      Inl (status, attempts) \<Rightarrow> is_reconcile_terminal status \<and> 0 < attempts \<and> attempts \<le> retry_budget c
        \<and> map unat delays = retry_delays c attempts
    | Inr _ \<Rightarrow> map unat delays = retry_delays c (retry_budget c)"
  using reconcile_loop_result [OF assms [unfolded schedule_def Let_def]]
  by (auto simp: scheduled_delays split: sum.splits)

section \<open>Resolving a record\<close>

definition unknown_ids :: "execution_record list \<Rightarrow> execution_id set" where
  "unknown_ids rs = record_ids (filter (\<lambda>r. is_unknown (xr_status r)) rs)"

lemma unresolved_eq: "unresolved a = record_ids (ag_pending_unknown a) \<union> unknown_ids (ag_executions a)"
  by (simp add: unresolved_def unknown_ids_def)

lemma terminal_not_unknown: "is_reconcile_terminal status \<Longrightarrow> \<not> is_unknown status"
  by (cases status) auto

lemma record_ids_remove:
  assumes "distinct (map xr_execution_id rs)" "i < length rs"
  shows "record_ids (take i rs @ drop (Suc i) rs) = record_ids rs - {xr_execution_id (rs ! i)}"
proof -
  obtain xs x ys where rs: "rs = xs @ x # ys" "length xs = i" using id_take_nth_drop [OF assms(2)] assms(2)
    by (metis length_take min.absorb4)
  with assms(1) show ?thesis by auto (metis imageI)+
qed

lemma unknown_ids_set_status:
  assumes "distinct (map xr_execution_id rs)" "i < length rs" "\<not> is_unknown status"
  shows "unknown_ids (rs[i := (rs ! i)\<lparr> xr_status := status \<rparr>]) = unknown_ids rs - {xr_execution_id (rs ! i)}"
proof -
  obtain xs x ys where rs: "rs = xs @ x # ys" "length xs = i" using id_take_nth_drop [OF assms(2)] assms(2)
    by (metis length_take min.absorb4)
  with assms(1,3) show ?thesis by (auto simp: unknown_ids_def list_update_append) (metis imageI)+
qed

lemma unknown_ids_set_first:
  assumes "distinct (map xr_execution_id rs)" "\<not> is_unknown status"
  shows "unknown_ids (set_first_status eid status rs) = unknown_ids rs - {eid}"
proof (cases "position (\<lambda>r. xr_execution_id r = eid) rs")
  case None
  then have "eid \<notin> unknown_ids rs" by (auto simp: position_None_iff unknown_ids_def)
  with None show ?thesis by (simp add: set_first_status_def)
next
  case (Some i)
  then have i: "i < length rs" "xr_execution_id (rs ! i) = eid" using position_Some by force+
  with unknown_ids_set_status [OF assms(1) i(1) assms(2)] Some show ?thesis by (simp add: set_first_status_def)
qed

section \<open>What an outcome says\<close>

definition reconcile_verdict ::
  "execution_id \<Rightarrow> 'e turn_state \<Rightarrow> reconcile_outcome \<Rightarrow> 'e turn_state \<Rightarrow> bool" where
  "reconcile_verdict eid = (\<lambda>(a, w) out (a', w').
     case out of
       RO_NoUnknown \<Rightarrow> eid \<notin> unresolved a \<and> a' = a \<and> w' = w
     | RO_Resolved status attempts delays \<Rightarrow>
         eid \<in> unresolved a \<and> unresolved a' = unresolved a - {eid} \<and> is_reconcile_terminal status
         \<and> 0 < attempts \<and> attempts \<le> min (cfg_max_unknown_retries (ag_config a)) 16
         \<and> map unat delays = retry_delays (ag_config a) attempts
     | RO_Escalated report \<Rightarrow>
         eid \<in> unresolved a \<and> a' = a \<and> ses_state (wd_session w') \<noteq> SS_Active
         \<and> es_attempts report = min (cfg_max_unknown_retries (ag_config a)) 16
         \<and> map unat (es_delays_ms report) = retry_delays (ag_config a) (es_attempts report))"

lemma retry_budget_eq: "retry_budget c = min (cfg_max_unknown_retries c) 16"
  by (simp add: effective_retries_def agent_reconcile_config_def MAX_RECONCILE_ATTEMPTS_def)

lemma length_retry_delays [simp]: "length (retry_delays c n) = n"
  by (simp add: retry_delays_def)

lemma escalate_verdict:
  assumes "eid \<in> unresolved a" "map unat delays = retry_delays (ag_config a) (retry_budget (ag_config a))"
  shows "case escalate tool reason delays (a, w') of (out, st) \<Rightarrow> reconcile_verdict eid (a, w) out st"
proof -
  have "length delays = retry_budget (ag_config a)" using arg_cong [OF assms(2), of length] by simp
  with assms show ?thesis by (simp add: escalate_def reconcile_verdict_def retry_budget_eq)
qed

lemma resolved_verdict:
  assumes "eid \<in> unresolved a" "unresolved a' = unresolved a - {eid}"
    and "is_reconcile_terminal status \<and> 0 < attempts \<and> attempts \<le> retry_budget (ag_config a)
         \<and> map unat delays = retry_delays (ag_config a) attempts"
  shows "reconcile_verdict eid (a, w) (RO_Resolved status attempts delays) (a', w')"
  using assms by (simp add: reconcile_verdict_def retry_budget_eq)

lemma pending_verdict:
  assumes ids: "distinct (execution_ids a)" "pending_ok (ag_pending_unknown a)"
    and i: "i < length (ag_pending_unknown a)" "xr_execution_id (ag_pending_unknown a ! i) = eid"
  shows "case reconcile_pending_at rec i now_ms (a, w) of (out, st) \<Rightarrow>
           out \<noteq> RO_NoUnknown \<and> reconcile_verdict eid (a, w) out st"
proof -
  let ?r = "ag_pending_unknown a ! i"
  have pend: "distinct (map xr_execution_id (ag_pending_unknown a))" "is_unknown (xr_status ?r)"
    using ids(2) i(1) by (simp_all add: pending_ok_def list_all_iff)
  from pend(2) obtain reason where u: "xr_status ?r = TS_Unknown reason" by (cases "xr_status ?r") auto
  have mem: "eid \<in> unresolved a" using i by (auto simp: unresolved_eq intro: image_eqI [of _ _ ?r])
  obtain r delays w1 where s: "schedule (ag_config a) rec (xr_tool ?r) eid now_ms (bound_reason reason) w
      = (r, delays, w1)" by (metis prod_cases3)
  note res = schedule_result [OF s]
  show ?thesis
  proof (cases r)
    case (Inl p)
    obtain status attempts where p: "p = (status, attempts)" by fastforce
    with res Inl have t: "\<not> is_unknown status" by (simp add: terminal_not_unknown)
    let ?a = "a\<lparr> ag_pending_unknown := take i (ag_pending_unknown a) @ drop (Suc i) (ag_pending_unknown a),
        ag_executions := set_first_status eid status (ag_executions a) \<rparr>"
    have "unresolved ?a = unresolved a - {eid}"
      using record_ids_remove [OF pend(1) i(1)] unknown_ids_set_first [OF ids(1) t, of eid] i(2)
      by (auto simp: unresolved_eq)
    from resolved_verdict [OF mem this, of status attempts delays w w1] res Inl p u s i(2)
    show ?thesis by (simp add: reconcile_pending_at_def Let_def)
  next
    case (Inr reason')
    with escalate_verdict [OF mem, where delays = delays and tool = "xr_tool ?r" and reason = reason' and w' = w1 and w = w] res u s i(2) show ?thesis
      by (simp add: reconcile_pending_at_def Let_def escalate_def)
  qed
qed

lemma current_verdict:
  assumes ids: "distinct (execution_ids a)" and np: "eid \<notin> record_ids (ag_pending_unknown a)"
  shows "case reconcile_current rec eid now_ms (a, w) of (out, st) \<Rightarrow> reconcile_verdict eid (a, w) out st"
proof (cases "position (\<lambda>r. xr_execution_id r = eid \<and> is_unknown (xr_status r)) (ag_executions a)")
  case None
  then have "eid \<notin> unresolved a" using np by (auto simp: position_None_iff unresolved_eq unknown_ids_def)
  with None show ?thesis by (simp add: reconcile_current_def reconcile_verdict_def)
next
  case (Some i)
  let ?r = "ag_executions a ! i"
  from Some have i: "i < length (ag_executions a)" "xr_execution_id ?r = eid" "is_unknown (xr_status ?r)"
    using position_Some by force+
  then have mem: "eid \<in> unresolved a" by (auto simp: unresolved_eq unknown_ids_def intro!: image_eqI [of _ _ ?r])
  obtain reason r delays w1 where s: "schedule (ag_config a) rec (xr_tool ?r) eid now_ms (bound_reason reason) w
      = (r, delays, w1)" "(case xr_status ?r of TS_Unknown reason \<Rightarrow> reason | _ \<Rightarrow> []) = reason"
    by (metis prod_cases3)
  note res = schedule_result [OF s(1)]
  show ?thesis
  proof (cases r)
    case (Inl p)
    obtain status attempts where p: "p = (status, attempts)" by fastforce
    with res Inl have t: "\<not> is_unknown status" by (simp add: terminal_not_unknown)
    let ?a = "a\<lparr> ag_executions := (ag_executions a)[i := ?r\<lparr> xr_status := status \<rparr>],
        ag_pending_unknown := filter (\<lambda>p. xr_execution_id p \<noteq> eid) (ag_pending_unknown a) \<rparr>"
    have "unresolved ?a = unresolved a - {eid}"
      using unknown_ids_set_status [OF ids i(1) t] i(2) np by (auto simp: unresolved_eq)
    from resolved_verdict [OF mem this, of status attempts delays w w1] res Inl p Some s
    show ?thesis by (simp add: reconcile_current_def reconcile_executions_at_def Let_def)
  next
    case (Inr reason')
    with escalate_verdict [OF mem, where delays = delays and tool = "xr_tool ?r" and reason = reason' and w' = w1 and w = w] res Some s show ?thesis
      by (simp add: reconcile_current_def reconcile_executions_at_def Let_def escalate_def)
  qed
qed

section \<open>A worked example\<close>

definition env_reconcile :: "fake_reconciler world unknown_reconciler" where
  "env_reconcile tool eid now_ms w =
     (case fake_reconcile tool eid now_ms (wd_env w) of (answer, r) \<Rightarrow> (answer, w\<lparr> wd_env := r \<rparr>))"

interpretation scripted_world: logging_reconciler env_reconcile "\<lambda>w. fr_queries (wd_env w)"
  by unfold_locales (auto simp: env_reconcile_def fake_reconcile_def Let_def split: list.splits prod.splits)

definition reconciling_world :: "fake_reconciler world" where
  "reconciling_world = \<lparr> wd_session = session_new (AgentInstanceId 1) (RunId 2) (SessionId 3), wd_next_id = 9,
     wd_env = fr_push_resolved TS_Success (fr_push_pending ''still running'' fake_reconciler_new) \<rparr>"

definition reconciling_agent :: "fake_reconciler world agent" where
  "reconciling_agent = (agent_new sample_bus agent_config_default)\<lparr> ag_executions := [lost_record] \<rparr>"

lemmas reconciling_defs = reconciling_agent_def agent_new_def lost_record_def agent_config_default_def
  DEFAULT_MAX_UNKNOWN_RETRIES_def

section \<open>Properties\<close>

text \<open>
  C5. Reconciliation is exact: it answers \<open>NoUnknown\<close> only for an id that is not unresolved, and then
  changes nothing; \<open>Resolved\<close> makes that id, and no other, resolved, with a terminal status after at
  least one and at most the budgeted number of queries; \<open>Escalated\<close> spends the whole budget, keeps
  every record and ends the session. The budget is the configured number of retries, capped at 16.
  The reported delays are one per query and double from query to query: the \<open>i\<close>-th is the configured base
  times \<open>2 ^ i\<close>, cut at the configured maximum and at 30 seconds.
\<close>

theorem reconcile_unknown_exact:
  assumes "distinct (execution_ids a)" "pending_ok (ag_pending_unknown a)"
    and "reconcile_unknown rec eid now_ms (a, w) = (out, a', w')"
  shows "case out of
      RO_NoUnknown \<Rightarrow> eid \<notin> unresolved a \<and> a' = a \<and> w' = w
    | RO_Resolved status attempts delays \<Rightarrow>
        eid \<in> unresolved a \<and> unresolved a' = unresolved a - {eid} \<and> is_reconcile_terminal status
        \<and> 0 < attempts \<and> attempts \<le> min (cfg_max_unknown_retries (ag_config a)) 16
        \<and> map unat delays = retry_delays (ag_config a) attempts
    | RO_Escalated report \<Rightarrow>
        eid \<in> unresolved a \<and> a' = a \<and> ses_state (wd_session w') \<noteq> SS_Active
        \<and> es_attempts report = min (cfg_max_unknown_retries (ag_config a)) 16
        \<and> map unat (es_delays_ms report) = retry_delays (ag_config a) (es_attempts report)"
proof -
  have "reconcile_verdict eid (a, w) out (a', w')"
  proof (cases "position (\<lambda>r. xr_execution_id r = eid) (ag_pending_unknown a)")
    case (Some i)
    then have i: "i < length (ag_pending_unknown a)" "xr_execution_id (ag_pending_unknown a ! i) = eid"
      using position_Some by force+
    from pending_verdict [OF assms(1,2) i, where rec = rec and now_ms = now_ms and w = w] assms(3) Some show ?thesis
      by (auto simp: reconcile_unknown_def split: prod.splits reconcile_outcome.splits)
  next
    case None
    then have "eid \<notin> record_ids (ag_pending_unknown a)" by (auto simp: position_None_iff)
    from current_verdict [OF assms(1) this, where rec = rec and now_ms = now_ms and w = w] assms(3) None show ?thesis
      by (simp add: reconcile_unknown_def)
  qed
  then show ?thesis by (simp add: reconcile_verdict_def)
qed

theorem reconcile_unknown_exact_witness:
  "\<exists>delays a' w'. reconcile_unknown env_reconcile (ExecutionId 7) 5 (reconciling_agent, reconciling_world)
       = (RO_Resolved TS_Success 2 delays, a', w')
     \<and> map unat delays = [100, 200] \<and> unresolved a' = {}"
proof -
  have "distinct (execution_ids reconciling_agent)" "pending_ok (ag_pending_unknown reconciling_agent)"
    by (simp_all add: reconciling_defs pending_ok_def)
  note exact = reconcile_unknown_exact [OF this]
  obtain delays a' w' where r: "reconcile_unknown env_reconcile (ExecutionId 7) 5 (reconciling_agent, reconciling_world)
      = (RO_Resolved TS_Success 2 delays, a', w')"
    by (auto simp: reconcile_unknown_def reconcile_current_def reconcile_executions_at_def schedule_def Let_def
        effective_retries_def agent_reconcile_config_def MAX_RECONCILE_ATTEMPTS_def numeral_eq_Suc
        env_reconcile_def fake_reconcile_def reconciling_world_def fr_push_resolved_def fr_push_pending_def
        fake_reconciler_new_def reconciling_defs)
  have "unresolved reconciling_agent = {ExecutionId 7}" by (simp add: unresolved_def reconciling_defs)
  moreover have "retry_delays agent_config_default 2 = [100, 200]"
    by (simp add: retry_delays_def agent_config_default_def upt_rec DEFAULT_RECONCILE_BASE_DELAY_MS_def
        DEFAULT_RECONCILE_MAX_DELAY_MS_def)
  ultimately show ?thesis using exact [OF r] r by (simp add: reconciling_agent_def agent_new_def)
qed

end
