(* ===== verification/Rust_Parse.thy ===== *)
theory Rust_Parse
  imports Reasons
begin

text \<open>
  Further pieces of Rust's standard library that the parsers of the crates use: \<open>str::trim\<close>, the
  \<open>parse\<close> of an unsigned integer, and the conversions between integers and their little- and
  big-endian bytes.
\<close>

definition str_trim :: "string \<Rightarrow> string" where
  "str_trim s = concat (rev (dropWhile is_whitespace (rev (dropWhile is_whitespace (str_chars s)))))"

text \<open>\<open>parse::<uN>()\<close> with \<open>lim\<close> the largest value: an optional plus sign and decimal digits.\<close>

definition parse_uint :: "nat \<Rightarrow> string \<Rightarrow> nat option" where
  "parse_uint lim s =
     (let ds = (case s of c # cs \<Rightarrow> if c = CHR ''+'' \<and> cs \<noteq> [] then cs else s | [] \<Rightarrow> [])
      in if ds \<noteq> [] \<and> list_all is_ascii_digit ds \<and> decimal_value ds \<le> lim
         then Some (decimal_value ds) else None)"

fun le_bytes :: "nat \<Rightarrow> nat \<Rightarrow> bytes" where
  "le_bytes 0 v = []"
| "le_bytes (Suc k) v = char_of (v mod 256) # le_bytes k (v div 256)"

fun le_value :: "bytes \<Rightarrow> nat" where
  "le_value [] = 0"
| "le_value (b # bs) = byte_val b + 256 * le_value bs"

definition be_bytes :: "nat \<Rightarrow> nat \<Rightarrow> bytes" where
  "be_bytes k v = rev (le_bytes k v)"

definition be_value :: "bytes \<Rightarrow> nat" where
  "be_value bs = le_value (rev bs)"

lemma length_le_bytes [simp]: "length (le_bytes k v) = k"
  by (induction k arbitrary: v) auto

lemma length_be_bytes [simp]: "length (be_bytes k v) = k"
  by (simp add: be_bytes_def)

lemma byte_val_char_of : "byte_val (char_of (v mod 256)) = v mod 256"
  by simp

lemma byte_val_less: "byte_val c < 256"
  using of_char_mod_256 [of c, where ?'a = nat] by (metis mod_less_divisor zero_less_numeral)

lemma le_value_bytes: "v < 256 ^ k \<Longrightarrow> le_value (le_bytes k v) = v"
proof (induction k arbitrary: v)
  case (Suc k)
  then have "v div 256 < 256 ^ k" by (simp add: less_mult_imp_div_less mult.commute)
  with Suc.IH show ?case by simp
qed simp

lemma be_value_bytes: "v < 256 ^ k \<Longrightarrow> be_value (be_bytes k v) = v"
  by (simp add: be_value_def be_bytes_def le_value_bytes)

lemma le_value_bound: "le_value bs < 256 ^ length bs"
proof (induction bs)
  case (Cons b bs)
  have "byte_val b + 256 * le_value bs < 256 * (le_value bs + 1)" using byte_val_less [of b] by simp
  also have "\<dots> \<le> 256 * 256 ^ length bs" using Cons by simp
  finally show ?case by simp
qed simp

lemma char_of_byte_val: "char_of (byte_val c) = c"
  by simp

lemma le_bytes_value: "le_bytes (length bs) (le_value bs) = bs"
proof (induction bs)
  case (Cons b bs)
  have "(byte_val b + 256 * le_value bs) mod 256 = byte_val b" "(byte_val b + 256 * le_value bs) div 256 = le_value bs"
    using byte_val_less [of b] by simp_all
  with Cons show ?case by (simp add: char_of_byte_val)
qed simp

lemma be_bytes_value: "be_bytes (length bs) (be_value bs) = bs"
  using le_bytes_value [of "rev bs"] by (simp add: be_bytes_def be_value_def)

lemma parse_uint_show [simp]: "n \<le> lim \<Longrightarrow> parse_uint lim (show_nat n) = Some n"
proof -
  assume n: "n \<le> lim"
  have d: "list_all is_ascii_digit (show_nat n)" by (rule show_nat_digits)
  obtain c cs where s: "show_nat n = c # cs" by (cases "show_nat n") (simp, simp)
  with d have "c \<noteq> CHR ''+''" by (auto simp: is_ascii_digit_def)
  with n d s show ?thesis by (simp add: parse_uint_def Let_def) (metis decimal_value_show_nat s)
qed

section \<open>Trimming ASCII text\<close>

definition ascii_space :: "char \<Rightarrow> bool" where
  "ascii_space c \<longleftrightarrow> 9 \<le> byte_val c \<and> byte_val c \<le> 13 \<or> byte_val c = 32"

definition ascii_trim :: "string \<Rightarrow> string" where
  "ascii_trim s = rev (dropWhile ascii_space (rev (dropWhile ascii_space s)))"

lemma concat_singletons: "concat (map (\<lambda>c. [c]) s) = s"
  by (induction s) auto

lemma str_trim_ascii:
  assumes "list_all (\<lambda>c. byte_val c < 128) s"
  shows "str_trim s = ascii_trim s"
proof -
  have ws: "dropWhile is_whitespace (map (\<lambda>c. [c]) t) = map (\<lambda>c. [c]) (dropWhile ascii_space t)"
    if "\<forall>c \<in> set t. byte_val c < 128" for t
    using that by (induction t) (auto simp: is_whitespace_def ascii_space_def)
  have "set (rev (dropWhile ascii_space s)) \<subseteq> set s" by (auto dest: set_dropWhileD)
  with assms have b: "\<forall>c \<in> set (rev (dropWhile ascii_space s)). byte_val c < 128" by (auto simp: list_all_iff)
  have "str_chars s = map (\<lambda>c. [c]) s"
    using assms by (simp add: str_chars_def utf8_items_ascii list_all_iff)
  moreover have "dropWhile is_whitespace (map (\<lambda>c. [c]) s) = map (\<lambda>c. [c]) (dropWhile ascii_space s)"
    using assms by (simp add: ws list_all_iff)
  ultimately have "str_trim s = concat (map (\<lambda>c. [c]) (ascii_trim s))"
    by (simp add: str_trim_def ascii_trim_def rev_map ws [OF b])
  then show ?thesis by (simp only: concat_singletons)
qed

end
