(* ===== verification/Sse.thy ===== *)
theory Sse
  imports Streaming Reasons Rust_Parse
begin

text \<open>
  The incremental parser for server-sent events (\<open>bitty-ai-runtime/src/sse.rs\<close>): lines are cut out of
  a buffer that is fed chunk by chunk, fields are collected, and an empty line dispatches an event.
\<close>

section \<open>State\<close>

definition MAX_SSE_LINE_BYTES :: nat where
  "MAX_SSE_LINE_BYTES = MAX_FRAGMENT_BYTES"

definition MAX_SSE_EVENT_BYTES :: nat where
  "MAX_SSE_EVENT_BYTES = MAX_FRAGMENT_BYTES"

record sse_event =
  sev_event :: string
  sev_data :: string
  sev_id :: "string option"
  sev_retry :: "u64 option"

definition sse_event_new :: "string \<Rightarrow> string \<Rightarrow> sse_event" where
  "sse_event_new event data = \<lparr> sev_event = event, sev_data = data, sev_id = None, sev_retry = None \<rparr>"

definition sse_is_done :: "sse_event \<Rightarrow> bool" where
  "sse_is_done e \<longleftrightarrow> str_trim (sev_data e) = ''[DONE]''"

datatype sse_error =
  SsE_LineTooLong nat nat
| SsE_EventTooLong nat nat
| SsE_InvalidUtf8
| SsE_InvalidRetry string

record sse_parser =
  spr_buffer :: bytes
  spr_current_event :: "string option"
  spr_current_data :: string
  spr_current_id :: "string option"
  spr_current_retry :: "u64 option"
  spr_last_event_id :: "string option"
  spr_has_event_fields :: bool

definition sse_parser_new :: sse_parser where
  "sse_parser_new =
     \<lparr> spr_buffer = [], spr_current_event = None, spr_current_data = [], spr_current_id = None,
       spr_current_retry = None, spr_last_event_id = None, spr_has_event_fields = False \<rparr>"

definition sse_reset :: "sse_parser \<Rightarrow> sse_parser" where
  "sse_reset p =
     p\<lparr> spr_buffer := [], spr_current_event := None, spr_current_data := [], spr_current_id := None,
        spr_current_retry := None, spr_last_event_id := None, spr_has_event_fields := False \<rparr>"

section \<open>Lines\<close>

abbreviation LF_byte :: char where
  "LF_byte \<equiv> CHR 0x0A"

abbreviation CR_byte :: char where
  "CR_byte \<equiv> CHR 0x0D"

text \<open>The end of the first line and the number of bytes to skip; a trailing CR waits for its successor.\<close>

fun find_line_break :: "bytes \<Rightarrow> (nat \<times> nat) option" where
  "find_line_break [] = None"
| "find_line_break (b # bs) =
     (if b = LF_byte then Some (0, 1)
      else if b = CR_byte
      then (case bs of
              [] \<Rightarrow> None
            | c # _ \<Rightarrow> if c = LF_byte then Some (0, 2) else Some (0, 1))
      else map_option (\<lambda>(i, j). (Suc i, Suc j)) (find_line_break bs))"

definition process_line :: "string \<Rightarrow> sse_parser \<Rightarrow> (unit, sse_error) result \<times> sse_parser" where
  "process_line line p =
     (let (field, value) =
        (case split_once (CHR '':'') line of
           Some (f, v) \<Rightarrow> (f, case strip_prefix '' '' v of Some stripped \<Rightarrow> stripped | None \<Rightarrow> v)
         | None \<Rightarrow> (line, []))
      in if field = ''event''
         then (Ok (), p\<lparr> spr_current_event := Some value, spr_has_event_fields := True \<rparr>)
         else if field = ''data''
         then (let additional_len = (if spr_current_data p = [] then length value else 1 + length value);
                   new_len = length (spr_current_data p) + additional_len
               in if new_len > MAX_SSE_EVENT_BYTES
                  then (Err (SsE_EventTooLong MAX_SSE_EVENT_BYTES new_len), p)
                  else (Ok (),
                        p\<lparr> spr_current_data :=
                             spr_current_data p @ (if spr_current_data p \<noteq> [] then [LF_byte] else []) @ value,
                           spr_has_event_fields := True \<rparr>))
         else if field = ''id''
         then (Ok (), if CHR 0x00 \<notin> set value
                      then p\<lparr> spr_current_id := Some value, spr_has_event_fields := True \<rparr> else p)
         else if field = ''retry''
         then (case parse_uint (2 ^ 64 - 1) (str_trim value) of
                 None \<Rightarrow> (Err (SsE_InvalidRetry value), p)
               | Some parsed \<Rightarrow>
                   (Ok (), p\<lparr> spr_current_retry := Some (of_nat parsed), spr_has_event_fields := True \<rparr>))
         else (Ok (), p))"

definition dispatch_current :: "sse_parser \<Rightarrow> sse_event \<times> sse_parser" where
  "dispatch_current p =
     (\<lparr> sev_event = (case spr_current_event p of Some e \<Rightarrow> e | None \<Rightarrow> ''message''),
        sev_data = spr_current_data p, sev_id = spr_current_id p, sev_retry = spr_current_retry p \<rparr>,
      p\<lparr> spr_current_event := None, spr_current_data := [], spr_current_id := None, spr_current_retry := None,
         spr_last_event_id := (case spr_current_id p of Some eid \<Rightarrow> Some eid | None \<Rightarrow> spr_last_event_id p),
         spr_has_event_fields := False \<rparr>)"

text \<open>One line of the loop of \<open>feed\<close>: the events it dispatches.\<close>

definition feed_line :: "bytes \<Rightarrow> sse_parser \<Rightarrow> (sse_event list, sse_error) result \<times> sse_parser" where
  "feed_line line p =
     (if \<not> valid_utf8 line then (Err SsE_InvalidUtf8, p)
      else if line = []
      then (if spr_has_event_fields p then (case dispatch_current p of (e, p') \<Rightarrow> (Ok [e], p')) else (Ok [], p))
      else if hd line \<noteq> CHR '':''
      then (case process_line line p of (Ok _, p') \<Rightarrow> (Ok [], p') | (Err e, p') \<Rightarrow> (Err e, p'))
      else (Ok [], p))"

lemma process_line_buffer [simp]: "spr_buffer (snd (process_line line p)) = spr_buffer p"
  by (simp add: process_line_def Let_def case_prod_beta split: option.split)

lemma feed_line_buffer [simp]: "spr_buffer (snd (feed_line line p)) = spr_buffer p"
proof -
  obtain r p' where "process_line line p = (r, p')" by fastforce
  with process_line_buffer [of line p] show ?thesis
    by (cases r) (simp_all add: feed_line_def dispatch_current_def)
qed

lemma process_line_frame:
  "process_line line (p\<lparr> spr_buffer := b \<rparr>) = (fst (process_line line p), (snd (process_line line p))\<lparr> spr_buffer := b \<rparr>)"
  by (simp add: process_line_def Let_def case_prod_beta split: option.split)

lemma dispatch_current_frame:
  "dispatch_current (p\<lparr> spr_buffer := b \<rparr>) = (fst (dispatch_current p), (snd (dispatch_current p))\<lparr> spr_buffer := b \<rparr>)"
  by (cases p) (simp add: dispatch_current_def split: option.split)

lemma feed_line_frame:
  "feed_line line (p\<lparr> spr_buffer := b \<rparr>) = (fst (feed_line line p), (snd (feed_line line p))\<lparr> spr_buffer := b \<rparr>)"
proof -
  obtain r p' where "process_line line p = (r, p')" by fastforce
  moreover obtain e q where "dispatch_current p = (e, q)" by fastforce
  ultimately show ?thesis
    using process_line_frame [where line = line and p = p and b = b] dispatch_current_frame [where p = p and b = b]
    by (cases r) (simp_all add: feed_line_def)
qed

lemma feed_line_rest: "feed_line line (p\<lparr> spr_buffer := b \<rparr>) = (r, p') \<Longrightarrow> spr_buffer p' = b"
  using feed_line_buffer [of line "p\<lparr> spr_buffer := b \<rparr>"] by simp

lemma find_line_break_bounds:
  "find_line_break bs = Some (i, j) \<Longrightarrow> i < j \<and> j \<le> length bs \<and> (\<forall>c \<in> set (take i bs). c \<noteq> LF_byte \<and> c \<noteq> CR_byte)"
proof (induction bs arbitrary: i j)
  case (Cons b bs)
  consider "b = LF_byte" | "b \<noteq> LF_byte" "b = CR_byte" | "b \<noteq> LF_byte" "b \<noteq> CR_byte"
    by (cases "b = LF_byte"; cases "b = CR_byte") simp_all
  then show ?case
  proof cases
    case 1
    with Cons.prems show ?thesis by simp
  next
    case 2
    with Cons.prems show ?thesis by (cases bs) (simp_all split: if_split_asm)
  next
    case 3
    with Cons.prems obtain i' j' where "find_line_break bs = Some (i', j')" "i = Suc i'" "j = Suc j'"
      by (auto simp only: find_line_break.simps if_False map_option_eq_Some split: prod.splits)
    with Cons.IH [of i' j'] 3 show ?thesis by simp
  qed
qed simp

function feed_loop :: "sse_event list \<Rightarrow> sse_parser \<Rightarrow> (sse_event list, sse_error) result \<times> sse_parser" where
  "feed_loop events p =
     (case find_line_break (spr_buffer p) of
        Some (line_end, advance) \<Rightarrow>
          if line_end > MAX_SSE_LINE_BYTES
          then (Err (SsE_LineTooLong MAX_SSE_LINE_BYTES line_end), p)
          else (case feed_line (take line_end (spr_buffer p)) (p\<lparr> spr_buffer := drop advance (spr_buffer p) \<rparr>) of
                  (Err e, p') \<Rightarrow> (Err e, p')
                | (Ok new, p') \<Rightarrow> feed_loop (events @ new) p')
      | None \<Rightarrow>
          if length (spr_buffer p) > MAX_SSE_LINE_BYTES
          then (Err (SsE_LineTooLong MAX_SSE_LINE_BYTES (length (spr_buffer p))), p)
          else (Ok events, p))"
  by pat_completeness auto
termination
proof (relation "measure (\<lambda>(_, p). length (spr_buffer p))", goal_cases)
  case (2 events p ij i j r q new)
  then have "find_line_break (spr_buffer p) = Some (i, j)" by simp
  note b = find_line_break_bounds [OF this]
  have "spr_buffer q = drop j (spr_buffer p)" using feed_line_rest 2(4) [symmetric] .
  moreover have "length (drop j (spr_buffer p)) < length (spr_buffer p)" using b by (simp only: length_drop) linarith
  ultimately show ?case by (simp only: in_measure prod.case)
qed simp

declare feed_loop.simps [simp del]

definition sse_feed :: "bytes \<Rightarrow> sse_parser \<Rightarrow> (sse_event list, sse_error) result \<times> sse_parser" where
  "sse_feed chunk p = feed_loop [] (p\<lparr> spr_buffer := spr_buffer p @ chunk \<rparr>)"

definition sse_finish :: "sse_parser \<Rightarrow> (sse_event option, sse_error) result \<times> sse_parser" where
  "sse_finish p =
     (let line = spr_buffer p; p1 = p\<lparr> spr_buffer := [] \<rparr>;
          flushed = (if line = [] then (Ok (), p)
                     else if \<not> valid_utf8 line then (Err SsE_InvalidUtf8, p1)
                     else if hd line \<noteq> CHR '':'' then process_line line p1 else (Ok (), p1))
      in case flushed of
           (Err e, p') \<Rightarrow> (Err e, p')
         | (Ok _, p') \<Rightarrow>
             if spr_has_event_fields p'
             then (case dispatch_current p' of (e, p'') \<Rightarrow> (Ok (Some e), p'')) else (Ok None, p'))"

section \<open>Lemmas\<close>

lemma find_line_break_append: "find_line_break xs = Some ij \<Longrightarrow> find_line_break (xs @ ys) = Some ij"
proof (induction xs arbitrary: ij)
  case (Cons b bs)
  show ?case
  proof (cases "b = LF_byte \<or> b = CR_byte")
    case True
    with Cons.prems show ?thesis by (cases bs) (simp_all split: if_split_asm)
  next
    case False
    with Cons.prems obtain ij' where "find_line_break bs = Some ij'" "ij = (case ij' of (i, j) \<Rightarrow> (Suc i, Suc j))"
      by (simp only: find_line_break.simps de_Morgan_disj if_False simp_thms map_option_eq_Some) metis
    with Cons.IH [of ij'] False show ?thesis by simp
  qed
qed simp

text \<open>The events already collected are only a prefix of the result.\<close>

definition after :: "sse_event list \<Rightarrow> (sse_event list, sse_error) result \<times> sse_parser
    \<Rightarrow> (sse_event list, sse_error) result \<times> sse_parser" where
  "after events r = (case r of (Ok new, p) \<Rightarrow> (Ok (events @ new), p) | (Err e, p) \<Rightarrow> (Err e, p))"

lemma after_after [simp]: "after xs (after ys r) = after (xs @ ys) r"
  by (auto simp: after_def split: prod.splits result.splits)

lemma feed_loop_step:
  assumes "find_line_break (spr_buffer p) = Some (i, j)" "i \<le> MAX_SSE_LINE_BYTES"
    and "feed_line (take i (spr_buffer p)) (p\<lparr> spr_buffer := drop j (spr_buffer p) \<rparr>) = (Ok new, p')"
  shows "feed_loop events p = feed_loop (events @ new) p'" "spr_buffer p' = drop j (spr_buffer p)"
    "length (spr_buffer p') < length (spr_buffer p)"
proof -
  show "feed_loop events p = feed_loop (events @ new) p'" using assms by (simp add: feed_loop.simps [of events p])
  show b: "spr_buffer p' = drop j (spr_buffer p)" using feed_line_rest [OF assms(3)] .
  show "length (spr_buffer p') < length (spr_buffer p)"
    using find_line_break_bounds [OF assms(1)] by (simp only: b length_drop) linarith
qed

lemma feed_loop_stop:
  assumes "\<nexists>i j new p'. find_line_break (spr_buffer p) = Some (i, j) \<and> i \<le> MAX_SSE_LINE_BYTES \<and>
      feed_line (take i (spr_buffer p)) (p\<lparr> spr_buffer := drop j (spr_buffer p) \<rparr>) = (Ok new, p')"
  obtains (err) e p' where "\<And>events. feed_loop events p = (Err e, p')"
  | (wait) "find_line_break (spr_buffer p) = None" "length (spr_buffer p) \<le> MAX_SSE_LINE_BYTES"
      "\<And>events. feed_loop events p = (Ok events, p)"
proof (cases "find_line_break (spr_buffer p)")
  case None
  then show ?thesis using err wait
    by (cases "length (spr_buffer p) \<le> MAX_SSE_LINE_BYTES") (simp_all add: feed_loop.simps [of _ p])
next
  case (Some ij)
  obtain i j where ij: "ij = (i, j)" by fastforce
  obtain r p' where f: "feed_line (take i (spr_buffer p)) (p\<lparr> spr_buffer := drop j (spr_buffer p) \<rparr>) = (r, p')"
    by fastforce
  show ?thesis
  proof (cases "i \<le> MAX_SSE_LINE_BYTES")
    case True
    with assms Some ij f obtain e where "r = Err e" by (cases r) auto
    with True Some ij f show ?thesis by (intro err) (simp add: feed_loop.simps [of _ p])
  next
    case False
    with Some ij show ?thesis by (intro err) (simp add: feed_loop.simps [of _ p])
  qed
qed

text \<open>Induction over the lines that the loop consumes.\<close>

lemma feed_loop_lines [case_names line stop]:
  assumes "\<And>p i j new p'. find_line_break (spr_buffer p) = Some (i, j) \<Longrightarrow> i \<le> MAX_SSE_LINE_BYTES \<Longrightarrow>
      feed_line (take i (spr_buffer p)) (p\<lparr> spr_buffer := drop j (spr_buffer p) \<rparr>) = (Ok new, p') \<Longrightarrow> P p' \<Longrightarrow> P p"
    and "\<And>p. \<nexists>i j new p'. find_line_break (spr_buffer p) = Some (i, j) \<and> i \<le> MAX_SSE_LINE_BYTES \<and>
      feed_line (take i (spr_buffer p)) (p\<lparr> spr_buffer := drop j (spr_buffer p) \<rparr>) = (Ok new, p') \<Longrightarrow> P p"
  shows "P p"
proof (induction "length (spr_buffer p)" arbitrary: p rule: less_induct)
  case less
  show ?case
  proof (cases "\<exists>i j new p'. find_line_break (spr_buffer p) = Some (i, j) \<and> i \<le> MAX_SSE_LINE_BYTES \<and>
      feed_line (take i (spr_buffer p)) (p\<lparr> spr_buffer := drop j (spr_buffer p) \<rparr>) = (Ok new, p')")
    case True
    then obtain i j new p' where l: "find_line_break (spr_buffer p) = Some (i, j)" "i \<le> MAX_SSE_LINE_BYTES"
      "feed_line (take i (spr_buffer p)) (p\<lparr> spr_buffer := drop j (spr_buffer p) \<rparr>) = (Ok new, p')" by blast
    from assms(1) [OF l less [OF feed_loop_step(3) [OF l]]] show ?thesis .
  next
    case False
    then show ?thesis by (rule assms(2))
  qed
qed

lemma feed_loop_events: "feed_loop events p = after events (feed_loop [] p)"
proof (induction p arbitrary: events rule: feed_loop_lines)
  case (line p i j new p')
  note st = feed_loop_step(1) [OF line(1-3)]
  have "feed_loop events p = after events (after new (feed_loop [] p'))"
    by (simp only: st after_after line(4) [of "events @ new"])
  also have "\<dots> = after events (feed_loop [] p)"
    by (simp only: line(4) [of new, symmetric] st [of "[]"] append_Nil)
  finally show ?case .
next
  case (stop p)
  from feed_loop_stop [OF stop] show ?case by cases (simp_all add: after_def)
qed

text \<open>What is left in the buffer after a successful run can be continued.\<close>

lemma feed_loop_split:
  "feed_loop events p = (Ok out, q) \<Longrightarrow>
   feed_loop events (p\<lparr> spr_buffer := spr_buffer p @ rest \<rparr>) = feed_loop out (q\<lparr> spr_buffer := spr_buffer q @ rest \<rparr>)"
proof (induction p arbitrary: events rule: feed_loop_lines)
  case (line p i j new p')
  let ?p = "p\<lparr> spr_buffer := spr_buffer p @ rest \<rparr>" and ?p' = "p'\<lparr> spr_buffer := spr_buffer p' @ rest \<rparr>"
  have j: "i \<le> length (spr_buffer p)" "j \<le> length (spr_buffer p)"
    using find_line_break_bounds [OF line(1)] by linarith+
  have f: "find_line_break (spr_buffer ?p) = Some (i, j)" using find_line_break_append [OF line(1)] by simp
  have "feed_line (take i (spr_buffer p)) (p\<lparr> spr_buffer := drop j (spr_buffer p) @ rest \<rparr>) =
      (Ok new, p'\<lparr> spr_buffer := drop j (spr_buffer p) @ rest \<rparr>)"
    using feed_line_frame [where p = "p\<lparr> spr_buffer := drop j (spr_buffer p) \<rparr>" and b = "drop j (spr_buffer p) @ rest"]
    by (simp add: line(3))
  then have "feed_line (take i (spr_buffer ?p)) (?p\<lparr> spr_buffer := drop j (spr_buffer ?p) \<rparr>) = (Ok new, ?p')"
    using j feed_loop_step(2) [OF line(1-3)] by simp
  note st = feed_loop_step(1) [OF f line(2) this, of events]
  have "feed_loop (events @ new) p' = (Ok out, q)"
    using line(5) by (simp only: feed_loop_step(1) [OF line(1-3)])
  from line(4) [OF this] show ?case by (simp only: st)
next
  case (stop p)
  from feed_loop_stop [OF stop(1)] show ?case
  proof cases
    case (1 e p')
    with stop(2) show ?thesis by simp
  next
    case 2
    with stop(2) show ?thesis by simp
  qed
qed

section \<open>Chunk boundaries\<close>

lemma feed_append:
  assumes "sse_feed c1 p = (Ok e1, p1)"
  shows "sse_feed (c1 @ c2) p = after e1 (sse_feed c2 p1)"
proof -
  have "feed_loop [] (p\<lparr> spr_buffer := spr_buffer p @ c1 @ c2 \<rparr>) = feed_loop e1 (p1\<lparr> spr_buffer := spr_buffer p1 @ c2 \<rparr>)"
    using feed_loop_split [where p = "p\<lparr> spr_buffer := spr_buffer p @ c1 \<rparr>" and events = "[]" and rest = c2] assms
    by (simp add: sse_feed_def)
  then show ?thesis using feed_loop_events [of e1] by (simp add: sse_feed_def)
qed

text \<open>A caller that feeds a stream chunk by chunk and stops at the first error.\<close>

fun feed_chunks :: "bytes list \<Rightarrow> sse_parser \<Rightarrow> (sse_event list, sse_error) result \<times> sse_parser" where
  "feed_chunks [] p = (Ok [], p)"
| "feed_chunks (c # cs) p =
     (case sse_feed c p of (Err e, p') \<Rightarrow> (Err e, p') | (Ok events, p') \<Rightarrow> after events (feed_chunks cs p'))"

definition sse_waiting :: "sse_parser \<Rightarrow> bool" where
  "sse_waiting p \<longleftrightarrow> find_line_break (spr_buffer p) = None \<and> length (spr_buffer p) \<le> MAX_SSE_LINE_BYTES \<and>
     length (spr_current_data p) \<le> MAX_SSE_EVENT_BYTES"

lemma process_line_data:
  "process_line line p = (r, p') \<Longrightarrow> length (spr_current_data p) \<le> MAX_SSE_EVENT_BYTES \<Longrightarrow>
   length (spr_current_data p') \<le> MAX_SSE_EVENT_BYTES"
  by (auto simp: process_line_def Let_def split: prod.splits option.splits if_splits)

lemma feed_line_data:
  assumes "feed_line line p = (r, p')" "length (spr_current_data p) \<le> MAX_SSE_EVENT_BYTES"
  shows "length (spr_current_data p') \<le> MAX_SSE_EVENT_BYTES"
  using assms process_line_data [OF _ assms(2)]
  by (auto simp: feed_line_def dispatch_current_def split: if_splits prod.splits result.splits)

lemma feed_loop_waiting:
  "feed_loop events p = (Ok out, q) \<Longrightarrow> length (spr_current_data p) \<le> MAX_SSE_EVENT_BYTES \<Longrightarrow> sse_waiting q"
proof (induction p arbitrary: events rule: feed_loop_lines)
  case (line p i j new p')
  have "feed_loop (events @ new) p' = (Ok out, q)"
    using line(5) by (simp only: feed_loop_step(1) [OF line(1-3)])
  moreover have "length (spr_current_data p') \<le> MAX_SSE_EVENT_BYTES"
    using feed_line_data [OF line(3)] line(6) by simp
  ultimately show ?case by (rule line(4))
next
  case (stop p)
  from feed_loop_stop [OF stop(1)] show ?case
  proof cases
    case (1 e p')
    with stop(2) show ?thesis by simp
  next
    case 2
    with stop(2,3) show ?thesis by (simp add: sse_waiting_def)
  qed
qed

lemma feed_waiting: "sse_waiting p \<Longrightarrow> sse_feed c p = (Ok out, q) \<Longrightarrow> sse_waiting q"
  by (rule feed_loop_waiting [of "[]" "p\<lparr> spr_buffer := spr_buffer p @ c \<rparr>"]) (simp_all add: sse_feed_def sse_waiting_def)

lemma feed_nothing: "sse_waiting p \<Longrightarrow> sse_feed [] p = (Ok [], p)"
  by (simp add: sse_feed_def sse_waiting_def feed_loop.simps)

lemma waiting_new [simp]: "sse_waiting sse_parser_new"
  by (simp add: sse_waiting_def sse_parser_new_def)

lemma feed_chunks_concat:
  "feed_chunks cs p = (Ok out, q) \<Longrightarrow> sse_waiting p \<Longrightarrow> sse_feed (concat cs) p = (Ok out, q) \<and> sse_waiting q"
proof (induction cs arbitrary: p out)
  case Nil
  then show ?case by (simp add: feed_nothing)
next
  case (Cons c cs)
  from Cons.prems(1) obtain e1 p1 where f: "sse_feed c p = (Ok e1, p1)" "after e1 (feed_chunks cs p1) = (Ok out, q)"
    by (auto split: prod.splits result.splits)
  then obtain e2 where e2: "feed_chunks cs p1 = (Ok e2, q)" "out = e1 @ e2"
    by (auto simp: after_def split: prod.splits result.splits)
  from Cons.IH [OF e2(1) feed_waiting [OF Cons.prems(2) f(1)]] e2(2) feed_append [OF f(1), of "concat cs"]
  show ?case by (simp add: after_def)
qed

section \<open>Events of several data lines\<close>

abbreviation plain_line :: "bytes \<Rightarrow> bool" where
  "plain_line l \<equiv> valid_utf8 l \<and> LF_byte \<notin> set l \<and> CR_byte \<notin> set l"

fun join_lines :: "string list \<Rightarrow> string" where
  "join_lines [] = []"
| "join_lines [l] = l"
| "join_lines (l # ls) = l @ LF_byte # join_lines ls"

definition data_line :: "string \<Rightarrow> bytes" where
  "data_line l = ''data: '' @ l"

lemma find_line_break_LF:
  "LF_byte \<notin> set l \<Longrightarrow> CR_byte \<notin> set l \<Longrightarrow> find_line_break (l @ LF_byte # rest) = Some (length l, Suc (length l))"
  by (induction l) auto

lemma find_line_break_CRLF:
  "LF_byte \<notin> set l \<Longrightarrow> CR_byte \<notin> set l \<Longrightarrow>
   find_line_break (l @ CR_byte # LF_byte # rest) = Some (length l, Suc (Suc (length l)))"
  by (induction l) auto

lemma find_line_break_CR:
  "LF_byte \<notin> set l \<Longrightarrow> CR_byte \<notin> set l \<Longrightarrow> find_line_break (l @ [CR_byte]) = None"
  by (induction l) auto

lemma feed_loop_LF:
  assumes "LF_byte \<notin> set l" "CR_byte \<notin> set l" "length l \<le> MAX_SSE_LINE_BYTES"
    and "feed_line l (p\<lparr> spr_buffer := rest \<rparr>) = (Ok new, p')"
  shows "feed_loop events (p\<lparr> spr_buffer := l @ LF_byte # rest \<rparr>) = feed_loop (events @ new) p'"
  using feed_loop_step(1) [where p = "p\<lparr> spr_buffer := l @ LF_byte # rest \<rparr>" and i = "length l" and j = "Suc (length l)"
      and new = new and p' = p'] assms find_line_break_LF [OF assms(1,2)]
  by simp

lemma valid_utf8_data_line [simp]: "valid_utf8 (data_line l) \<longleftrightarrow> valid_utf8 l"
  unfolding data_line_def by (rule valid_utf8_append) code_simp

definition append_data :: "string \<Rightarrow> string \<Rightarrow> string" where
  "append_data d v = d @ (if d \<noteq> [] then [LF_byte] else []) @ v"

lemma feed_data_line:
  assumes "valid_utf8 l" "length (append_data (spr_current_data p) l) \<le> MAX_SSE_EVENT_BYTES"
  shows "feed_line (data_line l) p =
    (Ok [], p\<lparr> spr_current_data := append_data (spr_current_data p) l, spr_has_event_fields := True \<rparr>)"
  using assms by (cases "spr_current_data p = []"; simp add: feed_line_def process_line_def data_line_def [symmetric])
     (simp_all add: data_line_def append_data_def)

lemma append_data_grows: "length d + length v \<le> length (append_data d v)"
  by (simp add: append_data_def)

lemma foldl_append_data_grows: "length d \<le> length (foldl append_data d ls)"
proof (induction ls arbitrary: d)
  case (Cons l ls)
  from Cons.IH [of "append_data d l"] append_data_grows [of d l] show ?case by simp
qed simp

lemma foldl_append_data:
  "foldl append_data d ls = (if d = [] then join_lines (dropWhile (\<lambda>l. l = []) ls) else join_lines (d # ls))"
proof (induction ls arbitrary: d)
  case (Cons l ls)
  have "join_lines ((d @ LF_byte # l) # ls) = d @ LF_byte # join_lines (l # ls)" by (cases ls) simp_all
  then show ?case using Cons.IH [of "append_data d l"] by (cases "d = []") (simp_all add: append_data_def [of d l] append_data_def [of "[]" l])
qed simp

lemma join_lines_dropWhile: "length (join_lines (dropWhile (\<lambda>l. l = []) ls)) \<le> length (join_lines ls)"
proof (induction ls)
  case (Cons l ls)
  then show ?case by (cases ls) auto
qed simp

lemma feed_data_lines:
  assumes "\<forall>l \<in> set ls. plain_line l" "length (foldl append_data (spr_current_data p) ls) + 6 \<le> MAX_SSE_EVENT_BYTES"
  shows "feed_loop events (p\<lparr> spr_buffer := concat (map (\<lambda>l. data_line l @ [LF_byte]) ls) @ rest \<rparr>) =
    feed_loop events (p\<lparr> spr_buffer := rest, spr_current_data := foldl append_data (spr_current_data p) ls,
      spr_has_event_fields := spr_has_event_fields p \<or> ls \<noteq> [] \<rparr>)"
  using assms
proof (induction ls arbitrary: p)
  case (Cons l ls)
  let ?d = "append_data (spr_current_data p) l" and ?rest = "concat (map (\<lambda>l. data_line l @ [LF_byte]) ls) @ rest"
  let ?q = "p\<lparr> spr_current_data := ?d, spr_has_event_fields := True \<rparr>"
  have l: "plain_line l" using Cons.prems(1) by simp
  have "length ?d + 6 \<le> MAX_SSE_EVENT_BYTES"
    using Cons.prems(2) foldl_append_data_grows [of ?d ls] by simp
  then have d: "length ?d \<le> MAX_SSE_EVENT_BYTES" "length (data_line l) \<le> MAX_SSE_LINE_BYTES"
    using append_data_grows [of "spr_current_data p" l]
    by (simp_all add: data_line_def MAX_SSE_LINE_BYTES_def MAX_SSE_EVENT_BYTES_def)
  have "feed_line (data_line l) (p\<lparr> spr_buffer := ?rest \<rparr>) =
      (Ok [], p\<lparr> spr_buffer := ?rest, spr_current_data := ?d, spr_has_event_fields := True \<rparr>)"
    using feed_data_line [of l "p\<lparr> spr_buffer := ?rest \<rparr>"] l d(1) by simp
  moreover have "LF_byte \<notin> set (data_line l)" "CR_byte \<notin> set (data_line l)"
    using l by (simp_all add: data_line_def)
  ultimately have "feed_loop events (p\<lparr> spr_buffer := data_line l @ LF_byte # ?rest \<rparr>) =
      feed_loop (events @ []) (p\<lparr> spr_buffer := ?rest, spr_current_data := ?d, spr_has_event_fields := True \<rparr>)"
    using d(2) by (intro feed_loop_LF)
  also have "\<dots> = feed_loop events (?q\<lparr> spr_buffer := ?rest \<rparr>)" by (cases p) simp
  finally show ?case using Cons.IH [of ?q] Cons.prems by simp
qed simp


text \<open>One line, however it ends.\<close>

lemma feed_line_ended:
  assumes "LF_byte \<notin> set (spr_buffer p @ c)" "CR_byte \<notin> set (spr_buffer p @ c)"
    and "length (spr_buffer p @ c) \<le> MAX_SSE_LINE_BYTES"
  shows "sse_feed (c @ [LF_byte]) p = feed_line (spr_buffer p @ c) (p\<lparr> spr_buffer := [] \<rparr>)"
    and "sse_feed (c @ [CR_byte, LF_byte]) p = feed_line (spr_buffer p @ c) (p\<lparr> spr_buffer := [] \<rparr>)"
proof -
  let ?l = "spr_buffer p @ c"
  have stop: "feed_loop events q = (Ok events, q)" if "spr_buffer q = []" for events q
    using that by (simp add: feed_loop.simps)
  obtain r q where fl: "feed_line ?l (p\<lparr> spr_buffer := [] \<rparr>) = (r, q)" by fastforce
  then have q: "spr_buffer q = []" using feed_line_rest by blast
  have "find_line_break (spr_buffer p @ c @ [LF_byte]) = Some (length ?l, Suc (length ?l))"
    using find_line_break_LF [OF assms(1,2), of "[]"] by simp
  then show "sse_feed (c @ [LF_byte]) p = feed_line ?l (p\<lparr> spr_buffer := [] \<rparr>)"
    using assms(3) fl stop [OF q] by (subst sse_feed_def, subst feed_loop.simps) (simp split: result.splits)
  have "find_line_break (spr_buffer p @ c @ [CR_byte, LF_byte]) = Some (length ?l, Suc (Suc (length ?l)))"
    using find_line_break_CRLF [OF assms(1,2), of "[]"] by simp
  then show "sse_feed (c @ [CR_byte, LF_byte]) p = feed_line ?l (p\<lparr> spr_buffer := [] \<rparr>)"
    using assms(3) fl stop [OF q] by (subst sse_feed_def, subst feed_loop.simps) (simp split: result.splits)
qed

lemma find_line_break_none: "LF_byte \<notin> set l \<Longrightarrow> CR_byte \<notin> set l \<Longrightarrow> find_line_break l = None"
  by (induction l) auto

lemma feed_held:
  assumes "find_line_break (spr_buffer p @ c) = None"
  shows "sse_feed c p =
    (if length (spr_buffer p @ c) \<le> MAX_SSE_LINE_BYTES then (Ok [], p\<lparr> spr_buffer := spr_buffer p @ c \<rparr>)
     else (Err (SsE_LineTooLong MAX_SSE_LINE_BYTES (length (spr_buffer p @ c))), p\<lparr> spr_buffer := spr_buffer p @ c \<rparr>))"
  using assms by (simp add: sse_feed_def feed_loop.simps)

lemma feed_chunks_one: "feed_chunks [c] p = sse_feed c p"
  by (auto simp: after_def split: prod.splits result.splits)

lemma feed_chunks_held:
  assumes "sse_feed c p = (Ok [], p\<lparr> spr_buffer := spr_buffer p @ c \<rparr>)"
  shows "feed_chunks [c, d] p = sse_feed (c @ d) p"
proof -
  have "after [] r = r" for r by (auto simp: after_def split: prod.splits result.splits)
  moreover have "sse_feed d (p\<lparr> spr_buffer := spr_buffer p @ c \<rparr>) = sse_feed (c @ d) p" by (simp add: sse_feed_def)
  moreover have "feed_chunks [c, d] p = after [] (feed_chunks [d] (p\<lparr> spr_buffer := spr_buffer p @ c \<rparr>))"
    by (simp only: feed_chunks.simps(2) [of c] assms prod.case result.case)
  ultimately show ?thesis by (simp only: feed_chunks_one)
qed

section \<open>Properties\<close>

text \<open> C23. Chunk boundaries do not show: when a stream fed chunk by chunk is accepted, feeding it in one piece gives
  the same events and the same parser, which holds no complete line and at most one line and one event of bytes.\<close>

theorem sse_chunks_invisible:
  assumes "feed_chunks chunks sse_parser_new = (Ok events, p)"
  shows "sse_feed (concat chunks) sse_parser_new = (Ok events, p) \<and> find_line_break (spr_buffer p) = None \<and>
    length (spr_buffer p) \<le> MAX_SSE_LINE_BYTES \<and> length (spr_current_data p) \<le> MAX_SSE_EVENT_BYTES"
  using feed_chunks_concat [OF assms waiting_new] by (simp only: sse_waiting_def)

theorem sse_chunks_invisible_witness:
  "sse_feed (concat [''da'', ''ta: x'' @ [LF_byte], [LF_byte], '': c'']) sse_parser_new =
     (Ok [sse_event_new ''message'' ''x''], sse_parser_new\<lparr> spr_buffer := '': c'' \<rparr>)"
proof -
  have "feed_chunks [''da'', ''ta: x'' @ [LF_byte], [LF_byte], '': c''] sse_parser_new =
      (Ok [sse_event_new ''message'' ''x''], sse_parser_new\<lparr> spr_buffer := '': c'' \<rparr>)"
    by (simp add: sse_feed_def feed_loop.simps sse_parser_new_def feed_line_def process_line_def dispatch_current_def
        after_def sse_event_new_def valid_utf8_ascii MAX_SSE_LINE_BYTES_def MAX_SSE_EVENT_BYTES_def MAX_FRAGMENT_BYTES_def)
  from sse_chunks_invisible [OF this] show ?thesis by (rule conjunct1)
qed

text \<open> An event made of data lines is delivered with these lines joined by newlines, except that leading
  empty lines are lost, and leaves the parser as new.\<close>

theorem sse_data_lines_joined:
  assumes "\<forall>l \<in> set ls. plain_line l" "ls \<noteq> []" "length (join_lines ls) + 6 \<le> MAX_SSE_EVENT_BYTES"
  shows "sse_feed (concat (map (\<lambda>l. data_line l @ [LF_byte]) ls) @ [LF_byte]) sse_parser_new =
    (Ok [sse_event_new ''message'' (join_lines (dropWhile (\<lambda>l. l = []) ls))], sse_parser_new)"
proof -
  let ?d = "join_lines (dropWhile (\<lambda>l. l = []) ls)"
  have d: "foldl append_data (spr_current_data sse_parser_new) ls = ?d"
    by (simp add: foldl_append_data sse_parser_new_def)
  have "length ?d + 6 \<le> MAX_SSE_EVENT_BYTES" using assms(3) join_lines_dropWhile [of ls] by linarith
  then have "sse_feed (concat (map (\<lambda>l. data_line l @ [LF_byte]) ls) @ [LF_byte]) sse_parser_new =
      feed_loop [] (sse_parser_new\<lparr> spr_buffer := [LF_byte], spr_current_data := ?d, spr_has_event_fields := True \<rparr>)"
    using feed_data_lines [OF assms(1), of sse_parser_new "[]" "[LF_byte]"] assms(2)
    unfolding d by (simp add: sse_feed_def) (simp add: sse_parser_new_def)
  also have "\<dots> = (Ok [sse_event_new ''message'' ?d], sse_parser_new)"
    by (simp add: feed_loop.simps feed_line_def dispatch_current_def sse_parser_new_def sse_event_new_def)
  finally show ?thesis .
qed

theorem sse_data_lines_joined_witness:
  "sse_feed (concat (map (\<lambda>l. data_line l @ [LF_byte]) [[], ''a'', [], ''b'']) @ [LF_byte]) sse_parser_new =
    (Ok [sse_event_new ''message'' (''a'' @ [LF_byte, LF_byte] @ ''b'')], sse_parser_new)"
  using sse_data_lines_joined [of "[[], ''a'', [], ''b'']"]
  by (simp add: valid_utf8_ascii MAX_SSE_EVENT_BYTES_def MAX_FRAGMENT_BYTES_def)

text \<open> C24. A line of any kind, in any state of the parser and whatever part of it is already buffered, is handled alike
  when it ends in LF, in LF delivered by the next chunk, or in CR LF in one piece. When the chunk boundary falls between
  CR and LF this still holds for lines shorter than the limit, but a line of exactly the permitted length is always
  refused as too long, with a length that counts the CR.\<close>

theorem sse_crlf_split_refused:
  assumes "LF_byte \<notin> set (spr_buffer p @ c)" "CR_byte \<notin> set (spr_buffer p @ c)"
    and "length (spr_buffer p @ c) \<le> MAX_SSE_LINE_BYTES"
  shows "sse_feed (c @ [CR_byte, LF_byte]) p = sse_feed (c @ [LF_byte]) p \<and>
    feed_chunks [c, [LF_byte]] p = sse_feed (c @ [LF_byte]) p \<and>
    feed_chunks [c @ [CR_byte], [LF_byte]] p =
      (if length (spr_buffer p @ c) < MAX_SSE_LINE_BYTES then sse_feed (c @ [LF_byte]) p
       else (Err (SsE_LineTooLong MAX_SSE_LINE_BYTES (MAX_SSE_LINE_BYTES + 1)),
             p\<lparr> spr_buffer := spr_buffer p @ c @ [CR_byte] \<rparr>))"
proof (intro conjI)
  note ended = feed_line_ended [OF assms]
  show "sse_feed (c @ [CR_byte, LF_byte]) p = sse_feed (c @ [LF_byte]) p" by (simp only: ended)
  have "sse_feed c p = (Ok [], p\<lparr> spr_buffer := spr_buffer p @ c \<rparr>)"
    using feed_held [OF find_line_break_none [OF assms(1,2)]] assms(3) by simp
  then show "feed_chunks [c, [LF_byte]] p = sse_feed (c @ [LF_byte]) p" by (rule feed_chunks_held)
  have cr: "find_line_break (spr_buffer p @ c @ [CR_byte]) = None" using find_line_break_CR [OF assms(1,2)] by simp
  show "feed_chunks [c @ [CR_byte], [LF_byte]] p =
      (if length (spr_buffer p @ c) < MAX_SSE_LINE_BYTES then sse_feed (c @ [LF_byte]) p
       else (Err (SsE_LineTooLong MAX_SSE_LINE_BYTES (MAX_SSE_LINE_BYTES + 1)),
             p\<lparr> spr_buffer := spr_buffer p @ c @ [CR_byte] \<rparr>))"
  proof (cases "length (spr_buffer p @ c) < MAX_SSE_LINE_BYTES")
    case True
    then have "sse_feed (c @ [CR_byte]) p = (Ok [], p\<lparr> spr_buffer := spr_buffer p @ c @ [CR_byte] \<rparr>)"
      using feed_held [OF cr] by simp
    from feed_chunks_held [OF this, of "[LF_byte]"] True show ?thesis by (simp add: ended)
  next
    case False
    with assms(3) have "length (spr_buffer p @ c @ [CR_byte]) = MAX_SSE_LINE_BYTES + 1" by simp
    with feed_held [OF cr] False show ?thesis by simp
  qed
qed

theorem sse_crlf_split_refused_witness:
  "let l = data_line (replicate (MAX_SSE_LINE_BYTES - 6) (CHR ''x''))
   in feed_chunks [l @ [CR_byte], [LF_byte]] sse_parser_new =
        (Err (SsE_LineTooLong MAX_SSE_LINE_BYTES (MAX_SSE_LINE_BYTES + 1)),
         sse_parser_new\<lparr> spr_buffer := l @ [CR_byte] \<rparr>)
      \<and> fst (sse_feed (l @ [CR_byte, LF_byte]) sse_parser_new) = Ok []"
proof -
  define l where "l = data_line (replicate (MAX_SSE_LINE_BYTES - 6) (CHR ''x''))"
  have len: "length l = MAX_SSE_LINE_BYTES"
    by (simp add: l_def data_line_def MAX_SSE_LINE_BYTES_def MAX_FRAGMENT_BYTES_def)
  have l: "LF_byte \<notin> set (spr_buffer sse_parser_new @ l)" "CR_byte \<notin> set (spr_buffer sse_parser_new @ l)"
    "length (spr_buffer sse_parser_new @ l) \<le> MAX_SSE_LINE_BYTES"
    using len by (simp_all add: l_def data_line_def sse_parser_new_def)
  let ?x = "replicate (MAX_SSE_LINE_BYTES - 6) (CHR ''x'')"
  have "valid_utf8 ?x" by (rule valid_utf8_ascii) (simp add: list_all_iff)
  moreover have "length (append_data (spr_current_data sse_parser_new) ?x) \<le> MAX_SSE_EVENT_BYTES"
    by (simp add: append_data_def sse_parser_new_def MAX_SSE_LINE_BYTES_def MAX_SSE_EVENT_BYTES_def)
  ultimately have "fst (feed_line l (sse_parser_new\<lparr> spr_buffer := [] \<rparr>)) = Ok []"
    using feed_data_line [of ?x "sse_parser_new\<lparr> spr_buffer := [] \<rparr>"] by (simp add: l_def)
  moreover have b: "spr_buffer sse_parser_new = []" by (simp add: sse_parser_new_def)
  ultimately have "fst (sse_feed (l @ [LF_byte]) sse_parser_new) = Ok []" using feed_line_ended(1) [OF l] by simp
  with sse_crlf_split_refused [OF l] show ?thesis
    unfolding l_def [symmetric] Let_def b by (simp del: feed_chunks.simps add: len)
qed

end
