(* ===== verification/Control_Manifest.thy ===== *)
theory Control_Manifest
  imports Rust_Parse
begin

text \<open>
  The launch manifest of the control helper (\<open>bitty-ai-control/src/manifest.rs\<close>): the bounded record
  that the parent process hands over, its cursor-based parser, its encoder, its validation, and the
  establishment values that the authenticated peer has to echo.

  A fixed-size array \<open>[u8; N]\<close> is a byte list; \<open>manifest_typed\<close> states the lengths that the Rust types
  carry. The TLS library enters as the parameter \<open>rustls\<close> and the SHA-256 digest as the parameter
  \<open>sha256\<close>. A panic of the encoder is \<^const>\<open>None\<close>.
\<close>

section \<open>Constants and errors\<close>

type_synonym u8 = "8 word"
type_synonym u16 = "16 word"

definition BOOTSTRAP_FORMAT_VERSION :: u16 where
  "BOOTSTRAP_FORMAT_VERSION = 1"

definition CONTROL_PROTOCOL_VERSION :: u16 where
  "CONTROL_PROTOCOL_VERSION = 1"

definition CORE_ROLE :: u8 where
  "CORE_ROLE = 1"

definition HELPER_ROLE :: u8 where
  "HELPER_ROLE = 2"

definition DELEGATION_PURPOSE :: string where
  "DELEGATION_PURPOSE = ''provider-routing-publication''"

definition CONTROL_PROFILE :: string where
  "CONTROL_PROFILE = ''provider-publication-control/1''"

definition KEY_MATERIAL_PROFILE_MUTUAL_CERTIFICATES :: u8 where
  "KEY_MATERIAL_PROFILE_MUTUAL_CERTIFICATES = 1"

definition KEY_TYPE_ECDSA_P256 :: u8 where
  "KEY_TYPE_ECDSA_P256 = 1"

definition CONTROL_BOOTSTRAP_MAX_BYTES :: nat where
  "CONTROL_BOOTSTRAP_MAX_BYTES = 4 * 1024"

definition LAUNCH_CERT_MAX_BYTES :: nat where
  "LAUNCH_CERT_MAX_BYTES = 1024"

definition LAUNCH_KEY_MAX_BYTES :: nat where
  "LAUNCH_KEY_MAX_BYTES = 256"

definition CONTROL_STRING_MAX_BYTES :: nat where
  "CONTROL_STRING_MAX_BYTES = 128"

definition RANDOM_ID_BYTES :: nat where
  "RANDOM_ID_BYTES = 32"

lemmas manifest_constants =
  BOOTSTRAP_FORMAT_VERSION_def CONTROL_PROTOCOL_VERSION_def CORE_ROLE_def HELPER_ROLE_def DELEGATION_PURPOSE_def
  CONTROL_PROFILE_def KEY_MATERIAL_PROFILE_MUTUAL_CERTIFICATES_def KEY_TYPE_ECDSA_P256_def
  CONTROL_BOOTSTRAP_MAX_BYTES_def LAUNCH_CERT_MAX_BYTES_def LAUNCH_KEY_MAX_BYTES_def
  CONTROL_STRING_MAX_BYTES_def RANDOM_ID_BYTES_def

datatype manifest_error =
  ME_TotalTooLarge
| ME_Truncated string
| ME_TrailingBytes
| ME_UnsupportedBootstrapVersion u16
| ME_UnsupportedControlProtocolVersion u16
| ME_UnexpectedCoreRole u8
| ME_UnexpectedHelperRole u8
| ME_FieldTooLarge string nat nat
| ME_EmptyField string
| ME_InvalidUtf8 string
| ME_UnsupportedDelegationPurpose
| ME_UnsupportedControlProfile
| ME_UnsupportedKeyMaterialProfile u8
| ME_UnsupportedKeyType u8
| ME_HelperKeyMismatch
| ME_InvalidHelperKeyMaterial
| ME_HelperKeyNotP256

record launch_key_material =
  km_profile :: u8
  km_key_type :: u8
  km_core_certificate_der :: bytes
  km_helper_certificate_der :: bytes
  km_helper_private_key_pkcs8_der :: bytes

record launch_manifest =
  lm_core_instance_nonce :: bytes
  lm_launch_nonce :: bytes
  lm_component_name :: string
  lm_descriptor_version :: string
  lm_executable_name :: string
  lm_executable_sha256 :: bytes
  lm_component_protocol_version :: u16
  lm_control_channel_nonce :: bytes
  lm_data_channel_nonce :: bytes
  lm_delegation_purpose :: string
  lm_control_profile :: string
  lm_key_material :: launch_key_material

section \<open>The cursor\<close>

record cursor =
  cu_input :: bytes
  cu_offset :: nat

type_synonym 'a cursor_read = "cursor \<Rightarrow> ('a \<times> cursor, manifest_error) result"

definition cursor_new :: "bytes \<Rightarrow> cursor" where
  "cursor_new input = \<lparr> cu_input = input, cu_offset = 0 \<rparr>"

definition cursor_is_empty :: "cursor \<Rightarrow> bool" where
  "cursor_is_empty c \<longleftrightarrow> cu_offset c = length (cu_input c)"

definition cursor_take :: "nat \<Rightarrow> string \<Rightarrow> bytes cursor_read" where
  "cursor_take len field c =
     (if cu_offset c + len > usize_max then Err (ME_Truncated field)
      else if cu_offset c + len > length (cu_input c) then Err (ME_Truncated field)
      else Ok (take len (drop (cu_offset c) (cu_input c)), c\<lparr> cu_offset := cu_offset c + len \<rparr>))"

definition cursor_bind :: "'a cursor_read \<Rightarrow> ('a \<Rightarrow> 'b cursor_read) \<Rightarrow> 'b cursor_read" where
  "cursor_bind p f = (\<lambda>c. and_then (p c) (\<lambda>(x, c'). f x c'))"

definition cursor_return :: "'a \<Rightarrow> 'a cursor_read" where
  "cursor_return x = (\<lambda>c. Ok (x, c))"

definition cursor_require :: "bool \<Rightarrow> manifest_error \<Rightarrow> unit cursor_read" where
  "cursor_require b e = (\<lambda>c. if b then Ok ((), c) else Err e)"

definition cursor_u8 :: "string \<Rightarrow> u8 cursor_read" where
  "cursor_u8 field = cursor_bind (cursor_take 1 field) (\<lambda>bs. cursor_return (of_nat (be_value bs)))"

definition cursor_u16 :: "string \<Rightarrow> u16 cursor_read" where
  "cursor_u16 field = cursor_bind (cursor_take 2 field) (\<lambda>bs. cursor_return (of_nat (be_value bs)))"

definition cursor_u32 :: "string \<Rightarrow> u32 cursor_read" where
  "cursor_u32 field = cursor_bind (cursor_take 4 field) (\<lambda>bs. cursor_return (of_nat (be_value bs)))"

definition cursor_array :: "nat \<Rightarrow> string \<Rightarrow> bytes cursor_read" where
  "cursor_array n field = cursor_take n field"

definition bounded_bytes :: "string \<Rightarrow> nat \<Rightarrow> bytes cursor_read" where
  "bounded_bytes field lim =
     cursor_bind (cursor_u32 field) (\<lambda>len.
     cursor_bind (cursor_require (unat len \<le> lim) (ME_FieldTooLarge field (unat len) lim)) (\<lambda>_.
     cursor_take (unat len) field))"

definition bounded_string :: "string \<Rightarrow> string cursor_read" where
  "bounded_string field =
     cursor_bind (bounded_bytes field CONTROL_STRING_MAX_BYTES) (\<lambda>bs.
     cursor_bind (cursor_require (bs \<noteq> []) (ME_EmptyField field)) (\<lambda>_.
     cursor_bind (cursor_require (valid_utf8 bs) (ME_InvalidUtf8 field)) (\<lambda>_.
     cursor_return bs)))"

section \<open>Validation\<close>

definition validate_string :: "string \<Rightarrow> string \<Rightarrow> (unit, manifest_error) result" where
  "validate_string field value =
     (if value = [] then Err (ME_EmptyField field)
      else if length value > CONTROL_STRING_MAX_BYTES
      then Err (ME_FieldTooLarge field (length value) CONTROL_STRING_MAX_BYTES)
      else Ok ())"

definition validate_bytes :: "string \<Rightarrow> bytes \<Rightarrow> nat \<Rightarrow> (unit, manifest_error) result" where
  "validate_bytes field value lim =
     (if value = [] then Err (ME_EmptyField field)
      else if length value > lim then Err (ME_FieldTooLarge field (length value) lim)
      else Ok ())"

definition validate_non_key :: "launch_manifest \<Rightarrow> (unit, manifest_error) result" where
  "validate_non_key m =
     and_then (validate_string ''component_name'' (lm_component_name m)) (\<lambda>_.
     and_then (validate_string ''descriptor_version'' (lm_descriptor_version m)) (\<lambda>_.
     and_then (validate_string ''executable_name'' (lm_executable_name m)) (\<lambda>_.
     and_then (validate_string ''delegation_purpose'' (lm_delegation_purpose m)) (\<lambda>_.
     and_then (validate_string ''control_profile'' (lm_control_profile m)) (\<lambda>_.
     if lm_delegation_purpose m \<noteq> DELEGATION_PURPOSE then Err ME_UnsupportedDelegationPurpose
     else if lm_control_profile m \<noteq> CONTROL_PROFILE then Err ME_UnsupportedControlProfile
     else let k = lm_key_material m in
     if km_profile k \<noteq> KEY_MATERIAL_PROFILE_MUTUAL_CERTIFICATES
     then Err (ME_UnsupportedKeyMaterialProfile (km_profile k))
     else if km_key_type k \<noteq> KEY_TYPE_ECDSA_P256 then Err (ME_UnsupportedKeyType (km_key_type k))
     else
     and_then (validate_bytes ''core_certificate_der'' (km_core_certificate_der k) LAUNCH_CERT_MAX_BYTES) (\<lambda>_.
     and_then (validate_bytes ''helper_certificate_der'' (km_helper_certificate_der k) LAUNCH_CERT_MAX_BYTES) (\<lambda>_.
     validate_bytes ''helper_private_key_pkcs8_der'' (km_helper_private_key_pkcs8_der k) LAUNCH_KEY_MAX_BYTES)))))))"

text \<open>What the code uses of the TLS library: a certified key from a certificate and a PKCS8 key, the check
  that the two match, and whether the key signs with ECDSA on P-256.\<close>

datatype rustls_error = RlE_KeyMismatch | RlE_InconsistentOther | RlE_Other

record 'k rustls =
  rl_from_der :: "bytes \<Rightarrow> bytes \<Rightarrow> ('k, rustls_error) result"
  rl_keys_match :: "'k \<Rightarrow> (unit, rustls_error) result"
  rl_chooses_p256 :: "'k \<Rightarrow> bool"

definition validated_helper_key :: "'k rustls \<Rightarrow> launch_manifest \<Rightarrow> ('k, manifest_error) result" where
  "validated_helper_key tls m =
     (case rl_from_der tls (km_helper_certificate_der (lm_key_material m))
             (km_helper_private_key_pkcs8_der (lm_key_material m)) of
        Err e \<Rightarrow> Err (if e = RlE_Other then ME_InvalidHelperKeyMaterial else ME_HelperKeyMismatch)
      | Ok certified \<Rightarrow>
          (case rl_keys_match tls certified of
             Err e \<Rightarrow> Err (if e = RlE_KeyMismatch then ME_HelperKeyMismatch else ME_InvalidHelperKeyMaterial)
           | Ok _ \<Rightarrow> if rl_chooses_p256 tls certified then Ok certified else Err ME_HelperKeyNotP256))"

definition manifest_validate :: "'k rustls \<Rightarrow> launch_manifest \<Rightarrow> (unit, manifest_error) result" where
  "manifest_validate tls m =
     and_then (validate_non_key m) (\<lambda>_. and_then (validated_helper_key tls m) (\<lambda>_. Ok ()))"

section \<open>Parsing and encoding\<close>

definition parse_fields :: "launch_manifest cursor_read" where
  "parse_fields =
     cursor_bind (cursor_u16 ''bootstrap_format_version'') (\<lambda>bootstrap.
     cursor_bind (cursor_require (bootstrap = BOOTSTRAP_FORMAT_VERSION) (ME_UnsupportedBootstrapVersion bootstrap)) (\<lambda>_.
     cursor_bind (cursor_u16 ''control_protocol_version'') (\<lambda>control.
     cursor_bind (cursor_require (control = CONTROL_PROTOCOL_VERSION) (ME_UnsupportedControlProtocolVersion control)) (\<lambda>_.
     cursor_bind (cursor_u8 ''core_role'') (\<lambda>core_role.
     cursor_bind (cursor_require (core_role = CORE_ROLE) (ME_UnexpectedCoreRole core_role)) (\<lambda>_.
     cursor_bind (cursor_u8 ''helper_role'') (\<lambda>helper_role.
     cursor_bind (cursor_require (helper_role = HELPER_ROLE) (ME_UnexpectedHelperRole helper_role)) (\<lambda>_.
     cursor_bind (cursor_array RANDOM_ID_BYTES ''core_instance_nonce'') (\<lambda>core_nonce.
     cursor_bind (cursor_array RANDOM_ID_BYTES ''launch_nonce'') (\<lambda>launch_nonce.
     cursor_bind (bounded_string ''component_name'') (\<lambda>component.
     cursor_bind (bounded_string ''descriptor_version'') (\<lambda>descriptor.
     cursor_bind (bounded_string ''executable_name'') (\<lambda>executable.
     cursor_bind (cursor_array 32 ''executable_sha256'') (\<lambda>sha.
     cursor_bind (cursor_u16 ''component_protocol_version'') (\<lambda>component_protocol.
     cursor_bind (cursor_array RANDOM_ID_BYTES ''control_channel_nonce'') (\<lambda>control_nonce.
     cursor_bind (cursor_array RANDOM_ID_BYTES ''data_channel_nonce'') (\<lambda>data_nonce.
     cursor_bind (bounded_string ''delegation_purpose'') (\<lambda>purpose.
     cursor_bind (bounded_string ''control_profile'') (\<lambda>profile.
     cursor_bind (cursor_u8 ''key_material_profile'') (\<lambda>key_profile.
     cursor_bind (cursor_require (key_profile = KEY_MATERIAL_PROFILE_MUTUAL_CERTIFICATES)
       (ME_UnsupportedKeyMaterialProfile key_profile)) (\<lambda>_.
     cursor_bind (cursor_u8 ''key_type'') (\<lambda>key_type.
     cursor_bind (cursor_require (key_type = KEY_TYPE_ECDSA_P256) (ME_UnsupportedKeyType key_type)) (\<lambda>_.
     cursor_bind (bounded_bytes ''core_certificate_der'' LAUNCH_CERT_MAX_BYTES) (\<lambda>core_cert.
     cursor_bind (bounded_bytes ''helper_certificate_der'' LAUNCH_CERT_MAX_BYTES) (\<lambda>helper_cert.
     cursor_bind (bounded_bytes ''helper_private_key_pkcs8_der'' LAUNCH_KEY_MAX_BYTES) (\<lambda>helper_key.
     cursor_return
       \<lparr> lm_core_instance_nonce = core_nonce, lm_launch_nonce = launch_nonce, lm_component_name = component,
         lm_descriptor_version = descriptor, lm_executable_name = executable, lm_executable_sha256 = sha,
         lm_component_protocol_version = component_protocol, lm_control_channel_nonce = control_nonce,
         lm_data_channel_nonce = data_nonce, lm_delegation_purpose = purpose, lm_control_profile = profile,
         lm_key_material =
           \<lparr> km_profile = key_profile, km_key_type = key_type, km_core_certificate_der = core_cert,
             km_helper_certificate_der = helper_cert, km_helper_private_key_pkcs8_der = helper_key \<rparr>
       \<rparr>))))))))))))))))))))))))))"

definition manifest_parse :: "'k rustls \<Rightarrow> bytes \<Rightarrow> (launch_manifest, manifest_error) result" where
  "manifest_parse tls bs =
     (if length bs > CONTROL_BOOTSTRAP_MAX_BYTES then Err ME_TotalTooLarge
      else and_then (parse_fields (cursor_new bs)) (\<lambda>(m, c).
        if \<not> cursor_is_empty c then Err ME_TrailingBytes
        else and_then (manifest_validate tls m) (\<lambda>_. Ok m)))"

text \<open>\<open>write_string\<close> and \<open>write_bytes\<close> append the same bytes and panic on a length beyond \<open>u32\<close>.\<close>

definition write_bytes :: "bytes \<Rightarrow> bytes option" where
  "write_bytes value = (if length value < 2 ^ 32 then Some (be_bytes 4 (length value) @ value) else None)"

fun concat_written :: "bytes option list \<Rightarrow> bytes option" where
  "concat_written [] = Some []"
| "concat_written (None # ws) = None"
| "concat_written (Some bs # ws) = map_option ((@) bs) (concat_written ws)"

definition manifest_encode :: "launch_manifest \<Rightarrow> bytes option" where
  "manifest_encode m =
     (let k = lm_key_material m in concat_written
       [Some (be_bytes 2 (unat BOOTSTRAP_FORMAT_VERSION)), Some (be_bytes 2 (unat CONTROL_PROTOCOL_VERSION)),
        Some (be_bytes 1 (unat CORE_ROLE)), Some (be_bytes 1 (unat HELPER_ROLE)),
        Some (lm_core_instance_nonce m), Some (lm_launch_nonce m),
        write_bytes (lm_component_name m), write_bytes (lm_descriptor_version m), write_bytes (lm_executable_name m),
        Some (lm_executable_sha256 m), Some (be_bytes 2 (unat (lm_component_protocol_version m))),
        Some (lm_control_channel_nonce m), Some (lm_data_channel_nonce m),
        write_bytes (lm_delegation_purpose m), write_bytes (lm_control_profile m),
        Some (be_bytes 1 (unat (km_profile k))), Some (be_bytes 1 (unat (km_key_type k))),
        write_bytes (km_core_certificate_der k), write_bytes (km_helper_certificate_der k),
        write_bytes (km_helper_private_key_pkcs8_der k)])"

text \<open>A reader fills a buffer of the given length or fails; an empty read is the end of the input.\<close>

datatype io_error = IoE_Interrupted | IoE_Other string

type_synonym 'w io_read = "nat \<Rightarrow> 'w \<Rightarrow> (bytes, io_error) result \<times> 'w"

datatype manifest_read_error = MRE_Io io_error | MRE_Manifest manifest_error

function read_chunks :: "'w io_read \<Rightarrow> bytes \<Rightarrow> 'w \<Rightarrow> (bytes, manifest_read_error) result \<times> 'w" where
  "read_chunks read buffer w =
     (case read 512 w of
        (Err e, w') \<Rightarrow> (Err (MRE_Io e), w')
      | (Ok chunk, w') \<Rightarrow>
          if chunk = [] then (Ok buffer, w')
          else if length buffer + length chunk > CONTROL_BOOTSTRAP_MAX_BYTES
          then (Err (MRE_Manifest ME_TotalTooLarge), w')
          else read_chunks read (buffer @ chunk) w')"
  by pat_completeness auto
termination
proof (relation "measure (\<lambda>(_, buffer, _). CONTROL_BOOTSTRAP_MAX_BYTES - length buffer)", goal_cases)
  case (2 read buffer w r w' chunk)
  then have "length buffer < length buffer + length chunk" "length buffer + length chunk \<le> CONTROL_BOOTSTRAP_MAX_BYTES"
    by simp_all
  then have "CONTROL_BOOTSTRAP_MAX_BYTES - (length buffer + length chunk) < CONTROL_BOOTSTRAP_MAX_BYTES - length buffer"
    by linarith
  then show ?case by simp
qed simp

declare read_chunks.simps [simp del]

definition manifest_read_from ::
  "'k rustls \<Rightarrow> 'w io_read \<Rightarrow> 'w \<Rightarrow> (launch_manifest, manifest_read_error) result \<times> 'w" where
  "manifest_read_from tls read w =
     (case read_chunks read [] w of
        (Err e, w') \<Rightarrow> (Err e, w')
      | (Ok buffer, w') \<Rightarrow> (map_err MRE_Manifest (manifest_parse tls buffer), w'))"

section \<open>Establishment\<close>

text \<open>The echo is a record of the protocol crate; the expectations have the same fields.\<close>

record establishment_echo =
  ee_bootstrap_format_version :: u16
  ee_control_protocol_version :: u16
  ee_core_instance_nonce :: bytes
  ee_launch_nonce :: bytes
  ee_component_name :: string
  ee_descriptor_version :: string
  ee_executable_name :: string
  ee_executable_sha256 :: bytes
  ee_component_protocol_version :: u16
  ee_control_channel_nonce :: bytes
  ee_data_channel_nonce :: bytes
  ee_delegation_purpose :: string
  ee_control_profile :: string
  ee_key_material_profile :: u8
  ee_key_type :: u8
  ee_core_leaf_digest :: bytes
  ee_helper_leaf_digest :: bytes

record establishment_expectations =
  ex_bootstrap_format_version :: u16
  ex_control_protocol_version :: u16
  ex_core_instance_nonce :: bytes
  ex_launch_nonce :: bytes
  ex_component_name :: string
  ex_descriptor_version :: string
  ex_executable_name :: string
  ex_executable_sha256 :: bytes
  ex_component_protocol_version :: u16
  ex_control_channel_nonce :: bytes
  ex_data_channel_nonce :: bytes
  ex_delegation_purpose :: string
  ex_control_profile :: string
  ex_key_material_profile :: u8
  ex_key_type :: u8
  ex_core_leaf_digest :: bytes
  ex_helper_leaf_digest :: bytes

definition expectations_from_manifest :: "(bytes \<Rightarrow> bytes) \<Rightarrow> launch_manifest \<Rightarrow> establishment_expectations" where
  "expectations_from_manifest sha256 m =
     \<lparr> ex_bootstrap_format_version = BOOTSTRAP_FORMAT_VERSION,
       ex_control_protocol_version = CONTROL_PROTOCOL_VERSION,
       ex_core_instance_nonce = lm_core_instance_nonce m,
       ex_launch_nonce = lm_launch_nonce m,
       ex_component_name = lm_component_name m,
       ex_descriptor_version = lm_descriptor_version m,
       ex_executable_name = lm_executable_name m,
       ex_executable_sha256 = lm_executable_sha256 m,
       ex_component_protocol_version = lm_component_protocol_version m,
       ex_control_channel_nonce = lm_control_channel_nonce m,
       ex_data_channel_nonce = lm_data_channel_nonce m,
       ex_delegation_purpose = lm_delegation_purpose m,
       ex_control_profile = lm_control_profile m,
       ex_key_material_profile = km_profile (lm_key_material m),
       ex_key_type = km_key_type (lm_key_material m),
       ex_core_leaf_digest = sha256 (km_core_certificate_der (lm_key_material m)),
       ex_helper_leaf_digest = sha256 (km_helper_certificate_der (lm_key_material m)) \<rparr>"

definition expectations_verify :: "establishment_expectations \<Rightarrow> establishment_echo \<Rightarrow> (unit, string) result" where
  "expectations_verify e echo =
     (if ee_bootstrap_format_version echo \<noteq> ex_bootstrap_format_version e then Err ''bootstrap_format_version''
      else if ee_control_protocol_version echo \<noteq> ex_control_protocol_version e then Err ''control_protocol_version''
      else if ee_core_instance_nonce echo \<noteq> ex_core_instance_nonce e then Err ''core_instance_nonce''
      else if ee_launch_nonce echo \<noteq> ex_launch_nonce e then Err ''launch_nonce''
      else if ee_component_name echo \<noteq> ex_component_name e then Err ''component_name''
      else if ee_descriptor_version echo \<noteq> ex_descriptor_version e then Err ''descriptor_version''
      else if ee_executable_name echo \<noteq> ex_executable_name e then Err ''executable_name''
      else if ee_executable_sha256 echo \<noteq> ex_executable_sha256 e then Err ''executable_sha256''
      else if ee_component_protocol_version echo \<noteq> ex_component_protocol_version e then Err ''component_protocol_version''
      else if ee_control_channel_nonce echo \<noteq> ex_control_channel_nonce e then Err ''control_channel_nonce''
      else if ee_data_channel_nonce echo \<noteq> ex_data_channel_nonce e then Err ''data_channel_nonce''
      else if ee_delegation_purpose echo \<noteq> ex_delegation_purpose e then Err ''delegation_purpose''
      else if ee_control_profile echo \<noteq> ex_control_profile e then Err ''control_profile''
      else if ee_key_material_profile echo \<noteq> ex_key_material_profile e then Err ''key_material_profile''
      else if ee_key_type echo \<noteq> ex_key_type e then Err ''key_type''
      else if ee_core_leaf_digest echo \<noteq> ex_core_leaf_digest e then Err ''core_leaf_digest''
      else if ee_helper_leaf_digest echo \<noteq> ex_helper_leaf_digest e then Err ''helper_leaf_digest''
      else Ok ())"

section \<open>Codecs\<close>

text \<open>A cursor that has consumed \<open>pre\<close> and has \<open>rest\<close> left.\<close>

definition cursor_at :: "bytes \<Rightarrow> bytes \<Rightarrow> cursor" where
  "cursor_at pre rest = \<lparr> cu_input = pre @ rest, cu_offset = length pre \<rparr>"

text \<open>The interface of a field: what \<open>rd\<close> accepts is exactly what \<open>enc\<close> writes of an acceptable value, and it
  reads that back from any input that fits into memory.\<close>

locale field_codec =
  fixes rd :: "'a cursor_read" and enc :: "'a \<Rightarrow> bytes" and acceptable :: "'a \<Rightarrow> bool"
  assumes rd_ok: "rd (cursor_at pre s) = Ok (x, c) \<Longrightarrow>
      acceptable x \<and> (\<exists>rest. s = enc x @ rest \<and> c = cursor_at (pre @ enc x) rest)"
    and rd_enc: "acceptable x \<Longrightarrow> length pre + length (enc x @ rest) \<le> usize_max \<Longrightarrow>
      rd (cursor_at pre (enc x @ rest)) = Ok (x, cursor_at (pre @ enc x) rest)"
begin

lemma bind_okE:
  assumes "cursor_bind rd f (cursor_at pre s) = Ok (y, c)"
  obtains x rest where "acceptable x" "s = enc x @ rest" "f x (cursor_at (pre @ enc x) rest) = Ok (y, c)"
proof -
  from assms obtain x c' where "rd (cursor_at pre s) = Ok (x, c')" "f x c' = Ok (y, c)"
    by (auto simp: cursor_bind_def result_simps)
  with rd_ok [OF this(1)] that show thesis by blast
qed

lemma bind_enc:
  assumes "acceptable x" "length pre + length (enc x @ rest) \<le> usize_max"
  shows "cursor_bind rd f (cursor_at pre (enc x @ rest)) = f x (cursor_at (pre @ enc x) rest)"
  using rd_enc [OF assms] by (simp add: cursor_bind_def)

end

interpretation codec_array: field_codec "cursor_array n field" "\<lambda>x. x" "\<lambda>x. length x = n" for n field
proof
  fix pre s x c
  assume "cursor_array n field (cursor_at pre s) = Ok (x, c)"
  then have "n \<le> length s" "x = take n s" "c = cursor_at (pre @ take n s) (drop n s)"
    by (auto simp: cursor_array_def cursor_take_def cursor_at_def split: if_splits)
  then show "length x = n \<and> (\<exists>rest. s = x @ rest \<and> c = cursor_at (pre @ x) rest)"
    by (metis append_take_drop_id length_take min_absorb2)
qed (auto simp: cursor_array_def cursor_take_def cursor_at_def)

lemma cursor_take_array: "cursor_take n field = cursor_array n field"
  by (rule ext) (simp add: cursor_array_def)

text \<open>The three widths of integers share one argument: \<open>k\<close> big-endian bytes are a number below \<open>256 ^ k\<close>.\<close>

lemma cursor_uint_codec:
  assumes "LENGTH('l::len) = 8 * k"
  shows "field_codec (cursor_bind (cursor_take k field) (\<lambda>bs. cursor_return (of_nat (be_value bs) :: 'l word)))
    (\<lambda>v. be_bytes k (unat v)) (\<lambda>_. True)"
proof
  have pow: "(256::nat) ^ k = 2 ^ LENGTH('l)" unfolding assms by (simp add: power_mult)
  fix pre s :: bytes and c and v :: "'l word"
  assume "cursor_bind (cursor_take k field) (\<lambda>bs. cursor_return (of_nat (be_value bs))) (cursor_at pre s) = Ok (v, c)"
  then obtain bs rest where bs: "length bs = k" "s = bs @ rest"
    "cursor_return (of_nat (be_value bs)) (cursor_at (pre @ bs) rest) = Ok (v, c)"
    unfolding cursor_take_array by (rule codec_array.bind_okE)
  have "be_value bs < 256 ^ k" using le_value_bound [of "rev bs"] bs(1) by (simp add: be_value_def)
  then have "unat (of_nat (be_value bs) :: 'l word) = be_value bs"
    unfolding pow by (simp add: unat_of_nat take_bit_nat_eq_self)
  then have "be_bytes k (unat v) = bs" "c = cursor_at (pre @ bs) rest"
    using bs be_bytes_value [of bs] by (auto simp: cursor_return_def)
  with bs show "True \<and> (\<exists>rest. s = be_bytes k (unat v) @ rest \<and> c = cursor_at (pre @ be_bytes k (unat v)) rest)"
    by auto
next
  have pow: "(256::nat) ^ k = 2 ^ LENGTH('l)" unfolding assms by (simp add: power_mult)
  fix pre rest :: bytes and v :: "'l word"
  assume "length pre + length (be_bytes k (unat v) @ rest) \<le> usize_max"
  moreover have "unat v < 256 ^ k" unfolding pow by (rule unsigned_less)
  ultimately show "cursor_bind (cursor_take k field) (\<lambda>bs. cursor_return (of_nat (be_value bs)))
      (cursor_at pre (be_bytes k (unat v) @ rest)) = Ok (v, cursor_at (pre @ be_bytes k (unat v)) rest)"
    unfolding cursor_take_array by (subst codec_array.bind_enc) (simp_all add: cursor_return_def be_value_bytes)
qed

interpretation codec_u8: field_codec "cursor_u8 field" "\<lambda>v. be_bytes 1 (unat v)" "\<lambda>_. True" for field
  unfolding cursor_u8_def by (rule cursor_uint_codec) simp

interpretation codec_u16: field_codec "cursor_u16 field" "\<lambda>v. be_bytes 2 (unat v)" "\<lambda>_. True" for field
  unfolding cursor_u16_def by (rule cursor_uint_codec) simp

interpretation codec_u32: field_codec "cursor_u32 field" "\<lambda>v. be_bytes 4 (unat v)" "\<lambda>_. True" for field
  unfolding cursor_u32_def by (rule cursor_uint_codec) simp

abbreviation counted :: "bytes \<Rightarrow> bytes" where
  "counted v \<equiv> be_bytes 4 (length v) @ v"

lemma require_bind [simp]:
  "cursor_bind (cursor_require b e) f c = (if b then f () c else Err e)"
  by (simp add: cursor_bind_def cursor_require_def)

lemma bounded_bytes_codec:
  assumes "lim < 2 ^ 32"
  shows "field_codec (bounded_bytes field lim) counted (\<lambda>v. length v \<le> lim)"
proof
  fix pre s v :: bytes and c
  assume "bounded_bytes field lim (cursor_at pre s) = Ok (v, c)"
  then obtain n :: u32 and rest where n: "s = be_bytes 4 (unat n) @ rest" "unat n \<le> lim"
    "cursor_array (unat n) field (cursor_at (pre @ be_bytes 4 (unat n)) rest) = Ok (v, c)"
    unfolding bounded_bytes_def cursor_take_array
    by (elim codec_u32.bind_okE) (simp split: if_splits)
  from codec_array.rd_ok [OF n(3)] n
  show "length v \<le> lim \<and> (\<exists>rest. s = counted v @ rest \<and> c = cursor_at (pre @ counted v) rest)" by auto
next
  fix pre rest v :: bytes
  assume v: "length v \<le> lim" and len: "length pre + length (counted v @ rest) \<le> usize_max"
  define n :: u32 where "n = of_nat (length v)"
  have n: "unat n = length v" using v assms by (simp add: n_def unat_of_nat take_bit_nat_eq_self)
  have "bounded_bytes field lim (cursor_at pre (be_bytes 4 (unat n) @ v @ rest)) =
      Ok (v, cursor_at (pre @ be_bytes 4 (unat n) @ v) rest)"
    unfolding bounded_bytes_def cursor_take_array
    using v len n by (subst codec_u32.bind_enc) (simp_all add: codec_array.rd_enc)
  then show "bounded_bytes field lim (cursor_at pre (counted v @ rest)) = Ok (v, cursor_at (pre @ counted v) rest)"
    using n by simp
qed

interpretation codec_cert: field_codec "bounded_bytes field LAUNCH_CERT_MAX_BYTES" counted
    "\<lambda>v. length v \<le> LAUNCH_CERT_MAX_BYTES" for field
  by (rule bounded_bytes_codec) (simp add: LAUNCH_CERT_MAX_BYTES_def)

interpretation codec_key: field_codec "bounded_bytes field LAUNCH_KEY_MAX_BYTES" counted
    "\<lambda>v. length v \<le> LAUNCH_KEY_MAX_BYTES" for field
  by (rule bounded_bytes_codec) (simp add: LAUNCH_KEY_MAX_BYTES_def)

interpretation codec_name: field_codec "bounded_bytes field CONTROL_STRING_MAX_BYTES" counted
    "\<lambda>v. length v \<le> CONTROL_STRING_MAX_BYTES" for field
  by (rule bounded_bytes_codec) (simp add: CONTROL_STRING_MAX_BYTES_def)

definition name_ok :: "string \<Rightarrow> bool" where
  "name_ok s \<longleftrightarrow> s \<noteq> [] \<and> length s \<le> CONTROL_STRING_MAX_BYTES \<and> valid_utf8 s"

interpretation codec_string: field_codec "bounded_string field" counted name_ok for field
proof
  fix pre s x c
  assume "bounded_string field (cursor_at pre s) = Ok (x, c)"
  then show "name_ok x \<and> (\<exists>rest. s = counted x @ rest \<and> c = cursor_at (pre @ counted x) rest)"
    unfolding bounded_string_def
    by (elim codec_name.bind_okE) (auto simp: name_ok_def cursor_return_def split: if_splits)
next
  fix x pre rest :: bytes
  assume "name_ok x" "length pre + length (counted x @ rest) \<le> usize_max"
  then show "bounded_string field (cursor_at pre (counted x @ rest)) = Ok (x, cursor_at (pre @ counted x) rest)"
    unfolding bounded_string_def
    by (subst codec_name.bind_enc) (simp_all add: name_ok_def cursor_return_def)
qed

section \<open>The manifest\<close>

text \<open>The lengths that the Rust types carry, and that strings are UTF-8.\<close>

definition manifest_typed :: "launch_manifest \<Rightarrow> bool" where
  "manifest_typed m \<longleftrightarrow>
     length (lm_core_instance_nonce m) = RANDOM_ID_BYTES \<and> length (lm_launch_nonce m) = RANDOM_ID_BYTES \<and>
     length (lm_executable_sha256 m) = 32 \<and> length (lm_control_channel_nonce m) = RANDOM_ID_BYTES \<and>
     length (lm_data_channel_nonce m) = RANDOM_ID_BYTES \<and> valid_utf8 (lm_component_name m) \<and>
     valid_utf8 (lm_descriptor_version m) \<and> valid_utf8 (lm_executable_name m) \<and>
     valid_utf8 (lm_delegation_purpose m) \<and> valid_utf8 (lm_control_profile m)"

definition fields_ok :: "launch_manifest \<Rightarrow> bool" where
  "fields_ok m \<longleftrightarrow>
     length (lm_core_instance_nonce m) = RANDOM_ID_BYTES \<and> length (lm_launch_nonce m) = RANDOM_ID_BYTES \<and>
     length (lm_executable_sha256 m) = 32 \<and> length (lm_control_channel_nonce m) = RANDOM_ID_BYTES \<and>
     length (lm_data_channel_nonce m) = RANDOM_ID_BYTES \<and> name_ok (lm_component_name m) \<and>
     name_ok (lm_descriptor_version m) \<and> name_ok (lm_executable_name m) \<and>
     name_ok (lm_delegation_purpose m) \<and> name_ok (lm_control_profile m) \<and>
     km_profile (lm_key_material m) = KEY_MATERIAL_PROFILE_MUTUAL_CERTIFICATES \<and>
     km_key_type (lm_key_material m) = KEY_TYPE_ECDSA_P256 \<and>
     length (km_core_certificate_der (lm_key_material m)) \<le> LAUNCH_CERT_MAX_BYTES \<and>
     length (km_helper_certificate_der (lm_key_material m)) \<le> LAUNCH_CERT_MAX_BYTES \<and>
     length (km_helper_private_key_pkcs8_der (lm_key_material m)) \<le> LAUNCH_KEY_MAX_BYTES"

definition manifest_bytes :: "launch_manifest \<Rightarrow> bytes" where
  "manifest_bytes m =
     be_bytes 2 (unat BOOTSTRAP_FORMAT_VERSION) @ be_bytes 2 (unat CONTROL_PROTOCOL_VERSION) @
     be_bytes 1 (unat CORE_ROLE) @ be_bytes 1 (unat HELPER_ROLE) @
     lm_core_instance_nonce m @ lm_launch_nonce m @ counted (lm_component_name m) @
     counted (lm_descriptor_version m) @ counted (lm_executable_name m) @ lm_executable_sha256 m @
     be_bytes 2 (unat (lm_component_protocol_version m)) @ lm_control_channel_nonce m @ lm_data_channel_nonce m @
     counted (lm_delegation_purpose m) @ counted (lm_control_profile m) @
     be_bytes 1 (unat (km_profile (lm_key_material m))) @ be_bytes 1 (unat (km_key_type (lm_key_material m))) @
     counted (km_core_certificate_der (lm_key_material m)) @ counted (km_helper_certificate_der (lm_key_material m)) @
     counted (km_helper_private_key_pkcs8_der (lm_key_material m))"

lemmas codec_enc = codec_u8.bind_enc [unfolded One_nat_def] codec_u16.bind_enc codec_array.bind_enc
  codec_string.bind_enc [unfolded append_assoc] codec_cert.bind_enc [unfolded append_assoc]
  codec_key.bind_enc [unfolded append_assoc]

lemmas codec_okE = codec_u8.bind_okE codec_u16.bind_okE codec_array.bind_okE codec_string.bind_okE
  codec_cert.bind_okE codec_key.bind_okE

lemma require_okE:
  assumes "cursor_bind (cursor_require b e) f c = Ok r"
  obtains "b" "f () c = Ok r"
  using assms by (simp split: if_splits)

interpretation codec_manifest: field_codec parse_fields manifest_bytes fields_ok
proof
  fix pre s m c
  assume "parse_fields (cursor_at pre s) = Ok (m, c)"
  then show "fields_ok m \<and> (\<exists>rest. s = manifest_bytes m @ rest \<and> c = cursor_at (pre @ manifest_bytes m) rest)"
    unfolding parse_fields_def
    by (elim codec_okE require_okE) (auto simp: cursor_return_def fields_ok_def manifest_bytes_def)
next
  fix m and pre rest :: bytes
  assume "fields_ok m" "length pre + length (manifest_bytes m @ rest) \<le> usize_max"
  then show "parse_fields (cursor_at pre (manifest_bytes m @ rest)) = Ok (m, cursor_at (pre @ manifest_bytes m) rest)"
    unfolding parse_fields_def manifest_bytes_def fields_ok_def
    by (simp add: codec_enc cursor_return_def)
qed

lemma manifest_encode_bytes: "fields_ok m \<Longrightarrow> manifest_encode m = Some (manifest_bytes m)"
  by (simp add: manifest_encode_def Let_def write_bytes_def manifest_bytes_def fields_ok_def name_ok_def manifest_constants)

lemma length_manifest_bytes: "fields_ok m \<Longrightarrow> length (manifest_bytes m) \<le> CONTROL_BOOTSTRAP_MAX_BYTES"
  by (simp add: manifest_bytes_def fields_ok_def name_ok_def manifest_constants)

lemma validate_string_Ok_iff:
  "validate_string field v = Ok () \<longleftrightarrow> v \<noteq> [] \<and> length v \<le> CONTROL_STRING_MAX_BYTES"
  by (simp add: validate_string_def)

lemma validate_bytes_Ok_iff: "validate_bytes field v lim = Ok () \<longleftrightarrow> v \<noteq> [] \<and> length v \<le> lim"
  by (simp add: validate_bytes_def)

lemma validated_fields_ok: "manifest_typed m \<Longrightarrow> validate_non_key m = Ok () \<Longrightarrow> fields_ok m"
  by (auto simp: manifest_typed_def validate_non_key_def fields_ok_def name_ok_def result_simps Let_def
      validate_string_Ok_iff validate_bytes_Ok_iff split: if_splits)

lemma fields_ok_typed: "fields_ok m \<Longrightarrow> manifest_typed m"
  by (simp add: manifest_typed_def fields_ok_def name_ok_def)

lemma cursor_new_at: "cursor_new bs = cursor_at [] bs"
  by (simp add: cursor_new_def cursor_at_def)

lemma cursor_at_empty [simp]: "cursor_is_empty (cursor_at pre rest) \<longleftrightarrow> rest = []"
  by (simp add: cursor_is_empty_def cursor_at_def)

section \<open>Properties\<close>

text \<open> C28. The parser accepts exactly the encodings of well-typed manifests that pass validation, and returns the
  encoded manifest.\<close>

theorem manifest_parse_exact:
  "manifest_parse tls bs = Ok m \<longleftrightarrow>
     manifest_typed m \<and> manifest_validate tls m = Ok () \<and> manifest_encode m = Some bs"
proof
  assume ok: "manifest_parse tls bs = Ok m"
  then obtain c where c: "parse_fields (cursor_at [] bs) = Ok (m, c)" "cursor_is_empty c" "manifest_validate tls m = Ok ()"
    by (auto simp: manifest_parse_def cursor_new_at result_simps split: if_splits)
  from codec_manifest.rd_ok [OF c(1)] obtain rest where
    f: "fields_ok m" "bs = manifest_bytes m @ rest" "c = cursor_at (manifest_bytes m) rest" by auto
  with c show "manifest_typed m \<and> manifest_validate tls m = Ok () \<and> manifest_encode m = Some bs"
    by (simp add: fields_ok_typed manifest_encode_bytes)
next
  assume m: "manifest_typed m \<and> manifest_validate tls m = Ok () \<and> manifest_encode m = Some bs"
  then have "validate_non_key m = Ok ()" by (simp add: manifest_validate_def result_simps)
  with m have f: "fields_ok m" by (simp add: validated_fields_ok)
  with m have bs: "bs = manifest_bytes m" by (simp add: manifest_encode_bytes)
  have "length bs \<le> CONTROL_BOOTSTRAP_MAX_BYTES" using length_manifest_bytes [OF f] bs by simp
  moreover from this have "parse_fields (cursor_at [] bs) = Ok (m, cursor_at bs [])"
    using codec_manifest.rd_enc [OF f, of "[]" "[]"] bs by (simp add: manifest_constants usize_max_def)
  ultimately show "manifest_parse tls bs = Ok m" using m by (simp add: manifest_parse_def cursor_new_at)
qed

text \<open>The bytes that a reader delivers until the end of its input, as non-empty chunks.\<close>

fun delivers :: "'w io_read \<Rightarrow> 'w \<Rightarrow> bytes list \<Rightarrow> 'w \<Rightarrow> bool" where
  "delivers read w [] w' \<longleftrightarrow> read 512 w = (Ok [], w')"
| "delivers read w (c # cs) w' \<longleftrightarrow>
     c \<noteq> [] \<and> fst (read 512 w) = Ok c \<and> delivers read (snd (read 512 w)) cs w'"

lemma read_chunks_delivers:
  "delivers read w cs w' \<Longrightarrow> length (buffer @ concat cs) \<le> CONTROL_BOOTSTRAP_MAX_BYTES \<Longrightarrow>
   read_chunks read buffer w = (Ok (buffer @ concat cs), w')"
proof (induction cs arbitrary: buffer w)
  case Nil
  then show ?case by (simp add: read_chunks.simps)
next
  case (Cons c cs)
  from Cons.prems(1) obtain w1 where "read 512 w = (Ok c, w1)" "c \<noteq> []" "delivers read w1 cs w'"
    by (cases "read 512 w") auto
  with Cons show ?case by (simp add: read_chunks.simps [of read buffer w])
qed

lemma read_chunks_too_many:
  "delivers read w cs w' \<Longrightarrow> length buffer \<le> CONTROL_BOOTSTRAP_MAX_BYTES \<Longrightarrow>
   CONTROL_BOOTSTRAP_MAX_BYTES < length (buffer @ concat cs) \<Longrightarrow>
   fst (read_chunks read buffer w) = Err (MRE_Manifest ME_TotalTooLarge)"
proof (induction cs arbitrary: buffer w)
  case (Cons c cs)
  from Cons.prems(1) obtain w1 where r: "read 512 w = (Ok c, w1)" "c \<noteq> []" "delivers read w1 cs w'"
    by (cases "read 512 w") auto
  show ?case
  proof (cases "length buffer + length c \<le> CONTROL_BOOTSTRAP_MAX_BYTES")
    case True
    with Cons.IH [OF r(3), of "buffer @ c"] Cons.prems r show ?thesis
      by (simp add: read_chunks.simps [of read buffer w])
  next
    case False
    with r show ?thesis by (simp add: read_chunks.simps [of read buffer w])
  qed
qed simp

text \<open> However the bootstrap input is cut into reads, reading it to the end gives what parsing its bytes
  gives.\<close>

theorem manifest_read_any_chunks:
  assumes "delivers read w chunks w'"
  shows "fst (manifest_read_from tls read w) = map_err MRE_Manifest (manifest_parse tls (concat chunks))"
proof (cases "length (concat chunks) \<le> CONTROL_BOOTSTRAP_MAX_BYTES")
  case True
  then show ?thesis using read_chunks_delivers [OF assms, of "[]"] by (simp add: manifest_read_from_def)
next
  case False
  then have "fst (read_chunks read [] w) = Err (MRE_Manifest ME_TotalTooLarge)"
    using read_chunks_too_many [OF assms, of "[]"] by simp
  with False show ?thesis by (cases "read_chunks read [] w") (simp add: manifest_read_from_def manifest_parse_def)
qed

definition echo_of :: "establishment_expectations \<Rightarrow> establishment_echo" where
  "echo_of e =
     \<lparr> ee_bootstrap_format_version = ex_bootstrap_format_version e,
       ee_control_protocol_version = ex_control_protocol_version e,
       ee_core_instance_nonce = ex_core_instance_nonce e, ee_launch_nonce = ex_launch_nonce e,
       ee_component_name = ex_component_name e, ee_descriptor_version = ex_descriptor_version e,
       ee_executable_name = ex_executable_name e, ee_executable_sha256 = ex_executable_sha256 e,
       ee_component_protocol_version = ex_component_protocol_version e,
       ee_control_channel_nonce = ex_control_channel_nonce e, ee_data_channel_nonce = ex_data_channel_nonce e,
       ee_delegation_purpose = ex_delegation_purpose e, ee_control_profile = ex_control_profile e,
       ee_key_material_profile = ex_key_material_profile e, ee_key_type = ex_key_type e,
       ee_core_leaf_digest = ex_core_leaf_digest e, ee_helper_leaf_digest = ex_helper_leaf_digest e \<rparr>"

lemma expectations_verify_iff: "expectations_verify e echo = Ok () \<longleftrightarrow> echo = echo_of e"
  by (cases echo) (simp add: expectations_verify_def echo_of_def)

end
