(* ===== verification/Control_Framing.thy ===== *)
theory Control_Framing
  imports Control_Manifest
begin

text \<open>
  Length-prefixed framing of control records (\<open>bitty-ai-control/src/framing.rs\<close>): the reader that
  refuses a bad length before it allocates, and the bounded outbound queue with its write loop.

  The record codec, the record kinds and the size limits belong to the protocol crate and enter as the
  parameter \<open>frame_protocol\<close>; the stream is the parameter \<open>control_io\<close> over a world. The result \<^const>\<open>None\<close>
  means that the call does not return: a stream that reports interruptions for ever, or a write count
  beyond the buffer, on which the source panics.
\<close>

section \<open>Parameters and errors\<close>

datatype 'e frame_error =
  FrE_Closed
| FrE_TruncatedPrefix nat
| FrE_TruncatedBody nat nat
| FrE_ZeroLength
| FrE_FrameTooLarge
| FrE_FrameShorterThanHeader nat
| FrE_SmallRecordTooLarge nat
| FrE_Record 'e
| FrE_AllocationFailed nat
| FrE_Io io_error
| FrE_WriteZero
| FrE_QueueFull nat
| FrE_ByteBudgetExceeded nat

datatype record_kind = RK_Projection | RK_Publish | RK_Other u16

record ('r, 'e) frame_protocol =
  fp_frame_max_bytes :: nat
  fp_header_bytes :: nat
  fp_inflight_max_bytes :: nat
  fp_queue_max_records :: nat
  fp_small_record_max_bytes :: nat
  fp_encode :: "'r \<Rightarrow> (bytes, 'e) result"
  fp_decode :: "bytes \<Rightarrow> ('r, 'e) result"
  fp_kind_from_code :: "u16 \<Rightarrow> record_kind option"

record 'w control_io =
  io_read :: "'w io_read"
  io_write :: "bytes \<Rightarrow> 'w \<Rightarrow> (nat, io_error) result \<times> 'w"
  io_flush :: "'w \<Rightarrow> (unit, io_error) result \<times> 'w"
  io_reserve :: "nat \<Rightarrow> 'w \<Rightarrow> bool"

text \<open>The prefix is what \<open>u32::from_be_bytes\<close> takes.\<close>

definition CONTROL_FRAME_PREFIX_BYTES :: nat where
  "CONTROL_FRAME_PREFIX_BYTES = 4"

section \<open>Reading\<close>

text \<open>The loop of \<open>read_prefix\<close> and \<open>read_body\<close>, which differ in the error at the end of the stream.\<close>

partial_function (option) fill_buffer ::
  "'w control_io \<Rightarrow> (nat \<Rightarrow> 'e frame_error) \<Rightarrow> nat \<Rightarrow> bytes \<Rightarrow> 'w \<Rightarrow> ((bytes, 'e frame_error) result \<times> 'w) option" where
  "fill_buffer io eof len filled w =
     (if length filled < len
      then (case io_read io (len - length filled) w of
              (Ok bs, w') \<Rightarrow>
                if bs = [] then Some (Err (eof (length filled)), w')
                else fill_buffer io eof len (filled @ bs) w'
            | (Err e, w') \<Rightarrow>
                if e = IoE_Interrupted then fill_buffer io eof len filled w'
                else Some (Err (FrE_Io e), w'))
      else Some (Ok filled, w))"

definition read_prefix :: "'w control_io \<Rightarrow> 'w \<Rightarrow> ((bytes, 'e frame_error) result \<times> 'w) option" where
  "read_prefix io w =
     fill_buffer io (\<lambda>filled. if filled = 0 then FrE_Closed else FrE_TruncatedPrefix filled)
       CONTROL_FRAME_PREFIX_BYTES [] w"

definition read_body :: "'w control_io \<Rightarrow> nat \<Rightarrow> 'w \<Rightarrow> ((bytes, 'e frame_error) result \<times> 'w) option" where
  "read_body io len w = fill_buffer io (FrE_TruncatedBody len) len [] w"

text \<open>Indexing the kind bytes of a frame that is too short panics.\<close>

definition enforce_small_record_bound ::
  "('r, 'e) frame_protocol \<Rightarrow> bytes \<Rightarrow> (unit, 'e frame_error) result option" where
  "enforce_small_record_bound P frame =
     (if length frame \<le> fp_small_record_max_bytes P then Some (Ok ())
      else if length frame < 8 then None
      else Some (case fp_kind_from_code P (of_nat (be_value [frame ! 6, frame ! 7])) of
                   Some (RK_Other _) \<Rightarrow> Err (FrE_SmallRecordTooLarge (length frame))
                 | _ \<Rightarrow> Ok ()))"

definition read_record ::
  "('r, 'e) frame_protocol \<Rightarrow> 'w control_io \<Rightarrow> 'w \<Rightarrow> (('r, 'e frame_error) result \<times> 'w) option" where
  "read_record P io w =
     (case read_prefix io w of
        None \<Rightarrow> None
      | Some (Err e, w1) \<Rightarrow> Some (Err e, w1)
      | Some (Ok pre, w1) \<Rightarrow>
          let len = be_value pre in
          if len = 0 then Some (Err FrE_ZeroLength, w1)
          else if len > fp_frame_max_bytes P then Some (Err FrE_FrameTooLarge, w1)
          else if len < fp_header_bytes P then Some (Err (FrE_FrameShorterThanHeader len), w1)
          else if \<not> io_reserve io len w1 then Some (Err (FrE_AllocationFailed len), w1)
          else (case read_body io len w1 of
                  None \<Rightarrow> None
                | Some (Err e, w2) \<Rightarrow> Some (Err e, w2)
                | Some (Ok frame, w2) \<Rightarrow>
                    (case enforce_small_record_bound P frame of
                       None \<Rightarrow> None
                     | Some (Err e) \<Rightarrow> Some (Err e, w2)
                     | Some (Ok _) \<Rightarrow> Some (map_err FrE_Record (fp_decode P frame), w2))))"

section \<open>Writing\<close>

record frame_writer =
  fw_pending :: "bytes list"
  fw_pending_bytes :: nat

definition frame_writer_new :: frame_writer where
  "frame_writer_new = \<lparr> fw_pending = [], fw_pending_bytes = 0 \<rparr>"

definition writer_clear :: "frame_writer \<Rightarrow> frame_writer" where
  "writer_clear fw = fw\<lparr> fw_pending := [], fw_pending_bytes := 0 \<rparr>"

definition enqueue_frame ::
  "('r, 'e) frame_protocol \<Rightarrow> bytes \<Rightarrow> frame_writer \<Rightarrow> (unit, 'e frame_error) result \<times> frame_writer" where
  "enqueue_frame P frame fw =
     (if length (fw_pending fw) \<ge> fp_queue_max_records P
      then (Err (FrE_QueueFull (fp_queue_max_records P)), fw)
      else if frame = [] then (Err FrE_ZeroLength, fw)
      else if length frame > fp_frame_max_bytes P then (Err FrE_FrameTooLarge, fw)
      else let frame_bytes = CONTROL_FRAME_PREFIX_BYTES + length frame;
               total = fw_pending_bytes fw + frame_bytes
           in if frame_bytes > usize_max \<or> total > usize_max \<or> total > fp_inflight_max_bytes P
              then (Err (FrE_ByteBudgetExceeded (fp_inflight_max_bytes P)), fw)
              else (Ok (), fw\<lparr> fw_pending := fw_pending fw @ [frame], fw_pending_bytes := total \<rparr>))"

definition writer_enqueue ::
  "('r, 'e) frame_protocol \<Rightarrow> 'r \<Rightarrow> frame_writer \<Rightarrow> (unit, 'e frame_error) result \<times> frame_writer" where
  "writer_enqueue P r fw =
     (if length (fw_pending fw) \<ge> fp_queue_max_records P
      then (Err (FrE_QueueFull (fp_queue_max_records P)), fw)
      else case fp_encode P r of
        Err e \<Rightarrow> (Err (FrE_Record e), fw)
      | Ok frame \<Rightarrow> enqueue_frame P frame fw)"

partial_function (option) write_all ::
  "'w control_io \<Rightarrow> bytes \<Rightarrow> 'w \<Rightarrow> ((unit, 'e frame_error) result \<times> 'w) option" where
  "write_all io bs w =
     (if bs = [] then Some (Ok (), w)
      else case io_write io bs w of
        (Ok written, w') \<Rightarrow>
          if written = 0 then Some (Err FrE_WriteZero, w')
          else if written > length bs then None
          else write_all io (drop written bs) w'
      | (Err e, w') \<Rightarrow>
          if e = IoE_Interrupted then write_all io bs w' else Some (Err (FrE_Io e), w'))"

definition write_frame ::
  "('r, 'e) frame_protocol \<Rightarrow> 'w control_io \<Rightarrow> bytes \<Rightarrow> 'w \<Rightarrow> ((unit, 'e frame_error) result \<times> 'w) option" where
  "write_frame P io frame w =
     (if frame = [] then Some (Err FrE_ZeroLength, w)
      else if length frame > fp_frame_max_bytes P then Some (Err FrE_FrameTooLarge, w)
      else if length frame \<ge> 2 ^ 32 then Some (Err FrE_FrameTooLarge, w)
      else case write_all io (be_bytes 4 (length frame)) w of
        None \<Rightarrow> None
      | Some (Err e, w1) \<Rightarrow> Some (Err e, w1)
      | Some (Ok _, w1) \<Rightarrow> write_all io frame w1)"

fun flush_pending ::
  "('r, 'e) frame_protocol \<Rightarrow> 'w control_io \<Rightarrow> bytes list \<Rightarrow> nat \<Rightarrow> 'w
     \<Rightarrow> ((unit, 'e frame_error) result \<times> nat \<times> 'w) option" where
  "flush_pending P io [] pending_bytes w = Some (Ok (), pending_bytes, w)"
| "flush_pending P io (frame # frames) pending_bytes w =
     (let left = pending_bytes - (CONTROL_FRAME_PREFIX_BYTES + length frame)
      in case write_frame P io frame w of
           None \<Rightarrow> None
         | Some (Err e, w') \<Rightarrow> Some (Err e, 0, w')
         | Some (Ok _, w') \<Rightarrow> flush_pending P io frames left w')"

definition writer_flush ::
  "('r, 'e) frame_protocol \<Rightarrow> 'w control_io \<Rightarrow> frame_writer \<Rightarrow> 'w
     \<Rightarrow> ((unit, 'e frame_error) result \<times> frame_writer \<times> 'w) option" where
  "writer_flush P io fw w =
     (case flush_pending P io (fw_pending fw) (fw_pending_bytes fw) w of
        None \<Rightarrow> None
      | Some (Err e, left, w') \<Rightarrow> Some (Err e, fw\<lparr> fw_pending := [], fw_pending_bytes := left \<rparr>, w')
      | Some (Ok _, left, w') \<Rightarrow>
          (case io_flush io w' of
             (r, w'') \<Rightarrow> Some (map_err FrE_Io r, fw\<lparr> fw_pending := [], fw_pending_bytes := left \<rparr>, w'')))"

section \<open>A stream of pieces\<close>

text \<open>A stream that delivers its bytes in arbitrary non-empty pieces with interruptions in between, and accepts
  writes in arbitrary non-empty portions with interruptions in between.\<close>

datatype piece = Piece bytes | Interruption

fun piece_bytes :: "piece \<Rightarrow> bytes" where
  "piece_bytes (Piece bs) = bs"
| "piece_bytes Interruption = []"

abbreviation inbound :: "piece list \<Rightarrow> bytes" where
  "inbound ps \<equiv> concat (map piece_bytes ps)"

abbreviation flowing :: "piece list \<Rightarrow> bool" where
  "flowing ps \<equiv> Piece [] \<notin> set ps"

record pipe =
  pp_in :: "piece list"
  pp_out :: bytes
  pp_portions :: "nat list"

fun pieces_read :: "nat \<Rightarrow> piece list \<Rightarrow> (bytes, io_error) result \<times> piece list" where
  "pieces_read n [] = (Ok [], [])"
| "pieces_read n (Interruption # ps) = (Err IoE_Interrupted, ps)"
| "pieces_read n (Piece bs # ps) = (Ok (take n bs), if length bs \<le> n then ps else Piece (drop n bs) # ps)"

definition pipe_read :: "pipe io_read" where
  "pipe_read n w = (case pieces_read n (pp_in w) of (r, ps) \<Rightarrow> (r, w\<lparr> pp_in := ps \<rparr>))"

definition pipe_write :: "bytes \<Rightarrow> pipe \<Rightarrow> (nat, io_error) result \<times> pipe" where
  "pipe_write bs w =
     (case pp_portions w of
        [] \<Rightarrow> (Ok (length bs), w\<lparr> pp_out := pp_out w @ bs \<rparr>)
      | k # ks \<Rightarrow>
          if k = 0 then (Err IoE_Interrupted, w\<lparr> pp_portions := ks \<rparr>)
          else (Ok (min k (length bs)), w\<lparr> pp_out := pp_out w @ take k bs, pp_portions := ks \<rparr>))"

definition pipe_io :: "pipe control_io" where
  "pipe_io = \<lparr> io_read = pipe_read, io_write = pipe_write, io_flush = (\<lambda>w. (Ok (), w)), io_reserve = (\<lambda>_ _. True) \<rparr>"

lemma take_split_at: "k \<le> n \<Longrightarrow> take k xs @ take (n - k) (drop k xs) = take n xs"
  by (metis le_add_diff_inverse take_add)

lemma pipe_io_simps [simp]:
  "io_read pipe_io = pipe_read" "io_write pipe_io = pipe_write" "io_flush pipe_io w = (Ok (), w)"
  "io_reserve pipe_io n w"
  by (simp_all add: pipe_io_def)

lemma fill_buffer_pipe:
  assumes "flowing (pp_in w)" "len \<le> length filled + length (inbound (pp_in w))" "length filled \<le> len"
  shows "\<exists>ps. fill_buffer pipe_io eof len filled w =
      Some (Ok (filled @ take (len - length filled) (inbound (pp_in w))), w\<lparr> pp_in := ps \<rparr>) \<and>
    inbound ps = drop (len - length filled) (inbound (pp_in w)) \<and> flowing ps"
  using assms
proof (induction "length (inbound (pp_in w)) + length (pp_in w)" arbitrary: w filled rule: less_induct)
  case less
  show ?case
  proof (cases "length filled < len")
    case False
    with less.prems show ?thesis
      by (intro exI [of _ "pp_in w"]) (simp add: fill_buffer.simps [of pipe_io eof len filled w])
  next
    case True
    with less.prems obtain p ps where p: "pp_in w = p # ps" by (cases "pp_in w") auto
    let ?n = "len - length filled"
    show ?thesis
    proof (cases p)
      case Interruption
      let ?w = "w\<lparr> pp_in := ps \<rparr>"
      from less.hyps [of ?w filled] less.prems p Interruption obtain qs where
        "fill_buffer pipe_io eof len filled ?w = Some (Ok (filled @ take ?n (inbound ps)), ?w\<lparr> pp_in := qs \<rparr>)"
        "inbound qs = drop ?n (inbound ps)" "flowing qs" by auto
      with True p Interruption show ?thesis
        by (intro exI [of _ qs]) (simp add: fill_buffer.simps [of pipe_io eof len filled w] pipe_read_def)
    next
      case (Piece bs)
      define qs where "qs = (if length bs \<le> ?n then ps else Piece (drop ?n bs) # ps)"
      define c where "c = take ?n bs"
      let ?w = "w\<lparr> pp_in := qs \<rparr>" and ?filled = "filled @ c"
      have bs: "bs \<noteq> []" "flowing ps" using less.prems(1) p Piece by auto
      then have q: "flowing qs" "inbound qs = drop (length c) (inbound (pp_in w))" "length c \<le> ?n" "c \<noteq> []"
          "length c \<le> length (inbound (pp_in w))"
        using p Piece True by (auto simp: qs_def c_def)
      have 1: "length (inbound (pp_in ?w)) + length (pp_in ?w) < length (inbound (pp_in w)) + length (pp_in w)"
        using bs p Piece True by (auto simp: qs_def)
      have 2: "flowing (pp_in ?w)" "len \<le> length ?filled + length (inbound (pp_in ?w))" "length ?filled \<le> len"
        using q less.prems(2,3) by auto
      from less.hyps [OF 1 2] obtain rs where
        rs: "fill_buffer pipe_io eof len ?filled ?w =
            Some (Ok (?filled @ take (len - length ?filled) (inbound qs)), w\<lparr> pp_in := rs \<rparr>)"
          "inbound rs = drop (len - length ?filled) (inbound qs)" "flowing rs"
        by auto
      have t: "c = take (length c) (inbound (pp_in w))" using p Piece by (simp add: c_def min_def)
      have "len - length ?filled = ?n - length c" "len - (length filled + length c) + length c = ?n"
        using q(3) by simp_all
      then have "inbound rs = drop ?n (inbound (pp_in w))"
        "?filled @ take (len - length ?filled) (inbound qs) = filled @ take ?n (inbound (pp_in w))"
        using rs(2) q take_split_at [OF q(3), of "inbound (pp_in w)"] t by simp_all
      moreover have "fill_buffer pipe_io eof len filled w = fill_buffer pipe_io eof len ?filled ?w"
        using True p Piece q(4)
        by (simp add: fill_buffer.simps [of pipe_io eof len filled w] pipe_read_def qs_def c_def)
      ultimately show ?thesis using rs by (intro exI [of _ rs]) simp
    qed
  qed
qed

lemma write_all_pipe:
  "\<exists>ks. write_all pipe_io bs w = Some (Ok () :: (unit, 'e frame_error) result, w\<lparr> pp_out := pp_out w @ bs, pp_portions := ks \<rparr>)"
proof (induction "length bs + length (pp_portions w)" arbitrary: bs w rule: less_induct)
  case less
  show ?case
  proof (cases "bs = []")
    case True
    then show ?thesis
      by (intro exI [of _ "pp_portions w"]) (simp add: write_all.simps [of pipe_io "[]" w])
  next
    case bs: False
    show ?thesis
    proof (cases "pp_portions w")
      case Nil
      with bs show ?thesis
        by (intro exI [of _ "[]"]) (simp add: write_all.simps [of pipe_io bs w] write_all.simps [of pipe_io "[]"] pipe_write_def)
    next
      case (Cons k ks)
      let ?w = "if k = 0 then w\<lparr> pp_portions := ks \<rparr>
        else w\<lparr> pp_out := pp_out w @ take k bs, pp_portions := ks \<rparr>"
      have step: "(write_all pipe_io bs w :: ((unit, 'e frame_error) result \<times> pipe) option) =
          write_all pipe_io (drop k bs) ?w"
        using bs Cons by (simp add: write_all.simps [of pipe_io bs w] pipe_write_def min_def)
      have "length (drop k bs) + length (pp_portions ?w) < length bs + length (pp_portions w)"
        using Cons by auto
      from less [OF this] obtain js where
        "write_all pipe_io (drop k bs) ?w = Some (Ok () :: (unit, 'e frame_error) result, ?w\<lparr> pp_out := pp_out ?w @ drop k bs, pp_portions := js \<rparr>)"
        by blast
      with step show ?thesis by (intro exI [of _ js]) (cases "k = 0"; simp)
    qed
  qed
qed

section \<open>Round trip\<close>

text \<open>A record that can be sent: its encoding is within the limits of the writer. One that can travel is also within
  those of the reader and decodes to itself.\<close>

definition sendable :: "('r, 'e) frame_protocol \<Rightarrow> 'r \<Rightarrow> bool" where
  "sendable P r \<longleftrightarrow>
     (case fp_encode P r of
        Err _ \<Rightarrow> False
      | Ok f \<Rightarrow> f \<noteq> [] \<and> length f \<le> fp_frame_max_bytes P \<and> length f + 4 \<le> fp_inflight_max_bytes P)"

definition travels :: "('r, 'e) frame_protocol \<Rightarrow> 'r \<Rightarrow> bool" where
  "travels P r \<longleftrightarrow>
     sendable P r \<and>
     (\<forall>f. fp_encode P r = Ok f \<longrightarrow>
        fp_decode P f = Ok r \<and> fp_header_bytes P \<le> length f \<and> enforce_small_record_bound P f = Some (Ok ()))"

definition wire :: "('r, 'e) frame_protocol \<Rightarrow> 'r \<Rightarrow> bytes" where
  "wire P r = (case fp_encode P r of Err _ \<Rightarrow> [] | Ok f \<Rightarrow> be_bytes 4 (length f) @ f)"

text \<open>One record sent through the queue, and the records sent one after the other.\<close>

definition send_record ::
  "('r, 'e) frame_protocol \<Rightarrow> 'w control_io \<Rightarrow> 'r \<Rightarrow> frame_writer \<Rightarrow> 'w
     \<Rightarrow> ((unit, 'e frame_error) result \<times> frame_writer \<times> 'w) option" where
  "send_record P io r fw w =
     (case writer_enqueue P r fw of
        (Err e, fw') \<Rightarrow> Some (Err e, fw', w)
      | (Ok _, fw') \<Rightarrow> writer_flush P io fw' w)"

fun send_records ::
  "('r, 'e) frame_protocol \<Rightarrow> 'w control_io \<Rightarrow> 'r list \<Rightarrow> frame_writer \<Rightarrow> 'w
     \<Rightarrow> ((unit, 'e frame_error) result \<times> frame_writer \<times> 'w) option" where
  "send_records P io [] fw w = Some (Ok (), fw, w)"
| "send_records P io (r # rs) fw w =
     (case send_record P io r fw w of
        Some (Ok _, fw', w') \<Rightarrow> send_records P io rs fw' w'
      | other \<Rightarrow> other)"

fun read_records ::
  "('r, 'e) frame_protocol \<Rightarrow> 'w control_io \<Rightarrow> nat \<Rightarrow> 'w \<Rightarrow> (('r list, 'e frame_error) result \<times> 'w) option" where
  "read_records P io 0 w = Some (Ok [], w)"
| "read_records P io (Suc n) w =
     (case read_record P io w of
        None \<Rightarrow> None
      | Some (Err e, w') \<Rightarrow> Some (Err e, w')
      | Some (Ok r, w') \<Rightarrow>
          map_option (\<lambda>(res, w''). (and_then res (\<lambda>rs. Ok (r # rs)), w'')) (read_records P io n w'))"

definition limits_sane :: "('r, 'e) frame_protocol \<Rightarrow> bool" where
  "limits_sane P \<longleftrightarrow> fp_frame_max_bytes P < 2 ^ 32 \<and> 0 < fp_queue_max_records P \<and> fp_inflight_max_bytes P \<le> usize_max"

lemma send_record_pipe:
  fixes P :: "('r, 'e) frame_protocol"
  assumes "limits_sane P" "sendable P r"
  shows "\<exists>ks. send_record P pipe_io r frame_writer_new w =
    Some (Ok (), frame_writer_new, w\<lparr> pp_out := pp_out w @ wire P r, pp_portions := ks \<rparr>)"
proof -
  from assms(2) obtain f where f: "fp_encode P r = Ok f" "f \<noteq> []" "length f \<le> fp_frame_max_bytes P"
      "length f + 4 \<le> fp_inflight_max_bytes P"
    by (auto simp: sendable_def split: result.splits)
  let ?fw = "\<lparr> fw_pending = [f], fw_pending_bytes = length f + 4 \<rparr>"
  have enq: "writer_enqueue P r frame_writer_new = (Ok (), ?fw)"
    using f assms(1) by (simp add: writer_enqueue_def enqueue_frame_def frame_writer_new_def limits_sane_def
        CONTROL_FRAME_PREFIX_BYTES_def Let_def)
  obtain ks where 1: "write_all pipe_io (be_bytes 4 (length f)) w =
      Some (Ok () :: (unit, 'e frame_error) result, w\<lparr> pp_out := pp_out w @ be_bytes 4 (length f), pp_portions := ks \<rparr>)" (is "_ = Some (_, ?w1)")
    using write_all_pipe by blast
  obtain js where 2: "write_all pipe_io f ?w1 = Some (Ok () :: (unit, 'e frame_error) result, ?w1\<lparr> pp_out := pp_out ?w1 @ f, pp_portions := js \<rparr>)"
    using write_all_pipe by blast
  have "write_frame P pipe_io f w = Some (Ok (), w\<lparr> pp_out := pp_out w @ wire P r, pp_portions := js \<rparr>)"
    using f assms(1) 1 2 by (simp add: write_frame_def wire_def limits_sane_def)
  with enq f show ?thesis
    by (intro exI [of _ js]) (simp add: send_record_def writer_flush_def frame_writer_new_def CONTROL_FRAME_PREFIX_BYTES_def)
qed

lemma send_records_pipe:
  fixes P :: "('r, 'e) frame_protocol"
  assumes "limits_sane P" "\<forall>r \<in> set rs. travels P r"
  shows "\<exists>ks. send_records P pipe_io rs frame_writer_new w =
    Some (Ok (), frame_writer_new, w\<lparr> pp_out := pp_out w @ concat (map (wire P) rs), pp_portions := ks \<rparr>)"
  using assms(2)
proof (induction rs arbitrary: w)
  case Nil
  show ?case by (intro exI [of _ "pp_portions w"]) simp
next
  case (Cons r rs)
  obtain ks where 1: "send_record P pipe_io r frame_writer_new w =
      Some (Ok (), frame_writer_new, w\<lparr> pp_out := pp_out w @ wire P r, pp_portions := ks \<rparr>)" (is "_ = Some (_, _, ?w1)")
    using send_record_pipe [OF assms(1)] Cons.prems by (meson list.set_intros(1) travels_def)
  obtain js where "send_records P pipe_io rs frame_writer_new ?w1 =
      Some (Ok (), frame_writer_new, ?w1\<lparr> pp_out := pp_out ?w1 @ concat (map (wire P) rs), pp_portions := js \<rparr>)"
    using Cons.IH [of ?w1] Cons.prems by auto
  with 1 show ?case by (intro exI [of _ js]) simp
qed

lemma read_record_pipe:
  fixes P :: "('r, 'e) frame_protocol"
  assumes "limits_sane P" "travels P r" "flowing (pp_in w)" "inbound (pp_in w) = wire P r @ rest"
  shows "\<exists>ps. read_record P pipe_io w = Some (Ok r, w\<lparr> pp_in := ps \<rparr>) \<and> inbound ps = rest \<and> flowing ps"
proof -
  from assms(2) obtain f where f: "fp_encode P r = Ok f" "f \<noteq> []" "length f \<le> fp_frame_max_bytes P"
      "fp_header_bytes P \<le> length f" "fp_decode P f = Ok r" "enforce_small_record_bound P f = Some (Ok ())"
    by (auto simp: travels_def sendable_def split: result.splits)
  have wire: "inbound (pp_in w) = be_bytes 4 (length f) @ f @ rest" using assms(4) f by (simp add: wire_def)
  obtain ps where 1: "read_prefix pipe_io w = Some (Ok (be_bytes 4 (length f)) :: (bytes, 'e frame_error) result,
      w\<lparr> pp_in := ps \<rparr>)" "inbound ps = f @ rest" "flowing ps"
    using fill_buffer_pipe [where w = w and filled = "[]" and len = 4] assms(3) wire
    by (auto simp: read_prefix_def CONTROL_FRAME_PREFIX_BYTES_def)
  obtain qs where 2: "read_body pipe_io (length f) (w\<lparr> pp_in := ps \<rparr>) = Some (Ok f :: (bytes, 'e frame_error) result,
      w\<lparr> pp_in := qs \<rparr>)" "inbound qs = rest" "flowing qs"
    using fill_buffer_pipe [where w = "w\<lparr> pp_in := ps \<rparr>" and filled = "[]" and len = "length f"] 1
    by (auto simp: read_body_def)
  have "be_value (be_bytes 4 (length f)) = length f" using f(3) assms(1) by (simp add: be_value_bytes limits_sane_def)
  with 1 2 f have "read_record P pipe_io w = Some (Ok r, w\<lparr> pp_in := qs \<rparr>)"
    by (simp add: read_record_def Let_def)
  with 2 show ?thesis by blast
qed

lemma read_records_pipe:
  fixes P :: "('r, 'e) frame_protocol"
  assumes "limits_sane P" "\<forall>r \<in> set rs. travels P r" "flowing (pp_in w)" "inbound (pp_in w) = concat (map (wire P) rs) @ rest"
  shows "\<exists>ps. read_records P pipe_io (length rs) w = Some (Ok rs, w\<lparr> pp_in := ps \<rparr>) \<and> inbound ps = rest \<and> flowing ps"
  using assms(2-4)
proof (induction rs arbitrary: w)
  case Nil
  then show ?case by (intro exI [of _ "pp_in w"]) simp
next
  case (Cons r rs)
  from read_record_pipe [OF assms(1), of r w "concat (map (wire P) rs) @ rest"] Cons.prems obtain ps where
    1: "read_record P pipe_io w = Some (Ok r, w\<lparr> pp_in := ps \<rparr>)" "inbound ps = concat (map (wire P) rs) @ rest" "flowing ps"
    by auto
  from Cons.IH [of "w\<lparr> pp_in := ps \<rparr>"] Cons.prems(1) 1 obtain qs where
    "read_records P pipe_io (length rs) (w\<lparr> pp_in := ps \<rparr>) = Some (Ok rs, w\<lparr> pp_in := qs \<rparr>)" "inbound qs = rest" "flowing qs"
    by auto
  with 1 show ?case by (intro exI [of _ qs]) simp
qed

section \<open>Properties\<close>

text \<open> C29. Records whose encodings are within the limits are all sent, whatever portions the stream accepts and
  however often it is interrupted, and leave the queue empty; and a reader of these bytes gets exactly these records,
  in order, in whatever pieces they arrive.\<close>

theorem framed_records_arrive:
  assumes "limits_sane P" "\<forall>r \<in> set rs. travels P r"
    and "flowing (pp_in w)" "inbound (pp_in w) = concat (map (wire P) rs) @ rest"
  shows "(\<exists>out. send_records P pipe_io rs frame_writer_new v = Some (Ok (), frame_writer_new, out) \<and>
      pp_out out = pp_out v @ concat (map (wire P) rs)) \<and>
    (\<exists>w'. read_records P pipe_io (length rs) w = Some (Ok rs, w') \<and> inbound (pp_in w') = rest)"
  using send_records_pipe [OF assms(1,2), of v] read_records_pipe [OF assms] by fastforce

text \<open>A protocol whose records are byte strings of eight to sixty-four bytes.\<close>

definition sample_protocol :: "(bytes, unit) frame_protocol" where
  "sample_protocol =
     \<lparr> fp_frame_max_bytes = 64, fp_header_bytes = 8, fp_inflight_max_bytes = 100, fp_queue_max_records = 2,
       fp_small_record_max_bytes = 32, fp_encode = (\<lambda>r. Ok r), fp_decode = (\<lambda>f. Ok f),
       fp_kind_from_code = (\<lambda>_. None) \<rparr>"

theorem framed_records_arrive_witness:
  "\<exists>w'. read_records sample_protocol pipe_io 1
     \<lparr> pp_in = [Piece (be_bytes 4 8), Interruption, Piece ''abcd'', Piece ''efghij''], pp_out = [], pp_portions = [] \<rparr> =
       Some (Ok [''abcdefgh''], w') \<and> inbound (pp_in w') = ''ij''"
proof -
  let ?w = "\<lparr> pp_in = [Piece (be_bytes 4 8), Interruption, Piece ''abcd'', Piece ''efghij''], pp_out = [], pp_portions = [] \<rparr>"
  have "limits_sane sample_protocol" "\<forall>r \<in> set [''abcdefgh'']. travels sample_protocol r"
    by (simp_all add: limits_sane_def sample_protocol_def travels_def sendable_def enforce_small_record_bound_def usize_max_def)
  moreover have "flowing (pp_in ?w)" "inbound (pp_in ?w) = concat (map (wire sample_protocol) [''abcdefgh'']) @ ''ij''"
    using length_be_bytes [of 4 8] by (auto simp: wire_def sample_protocol_def eval_nat_numeral simp del: length_be_bytes)
  ultimately show ?thesis
    using framed_records_arrive [of sample_protocol "[''abcdefgh'']" ?w "''ij''" ?w] by simp
qed

end
