(* ===== verification/Control_State.thy ===== *)
theory Control_State
  imports Control_Framing
begin

text \<open>
  The helper side of the provider-publication protocol (\<open>bitty-ai-control/src/state.rs\<close>): establishment,
  the publish, acknowledge, bind and bound exchange, rotation and invalidation of lifetimes, and the
  revocation that every failure causes.

  Record types come from the protocol crate: the constructors below are those the source matches on or
  builds, \<open>RB_Other\<close> stands for the kinds it refuses, and the publication tuple \<open>'t\<close> and the projection
  \<open>'p\<close> stay abstract. The stream, the registry, the random source and the protocol functions are fields of
  the parameter \<open>control_env\<close> over a world. Identifiers are byte strings.
\<close>

section \<open>Records and errors\<close>

type_synonym control_id = bytes

datatype error_code = EC_InvalidControl | EC_Unavailable | EC_ResourceLimit | EC_Other u16

datatype invalidate_reason =
  IR_RegistryMutation | IR_SourceMutation | IR_Reset | IR_Supersession | IR_GrantLoss | IR_Shutdown

datatype sender = SN_Core | SN_Helper

datatype ('t, 'p) record_body =
  RB_Establish establishment_echo
| RB_Established establishment_echo control_id
| RB_Projection control_id u64 'p
| RB_Publish control_id u64 't 'p
| RB_Ack control_id u64 't control_id
| RB_Bind control_id u64 't control_id
| RB_Bound control_id u64 't control_id
| RB_Invalidate control_id u64 invalidate_reason
| RB_Lifetime control_id u64
| RB_Error error_code
| RB_Other u16

record ('t, 'p) control_record =
  rec_sender :: sender
  rec_sequence :: u64
  rec_session_id :: control_id
  rec_body :: "('t, 'p) record_body"

datatype registry_error = RgE_Unavailable | RgE_InvalidRevision

record 'p registry_snapshot =
  sn_feed_revision :: u64
  sn_projection :: 'p

definition registry_snapshot_new :: "u64 \<Rightarrow> 'p \<Rightarrow> ('p registry_snapshot, registry_error) result" where
  "registry_snapshot_new feed_revision projection =
     (if feed_revision = 0 then Err RgE_InvalidRevision
      else Ok \<lparr> sn_feed_revision = feed_revision, sn_projection = projection \<rparr>)"

datatype proof_state = PS_Unestablished | PS_Unbound | PS_Acknowledged | PS_Bound control_id | PS_Revoked

datatype revocation_reason =
  RV_ControlTransport | RV_ProtocolViolation | RV_EstablishmentMismatch | RV_RegistryUnavailable
| RV_RetainedBytesMismatch | RV_ResourceLimit | RV_RandomUnavailable | RV_VersionExhausted
| RV_PeerError | RV_PeerWithdrewAuthority | RV_LocalClose

definition revocation_error_code :: "revocation_reason \<Rightarrow> error_code option" where
  "revocation_error_code r =
     (case r of
        RV_ProtocolViolation \<Rightarrow> Some EC_InvalidControl
      | RV_EstablishmentMismatch \<Rightarrow> Some EC_InvalidControl
      | RV_RetainedBytesMismatch \<Rightarrow> Some EC_InvalidControl
      | RV_RegistryUnavailable \<Rightarrow> Some EC_Unavailable
      | RV_RandomUnavailable \<Rightarrow> Some EC_Unavailable
      | RV_ResourceLimit \<Rightarrow> Some EC_ResourceLimit
      | RV_VersionExhausted \<Rightarrow> Some EC_ResourceLimit
      | RV_ControlTransport \<Rightarrow> None
      | RV_PeerError \<Rightarrow> None
      | RV_PeerWithdrewAuthority \<Rightarrow> None
      | RV_LocalClose \<Rightarrow> None)"

datatype 't control_outcome =
  ST_Published 't
| ST_Bound 't control_id
| ST_LifetimeRotated control_id control_id u64 invalidate_reason
| ST_PredecessorCorrelated
| ST_AuthorityClosed invalidate_reason
| ST_PeerError error_code

datatype 'e helper_control_error =
  HE_Frame "'e frame_error"
| HE_Record 'e
| HE_Manifest manifest_error
| HE_EstablishmentMismatch string
| HE_SessionMismatch
| HE_SequenceMismatch
| HE_UnexpectedRecord record_kind
| HE_UnexpectedSender sender
| HE_CoreRegistryMutation
| HE_StaleAuthority
| HE_PublicationAlreadyPending
| HE_PublicationIdentityMismatch
| HE_PublicationVersionNotIncreasing
| HE_NoPendingBind
| HE_BindMismatch
| HE_RetainedBytesMismatch
| HE_Registry registry_error
| HE_RandomUnavailable
| HE_VersionExhausted
| HE_ResourceLimit
| HE_PeerError error_code
| HE_LaunchMismatch
| HE_ClosedByPeer
| HE_NotEstablished
| HE_AlreadyEstablished
| HE_Closed

section \<open>State\<close>

datatype control_phase = PH_AwaitingEstablish | PH_Ready | PH_AwaitingBind | PH_Revoked

record lifetime =
  lt_id :: control_id
  lt_feed_revision :: u64
  lt_secret :: bytes

record retired_lifetime =
  rl_id :: control_id
  rl_feed_revision :: u64

record 't pending_publication =
  pn_lifetime_id :: control_id
  pn_feed_revision :: u64
  pn_tuple :: 't
  pn_retained :: bytes
  pn_ack_id :: control_id

record 't active_receipt =
  ar_tuple :: 't
  ar_receipt :: control_id

record retired_identifiers =
  ri_lifetime :: "control_id option"
  ri_receipt :: "control_id option"

definition retired_default :: retired_identifiers where
  "retired_default = \<lparr> ri_lifetime = None, ri_receipt = None \<rparr>"

definition note_lifetime :: "control_id \<Rightarrow> retired_identifiers \<Rightarrow> retired_identifiers" where
  "note_lifetime l r = r\<lparr> ri_lifetime := Some l \<rparr>"

definition note_receipt :: "control_id \<Rightarrow> retired_identifiers \<Rightarrow> retired_identifiers" where
  "note_receipt i r = r\<lparr> ri_receipt := Some i \<rparr>"

definition lifetime_conflicts :: "retired_identifiers \<Rightarrow> control_id \<Rightarrow> bool" where
  "lifetime_conflicts r candidate \<longleftrightarrow> ri_lifetime r = Some candidate"

definition receipt_bytes_conflict :: "retired_identifiers \<Rightarrow> control_id \<Rightarrow> bool" where
  "receipt_bytes_conflict r candidate \<longleftrightarrow> ri_receipt r = Some candidate"

record 'e fault =
  fa_error :: "'e helper_control_error"
  fa_reason :: revocation_reason
  fa_code :: "error_code option"

record 't helper_control =
  hc_writer :: frame_writer
  hc_expectations :: establishment_expectations
  hc_session_id :: control_id
  hc_phase :: control_phase
  hc_in_sequence :: u64
  hc_out_sequence :: u64
  hc_lifetime :: "lifetime option"
  hc_predecessor :: "retired_lifetime option"
  hc_retired :: retired_identifiers
  hc_pending :: "'t pending_publication option"
  hc_receipt :: "'t active_receipt option"
  hc_last_core_publication_version :: u64
  hc_revocation :: "revocation_reason option"

definition with_expectations :: "establishment_expectations \<Rightarrow> 't helper_control" where
  "with_expectations e =
     \<lparr> hc_writer = frame_writer_new, hc_expectations = e, hc_session_id = ex_launch_nonce e,
       hc_phase = PH_AwaitingEstablish, hc_in_sequence = 0, hc_out_sequence = 0, hc_lifetime = None,
       hc_predecessor = None, hc_retired = retired_default, hc_pending = None, hc_receipt = None,
       hc_last_core_publication_version = 0, hc_revocation = None \<rparr>"

definition from_stream ::
  "(bytes \<Rightarrow> bytes) \<Rightarrow> launch_manifest \<Rightarrow> ('t helper_control, 'e helper_control_error) result" where
  "from_stream sha256 m =
     and_then (map_err HE_Manifest (validate_non_key m)) (\<lambda>_.
       Ok (with_expectations (expectations_from_manifest sha256 m)))"

text \<open>\<open>new\<close>: the manifest must give the expectations that the authenticated session was built with.\<close>

definition helper_control_new ::
  "(bytes \<Rightarrow> bytes) \<Rightarrow> launch_manifest \<Rightarrow> establishment_expectations
     \<Rightarrow> ('t helper_control, 'e helper_control_error) result" where
  "helper_control_new sha256 m session_expectations =
     (if expectations_from_manifest sha256 m \<noteq> session_expectations then Err HE_LaunchMismatch
      else from_stream sha256 m)"

section \<open>Environment and sequencing\<close>

record ('t, 'p, 'e, 'w) control_env =
  cv_frames :: "(('t, 'p) control_record, 'e) frame_protocol"
  cv_io :: "'w control_io"
  cv_kind :: "('t, 'p) record_body \<Rightarrow> record_kind"
  cv_snapshot :: "'w \<Rightarrow> ('p registry_snapshot, registry_error) result"
  cv_retained_matches :: "u64 \<Rightarrow> bytes \<Rightarrow> 'w \<Rightarrow> (bool, registry_error) result"
  cv_fill_random :: "nat \<Rightarrow> 'w \<Rightarrow> bytes option \<times> 'w"
  cv_valid_session :: "control_id \<Rightarrow> control_id \<Rightarrow> bool"
  cv_valid_sequence :: "u64 \<Rightarrow> u64 \<Rightarrow> bool"
  cv_next_sequence :: "u64 \<Rightarrow> u64 option"
  cv_canonical_bytes :: "'p \<Rightarrow> bytes"
  cv_tuple_nonce :: "'t \<Rightarrow> control_id"
  cv_tuple_version :: "'t \<Rightarrow> u64"
  cv_lifetime_secret_bytes :: nat

type_synonym ('t, 'e, 'w, 'a) ctl =
  "'t helper_control \<times> 'w \<Rightarrow> (('a, 'e helper_control_error) result \<times> 't helper_control \<times> 'w) option"

definition ctl_return :: "'a \<Rightarrow> ('t, 'e, 'w, 'a) ctl" where
  "ctl_return x = (\<lambda>s. Some (Ok x, s))"

definition ctl_bind :: "('t, 'e, 'w, 'a) ctl \<Rightarrow> ('a \<Rightarrow> ('t, 'e, 'w, 'b) ctl) \<Rightarrow> ('t, 'e, 'w, 'b) ctl" where
  "ctl_bind m f = (\<lambda>s.
     case m s of
       None \<Rightarrow> None
     | Some (Err e, s') \<Rightarrow> Some (Err e, s')
     | Some (Ok x, s') \<Rightarrow> f x s')"

section \<open>Faults, sending and revocation\<close>

definition fault_protocol :: "'e helper_control_error \<Rightarrow> 'e fault" where
  "fault_protocol e = \<lparr> fa_error = e, fa_reason = RV_ProtocolViolation, fa_code = Some EC_InvalidControl \<rparr>"

definition fault_establishment :: "string \<Rightarrow> 'e fault" where
  "fault_establishment field =
     \<lparr> fa_error = HE_EstablishmentMismatch field, fa_reason = RV_EstablishmentMismatch, fa_code = Some EC_InvalidControl \<rparr>"

definition fault_registry :: "registry_error \<Rightarrow> 'e fault" where
  "fault_registry e = \<lparr> fa_error = HE_Registry e, fa_reason = RV_RegistryUnavailable, fa_code = Some EC_Unavailable \<rparr>"

definition fault_retained :: "'e fault" where
  "fault_retained =
     \<lparr> fa_error = HE_RetainedBytesMismatch, fa_reason = RV_RetainedBytesMismatch, fa_code = Some EC_InvalidControl \<rparr>"

definition fault_version :: "'e fault" where
  "fault_version =
     \<lparr> fa_error = HE_VersionExhausted, fa_reason = RV_VersionExhausted, fa_code = Some EC_ResourceLimit \<rparr>"

definition fault_resource :: "'e helper_control_error \<Rightarrow> 'e fault" where
  "fault_resource e = \<lparr> fa_error = e, fa_reason = RV_ResourceLimit, fa_code = Some EC_ResourceLimit \<rparr>"

definition fault_transport :: "'e helper_control_error \<Rightarrow> 'e fault" where
  "fault_transport e = \<lparr> fa_error = e, fa_reason = RV_ControlTransport, fa_code = None \<rparr>"

definition fault_peer :: "error_code \<Rightarrow> 'e fault" where
  "fault_peer code = \<lparr> fa_error = HE_PeerError code, fa_reason = RV_PeerError, fa_code = None \<rparr>"

definition fault_random_for :: "'e helper_control_error \<Rightarrow> 'e fault" where
  "fault_random_for e = \<lparr> fa_error = e, fa_reason = RV_RandomUnavailable, fa_code = Some EC_Unavailable \<rparr>"

fun frame_control_error :: "'e frame_error \<Rightarrow> 'e helper_control_error" where
  "frame_control_error (FrE_Record e) = HE_Record e"
| "frame_control_error other = HE_Frame other"

definition send_fault :: "'e helper_control_error \<Rightarrow> 'e fault" where
  "send_fault e =
     (case e of
        HE_VersionExhausted \<Rightarrow> \<lparr> fa_error = e, fa_reason = RV_VersionExhausted, fa_code = None \<rparr>
      | HE_ResourceLimit \<Rightarrow> fault_resource e
      | HE_Frame (FrE_AllocationFailed _) \<Rightarrow> fault_resource e
      | HE_Frame (FrE_QueueFull _) \<Rightarrow> fault_resource e
      | HE_Frame (FrE_ByteBudgetExceeded _) \<Rightarrow> fault_resource e
      | _ \<Rightarrow> \<lparr> fa_error = e, fa_reason = RV_ControlTransport, fa_code = None \<rparr>)"

definition raw_send :: "('t, 'p, 'e, 'w) control_env \<Rightarrow> ('t, 'p) record_body \<Rightarrow> ('t, 'e, 'w, unit) ctl" where
  "raw_send env body = (\<lambda>(h, w).
     case cv_next_sequence env (hc_out_sequence h) of
       None \<Rightarrow> Some (Err HE_VersionExhausted, h, w)
     | Some seq \<Rightarrow>
         (case send_record (cv_frames env) (cv_io env)
                 \<lparr> rec_sender = SN_Helper, rec_sequence = seq, rec_session_id = hc_session_id h, rec_body = body \<rparr>
                 (hc_writer h) w of
            None \<Rightarrow> None
          | Some (Err e, fw, w') \<Rightarrow> Some (Err (frame_control_error e), h\<lparr> hc_writer := fw \<rparr>, w')
          | Some (Ok _, fw, w') \<Rightarrow> Some (Ok (), h\<lparr> hc_writer := fw, hc_out_sequence := seq \<rparr>, w')))"

definition clear_authority :: "'t helper_control \<Rightarrow> 't helper_control" where
  "clear_authority h =
     h\<lparr> hc_lifetime := None, hc_predecessor := None, hc_retired := retired_default, hc_pending := None,
        hc_receipt := None, hc_writer := writer_clear (hc_writer h) \<rparr>"

definition ctl_fail :: "('t, 'p, 'e, 'w) control_env \<Rightarrow> 'e fault \<Rightarrow> ('t, 'e, 'w, 'a) ctl" where
  "ctl_fail env f = (\<lambda>(h, w).
     if hc_phase h = PH_Revoked then Some (Err (fa_error f), h, w)
     else let h1 = clear_authority (h\<lparr> hc_phase := PH_Revoked, hc_revocation := Some (fa_reason f) \<rparr>)
          in case fa_code f of
               None \<Rightarrow> Some (Err (fa_error f), h1, w)
             | Some code \<Rightarrow>
                 map_option (\<lambda>(_, s). (Err (fa_error f), s)) (raw_send env (RB_Error code) (h1, w)))"

definition ctl_emit :: "('t, 'p, 'e, 'w) control_env \<Rightarrow> ('t, 'p) record_body \<Rightarrow> ('t, 'e, 'w, unit) ctl" where
  "ctl_emit env body = (\<lambda>s.
     case raw_send env body s of
       None \<Rightarrow> None
     | Some (Ok _, s') \<Rightarrow> Some (Ok (), s')
     | Some (Err e, s') \<Rightarrow> ctl_fail env (send_fault e) s')"

definition read_fault :: "'e frame_error \<Rightarrow> 'e fault" where
  "read_fault e =
     (case e of
        FrE_Closed \<Rightarrow> fault_transport (frame_control_error e)
      | FrE_TruncatedPrefix _ \<Rightarrow> fault_transport (frame_control_error e)
      | FrE_TruncatedBody _ _ \<Rightarrow> fault_transport (frame_control_error e)
      | FrE_Io _ \<Rightarrow> fault_transport (frame_control_error e)
      | FrE_WriteZero \<Rightarrow> fault_transport (frame_control_error e)
      | FrE_AllocationFailed _ \<Rightarrow> fault_resource (frame_control_error e)
      | FrE_QueueFull _ \<Rightarrow> fault_resource (frame_control_error e)
      | FrE_ByteBudgetExceeded _ \<Rightarrow> fault_resource (frame_control_error e)
      | _ \<Rightarrow> fault_protocol (frame_control_error e))"

definition read_incoming :: "('t, 'p, 'e, 'w) control_env \<Rightarrow> ('t, 'e, 'w, ('t, 'p) control_record) ctl" where
  "read_incoming env = (\<lambda>(h, w).
     case read_record (cv_frames env) (cv_io env) w of
       None \<Rightarrow> None
     | Some (Ok r, w') \<Rightarrow> Some (Ok r, h, w')
     | Some (Err e, w') \<Rightarrow> ctl_fail env (read_fault e) (h, w'))"

definition validate_envelope ::
  "('t, 'p, 'e, 'w) control_env \<Rightarrow> ('t, 'p) control_record \<Rightarrow> ('t, 'e, 'w, unit) ctl" where
  "validate_envelope env r = (\<lambda>(h, w).
     if rec_sender r \<noteq> SN_Core
     then ctl_fail env (fault_protocol (HE_UnexpectedSender (rec_sender r))) (h, w)
     else if \<not> cv_valid_session env (hc_session_id h) (rec_session_id r)
     then ctl_fail env (fault_protocol HE_SessionMismatch) (h, w)
     else if cv_valid_sequence env (hc_in_sequence h) (rec_sequence r)
     then Some (Ok (), h\<lparr> hc_in_sequence := rec_sequence r \<rparr>, w)
     else ctl_fail env (fault_protocol HE_SequenceMismatch) (h, w))"

definition snapshot_or_fail :: "('t, 'p, 'e, 'w) control_env \<Rightarrow> ('t, 'e, 'w, 'p registry_snapshot) ctl" where
  "snapshot_or_fail env = (\<lambda>(h, w).
     case cv_snapshot env w of
       Ok s \<Rightarrow> Some (Ok s, h, w)
     | Err e \<Rightarrow> ctl_fail env (fault_registry e) (h, w))"

definition random_id ::
  "('t, 'p, 'e, 'w) control_env \<Rightarrow> 'w \<Rightarrow> (control_id, 'e helper_control_error) result \<times> 'w" where
  "random_id env w =
     (case cv_fill_random env RANDOM_ID_BYTES w of
        (None, w') \<Rightarrow> (Err HE_RandomUnavailable, w')
      | (Some bs, w') \<Rightarrow> (Ok bs, w'))"

definition fresh_lifetime ::
  "('t, 'p, 'e, 'w) control_env \<Rightarrow> u64 \<Rightarrow> 't helper_control \<Rightarrow> 'w
     \<Rightarrow> (lifetime, 'e helper_control_error) result \<times> 'w" where
  "fresh_lifetime env feed_revision h w =
     (case cv_fill_random env RANDOM_ID_BYTES w of
        (None, w1) \<Rightarrow> (Err HE_RandomUnavailable, w1)
      | (Some lid, w1) \<Rightarrow>
          (case cv_fill_random env (cv_lifetime_secret_bytes env) w1 of
             (None, w2) \<Rightarrow> (Err HE_RandomUnavailable, w2)
           | (Some secret, w2) \<Rightarrow>
               if (case hc_lifetime h of Some l \<Rightarrow> lt_id l = lid | None \<Rightarrow> False)
                  \<or> (case hc_predecessor h of Some p \<Rightarrow> rl_id p = lid | None \<Rightarrow> False)
                  \<or> lifetime_conflicts (hc_retired h) lid
               then (Err HE_RandomUnavailable, w2)
               else (Ok \<lparr> lt_id = lid, lt_feed_revision = feed_revision, lt_secret = secret \<rparr>, w2)))"

definition retire_current :: "'t helper_control \<Rightarrow> 't helper_control" where
  "retire_current h =
     (case hc_lifetime h of
        None \<Rightarrow> h
      | Some previous \<Rightarrow>
          h\<lparr> hc_lifetime := None, hc_retired := note_lifetime (lt_id previous) (hc_retired h),
             hc_predecessor := Some \<lparr> rl_id = lt_id previous, rl_feed_revision = lt_feed_revision previous \<rparr> \<rparr>)"

definition clear_receipt :: "'t helper_control \<Rightarrow> 't helper_control" where
  "clear_receipt h =
     (case hc_receipt h of
        None \<Rightarrow> h
      | Some r \<Rightarrow> h\<lparr> hc_receipt := None, hc_retired := note_receipt (ar_receipt r) (hc_retired h) \<rparr>)"

section \<open>Handlers\<close>

definition require_active :: "('t, 'e, 'w, unit) ctl" where
  "require_active = (\<lambda>(h, w).
     case hc_phase h of
       PH_Revoked \<Rightarrow> Some (Err HE_Closed, h, w)
     | PH_AwaitingEstablish \<Rightarrow> Some (Err HE_NotEstablished, h, w)
     | _ \<Rightarrow> Some (Ok (), h, w))"

definition current_identity :: "('t, 'e, 'w, control_id \<times> u64) ctl" where
  "current_identity = (\<lambda>(h, w).
     case hc_lifetime h of
       Some l \<Rightarrow> Some (Ok (lt_id l, lt_feed_revision l), h, w)
     | None \<Rightarrow> Some (Err HE_NotEstablished, h, w))"

definition accept_echo :: "('t, 'p, 'e, 'w) control_env \<Rightarrow> establishment_echo \<Rightarrow> ('t, 'e, 'w, unit) ctl" where
  "accept_echo env echo = (\<lambda>(h, w).
     case expectations_verify (hc_expectations h) echo of
       Err field \<Rightarrow> ctl_fail env (fault_establishment field) (h, w)
     | Ok _ \<Rightarrow>
         ctl_bind (snapshot_or_fail env) (\<lambda>snapshot (h, w).
         case fresh_lifetime env (sn_feed_revision snapshot) h w of
           (Err e, w') \<Rightarrow> ctl_fail env (fault_random_for e) (h, w')
         | (Ok l, w') \<Rightarrow>
             ctl_bind (ctl_emit env (RB_Established echo (lt_id l))) (\<lambda>_.
             ctl_emit env (RB_Projection (lt_id l) (sn_feed_revision snapshot) (sn_projection snapshot)))
               (h\<lparr> hc_lifetime := Some l, hc_phase := PH_Ready \<rparr>, w')) (h, w))"

definition establish :: "('t, 'p, 'e, 'w) control_env \<Rightarrow> ('t, 'e, 'w, unit) ctl" where
  "establish env = (\<lambda>(h, w).
     if hc_phase h = PH_Revoked then Some (Err HE_Closed, h, w)
     else if hc_phase h \<noteq> PH_AwaitingEstablish
     then ctl_fail env (fault_protocol HE_AlreadyEstablished) (h, w)
     else
       ctl_bind (read_incoming env) (\<lambda>r.
       ctl_bind (validate_envelope env r) (\<lambda>_.
       case rec_body r of
         RB_Establish echo \<Rightarrow> accept_echo env echo
       | body \<Rightarrow> ctl_fail env (fault_protocol (HE_UnexpectedRecord (cv_kind env body))))) (h, w))"

text \<open>The tail that every rotation shares: a fresh lifetime at the given revision replaces the current one and is
  announced with the projection.\<close>

definition rotate_lifetime ::
  "('t, 'p, 'e, 'w) control_env \<Rightarrow> control_id \<Rightarrow> u64 \<Rightarrow> invalidate_reason \<Rightarrow> 'p
     \<Rightarrow> ('t, 'e, 'w, 't control_outcome) ctl" where
  "rotate_lifetime env previous feed_revision reason projection = (\<lambda>(h, w).
     case fresh_lifetime env feed_revision h w of
       (Err e, w') \<Rightarrow> ctl_fail env (fault_random_for e) (h, w')
     | (Ok l, w') \<Rightarrow>
         ctl_bind (ctl_emit env (RB_Lifetime (lt_id l) feed_revision)) (\<lambda>_.
         ctl_bind (ctl_emit env (RB_Projection (lt_id l) feed_revision projection)) (\<lambda>_.
         ctl_return (ST_LifetimeRotated previous (lt_id l) feed_revision reason)))
           ((retire_current h)\<lparr> hc_lifetime := Some l, hc_phase := PH_Ready \<rparr>, w'))"

definition registry_mutated ::
  "('t, 'p, 'e, 'w) control_env \<Rightarrow> ('w \<Rightarrow> (unit, registry_error) result \<times> 'w)
     \<Rightarrow> ('t, 'e, 'w, 't control_outcome) ctl" where
  "registry_mutated env mutate =
     ctl_bind require_active (\<lambda>_.
     ctl_bind current_identity (\<lambda>(previous, feed_revision).
     case checked_add feed_revision 1 of
       None \<Rightarrow> ctl_fail env fault_version
     | Some new_revision \<Rightarrow>
         ctl_bind (snapshot_or_fail env) (\<lambda>before.
         if sn_feed_revision before \<noteq> feed_revision
         then ctl_fail env (fault_protocol HE_StaleAuthority)
         else (\<lambda>(h, w).
           ctl_bind (ctl_emit env (RB_Invalidate previous feed_revision IR_RegistryMutation)) (\<lambda>_ (h, w).
           case mutate w of
             (Err e, w') \<Rightarrow> ctl_fail env (fault_registry e) (h, w')
           | (Ok _, w') \<Rightarrow>
               ctl_bind (snapshot_or_fail env) (\<lambda>after.
               if sn_feed_revision after \<noteq> new_revision
               then ctl_fail env (fault_registry RgE_InvalidRevision)
               else rotate_lifetime env previous new_revision IR_RegistryMutation (sn_projection after))
                 (h, w'))
             (clear_receipt (h\<lparr> hc_pending := None \<rparr>), w)))))"

definition control_reset :: "('t, 'p, 'e, 'w) control_env \<Rightarrow> ('t, 'e, 'w, 't control_outcome) ctl" where
  "control_reset env =
     ctl_bind require_active (\<lambda>_.
     ctl_bind current_identity (\<lambda>(previous, feed_revision) (h, w).
       ctl_bind (ctl_emit env (RB_Invalidate previous feed_revision IR_Reset)) (\<lambda>_.
       ctl_bind (snapshot_or_fail env) (\<lambda>snapshot.
       if sn_feed_revision snapshot \<noteq> feed_revision
       then ctl_fail env (fault_protocol HE_StaleAuthority)
       else rotate_lifetime env previous feed_revision IR_Reset (sn_projection snapshot)))
         (clear_receipt (h\<lparr> hc_pending := None \<rparr>), w)))"

definition control_close :: "'t helper_control \<Rightarrow> 't helper_control" where
  "control_close h =
     (if hc_phase h = PH_Revoked then h
      else clear_authority (h\<lparr> hc_phase := PH_Revoked, hc_revocation := Some RV_LocalClose \<rparr>))"

definition proof_state_of :: "'t helper_control \<Rightarrow> proof_state" where
  "proof_state_of h =
     (if hc_phase h = PH_Revoked then PS_Revoked
      else if hc_lifetime h = None then PS_Unestablished
      else if hc_pending h \<noteq> None then PS_Acknowledged
      else case hc_receipt h of Some r \<Rightarrow> PS_Bound (ar_receipt r) | None \<Rightarrow> PS_Unbound)"

definition handle_publish ::
  "('t, 'p, 'e, 'w) control_env \<Rightarrow> control_id \<Rightarrow> u64 \<Rightarrow> 't \<Rightarrow> 'p \<Rightarrow> ('t, 'e, 'w, 't control_outcome) ctl" where
  "handle_publish env lid revision tuple payload =
     ctl_bind current_identity (\<lambda>(lifetime_id, feed_revision) (h, w).
     if lid \<noteq> lifetime_id \<or> revision \<noteq> feed_revision
     then ctl_fail env (fault_protocol HE_StaleAuthority) (h, w)
     else if hc_pending h \<noteq> None
     then ctl_fail env (fault_protocol HE_PublicationAlreadyPending) (h, w)
     else if cv_tuple_nonce env tuple \<noteq> hc_session_id h
     then ctl_fail env (fault_protocol HE_PublicationIdentityMismatch) (h, w)
     else if cv_tuple_version env tuple \<le> hc_last_core_publication_version h
     then ctl_fail env (fault_protocol HE_PublicationVersionNotIncreasing) (h, w)
     else case random_id env w of
       (Err e, w') \<Rightarrow> ctl_fail env (fault_random_for e) (h, w')
     | (Ok ack_id, w') \<Rightarrow>
         if (case hc_receipt h of Some r \<Rightarrow> ar_receipt r = ack_id | None \<Rightarrow> False)
            \<or> receipt_bytes_conflict (hc_retired h) ack_id
         then ctl_fail env (fault_random_for HE_RandomUnavailable) (h, w')
         else
           ctl_bind (ctl_emit env (RB_Ack lifetime_id feed_revision tuple ack_id)) (\<lambda>_.
           ctl_return (ST_Published tuple))
             ((clear_receipt h)\<lparr>
                hc_pending := Some \<lparr> pn_lifetime_id = lifetime_id, pn_feed_revision = feed_revision,
                  pn_tuple = tuple, pn_retained = cv_canonical_bytes env payload, pn_ack_id = ack_id \<rparr>,
                hc_last_core_publication_version := cv_tuple_version env tuple,
                hc_phase := PH_AwaitingBind \<rparr>, w'))"

definition handle_bind ::
  "('t, 'p, 'e, 'w) control_env \<Rightarrow> control_id \<Rightarrow> u64 \<Rightarrow> 't \<Rightarrow> control_id \<Rightarrow> ('t, 'e, 'w, 't control_outcome) ctl" where
  "handle_bind env lid revision tuple ack_id = (\<lambda>(h, w).
     case hc_pending h of
       None \<Rightarrow> ctl_fail env (fault_protocol HE_NoPendingBind) (h, w)
     | Some pending \<Rightarrow>
         let h1 = h\<lparr> hc_pending := None \<rparr> in
         if lid \<noteq> pn_lifetime_id pending \<or> revision \<noteq> pn_feed_revision pending \<or> tuple \<noteq> pn_tuple pending
            \<or> ack_id \<noteq> pn_ack_id pending
         then ctl_fail env (fault_protocol HE_BindMismatch) (h1, w)
         else (case cv_retained_matches env (pn_feed_revision pending) (pn_retained pending) w of
           Err e \<Rightarrow> ctl_fail env (fault_registry e) (h1, w)
         | Ok False \<Rightarrow> ctl_fail env fault_retained (h1, w)
         | Ok True \<Rightarrow>
             (case random_id env w of
                (Err e, w') \<Rightarrow> ctl_fail env (fault_random_for e) (h1, w')
              | (Ok receipt, w') \<Rightarrow>
                  if receipt = pn_ack_id pending \<or> receipt_bytes_conflict (hc_retired h1) receipt
                  then ctl_fail env (fault_random_for HE_RandomUnavailable) (h1, w')
                  else
                    ctl_bind (ctl_emit env
                        (RB_Bound (pn_lifetime_id pending) (pn_feed_revision pending) (pn_tuple pending) receipt)) (\<lambda>_.
                    ctl_return (ST_Bound (pn_tuple pending) receipt))
                      (h1\<lparr> hc_receipt := Some \<lparr> ar_tuple = pn_tuple pending, ar_receipt = receipt \<rparr>,
                           hc_phase := PH_Ready \<rparr>, w'))))"

definition close_authority :: "'t helper_control \<Rightarrow> 't helper_control" where
  "close_authority h =
     clear_authority (h\<lparr> hc_phase := PH_Revoked, hc_revocation := Some RV_PeerWithdrewAuthority \<rparr>)"

definition handle_invalidate ::
  "('t, 'p, 'e, 'w) control_env \<Rightarrow> control_id \<Rightarrow> u64 \<Rightarrow> invalidate_reason \<Rightarrow> ('t, 'e, 'w, 't control_outcome) ctl" where
  "handle_invalidate env lid revision reason = (\<lambda>(h, w).
     if reason = IR_RegistryMutation then ctl_fail env (fault_protocol HE_CoreRegistryMutation) (h, w)
     else if (case hc_lifetime h of Some l \<Rightarrow> lt_id l = lid \<and> lt_feed_revision l = revision | None \<Rightarrow> False)
     then let h1 = clear_receipt (h\<lparr> hc_pending := None \<rparr>) in
          if reason = IR_GrantLoss \<or> reason = IR_Shutdown
          then Some (Ok (ST_AuthorityClosed reason), close_authority h1, w)
          else ctl_bind (snapshot_or_fail env) (\<lambda>snapshot.
               if sn_feed_revision snapshot \<noteq> revision
               then ctl_fail env (fault_protocol HE_StaleAuthority)
               else rotate_lifetime env lid revision reason (sn_projection snapshot)) (h1, w)
     else if hc_predecessor h = Some \<lparr> rl_id = lid, rl_feed_revision = revision \<rparr>
     then let h1 = h\<lparr> hc_predecessor := None \<rparr> in
          if reason = IR_GrantLoss \<or> reason = IR_Shutdown
          then Some (Ok (ST_AuthorityClosed reason), close_authority h1, w)
          else Some (Ok ST_PredecessorCorrelated, h1, w)
     else ctl_fail env (fault_protocol HE_StaleAuthority) (h, w))"

text \<open>A peer error revokes and is reported as a step.\<close>

definition handle_peer_error ::
  "('t, 'p, 'e, 'w) control_env \<Rightarrow> error_code \<Rightarrow> ('t, 'e, 'w, 't control_outcome) ctl" where
  "handle_peer_error env code = (\<lambda>s.
     map_option (\<lambda>(_ :: (unit, 'e helper_control_error) result, s'). (Ok (ST_PeerError code), s'))
       (ctl_fail env (fault_peer code) s))"

definition handle_record ::
  "('t, 'p, 'e, 'w) control_env \<Rightarrow> ('t, 'p) record_body \<Rightarrow> ('t, 'e, 'w, 't control_outcome) ctl" where
  "handle_record env body =
     (case body of
        RB_Publish lid revision tuple payload \<Rightarrow> handle_publish env lid revision tuple payload
      | RB_Bind lid revision tuple ack_id \<Rightarrow> handle_bind env lid revision tuple ack_id
      | RB_Invalidate lid revision reason \<Rightarrow> handle_invalidate env lid revision reason
      | RB_Error code \<Rightarrow> handle_peer_error env code
      | _ \<Rightarrow> ctl_fail env (fault_protocol (HE_UnexpectedRecord (cv_kind env body))))"

definition control_step :: "('t, 'p, 'e, 'w) control_env \<Rightarrow> ('t, 'e, 'w, 't control_outcome) ctl" where
  "control_step env =
     ctl_bind require_active (\<lambda>_.
     ctl_bind (read_incoming env) (\<lambda>r.
     ctl_bind (validate_envelope env r) (\<lambda>_.
     handle_record env (rec_body r))))"

end
