(* ===== verification/Control_Theorems.thy ===== *)
theory Control_Theorems
  imports Control_State
begin

text \<open>
  What the helper's state machine guarantees against any peer, registry, random source and stream: the
  phases and the authority that is held always agree, every failure revokes, revocation is final, and a
  receipt is only issued for an exact bind of the acknowledged publication.
\<close>

section \<open>Partial correctness of control operations\<close>

definition opt_post :: "('r \<times> 'h \<times> 'w) option \<Rightarrow> ('r \<Rightarrow> 'h \<Rightarrow> 'w \<Rightarrow> bool) \<Rightarrow> bool" where
  "opt_post v Q \<longleftrightarrow> (\<forall>r h w. v = Some (r, h, w) \<longrightarrow> Q r h w)"

abbreviation ctl_post ::
  "('t, 'e, 'w, 'a) ctl \<Rightarrow> (('a, 'e helper_control_error) result \<Rightarrow> 't helper_control \<Rightarrow> 'w \<Rightarrow> bool)
     \<Rightarrow> 't helper_control \<times> 'w \<Rightarrow> bool" where
  "ctl_post m Q s \<equiv> opt_post (m s) Q"

lemma opt_post_simps [simp]: "opt_post None Q" "opt_post (Some (r, h, w)) Q = Q r h w"
  by (simp_all add: opt_post_def)

lemma ctl_postI: "(\<And>r h w. m s = Some (r, h, w) \<Longrightarrow> Q r h w) \<Longrightarrow> ctl_post m Q s"
  by (simp add: opt_post_def)

lemma ctl_postD: "ctl_post m Q s \<Longrightarrow> m s = Some (r, h, w) \<Longrightarrow> Q r h w"
  by (simp add: opt_post_def)

lemma ctl_post_return [simp]: "ctl_post (ctl_return x) Q (h, w) = Q (Ok x) h w"
  by (simp add: ctl_return_def)

lemma ctl_post_bind:
  assumes "ctl_post m (\<lambda>r h w. case r of Err e \<Rightarrow> Q (Err e) h w | Ok x \<Rightarrow> ctl_post (f x) Q (h, w)) s"
  shows "ctl_post (ctl_bind m f) Q s"
proof (rule ctl_postI)
  fix r h w
  assume "ctl_bind m f s = Some (r, h, w)"
  then obtain r1 h1 w1 where m: "m s = Some (r1, h1, w1)"
    and r: "case r1 of Err e \<Rightarrow> (Err e, h1, w1) = (r, h, w) | Ok x \<Rightarrow> f x (h1, w1) = Some (r, h, w)"
    by (auto simp: ctl_bind_def split: option.splits prod.splits result.splits)
  from assms m have "case r1 of Err e \<Rightarrow> Q (Err e) h1 w1 | Ok x \<Rightarrow> ctl_post (f x) Q (h1, w1)" by simp
  with r show "Q r h w" by (cases r1) auto
qed

section \<open>Sending and failing\<close>

definition revoked_as :: "revocation_reason \<Rightarrow> 't helper_control \<Rightarrow> 't helper_control" where
  "revoked_as reason h = clear_authority (h\<lparr> hc_phase := PH_Revoked, hc_revocation := Some reason \<rparr>)"

lemma send_record_writer:
  "send_record P io r frame_writer_new w = Some (res, fw, w') \<Longrightarrow> fw = frame_writer_new"
  by (auto simp: send_record_def writer_enqueue_def enqueue_frame_def writer_flush_def frame_writer_new_def Let_def
      split: result.splits if_splits option.splits prod.splits)

lemma raw_send_state:
  assumes "raw_send env body (h, w) = Some (r, h', w')" "hc_writer h = frame_writer_new"
  shows "\<exists>q. h' = h\<lparr> hc_out_sequence := q \<rparr>"
  using assms
  by (cases h) (auto simp: raw_send_def dest!: send_record_writer split: option.splits prod.splits result.splits)

lemma ctl_post_fail:
  assumes "hc_phase h \<noteq> PH_Revoked"
    and "\<And>q w'. Q (Err (fa_error f)) ((revoked_as (fa_reason f) h)\<lparr> hc_out_sequence := q \<rparr>) w'"
  shows "ctl_post (ctl_fail env f) Q (h, w)"
proof (rule ctl_postI, goal_cases)
  case a: (1 r h' w')
  let ?h = "revoked_as (fa_reason f) h"
  have "r = Err (fa_error f) \<and> (\<exists>q. h' = ?h\<lparr> hc_out_sequence := q \<rparr>)"
  proof (cases "fa_code f")
    case None
    with a assms(1) show ?thesis
      by (auto simp: ctl_fail_def revoked_as_def Let_def intro!: exI [of _ "hc_out_sequence h"]) (cases h; simp add: clear_authority_def)
  next
    case (Some code)
    have w: "hc_writer ?h = frame_writer_new"
      by (simp add: revoked_as_def clear_authority_def writer_clear_def frame_writer_new_def)
    from a assms(1) Some obtain r1 where
      s: "raw_send env (RB_Error code) (?h, w) = Some (r1, h', w')" "r = Err (fa_error f)"
      by (auto simp: ctl_fail_def revoked_as_def Let_def)
    from raw_send_state [OF s(1) w] s(2) show ?thesis by simp
  qed
  with assms(2) show ?case by auto
qed

lemma ctl_post_emit:
  assumes "hc_phase h \<noteq> PH_Revoked" "hc_writer h = frame_writer_new"
    and "\<And>q w'. Q (Ok ()) (h\<lparr> hc_out_sequence := q \<rparr>) w'"
    and "\<And>e reason q w'. Q (Err e) ((revoked_as reason h)\<lparr> hc_out_sequence := q \<rparr>) w'"
  shows "ctl_post (ctl_emit env body) Q (h, w)"
proof (rule ctl_postI)
  fix r h' w'
  assume a: "ctl_emit env body (h, w) = Some (r, h', w')"
  then obtain r1 h1 w1 where s: "raw_send env body (h, w) = Some (r1, h1, w1)"
    by (auto simp: ctl_emit_def split: option.splits)
  from raw_send_state [OF s assms(2)] obtain q where h1: "h1 = h\<lparr> hc_out_sequence := q \<rparr>" by blast
  show "Q r h' w'"
  proof (cases r1)
    case (Ok u)
    with a s h1 assms(3) show ?thesis by (auto simp: ctl_emit_def)
  next
    case (Err e)
    then have f: "ctl_fail env (send_fault e) (h1, w1) = Some (r, h', w')" using a s by (simp add: ctl_emit_def)
    have eq: "(revoked_as reason (h\<lparr> hc_out_sequence := q \<rparr>))\<lparr> hc_out_sequence := q' \<rparr> = (revoked_as reason h)\<lparr> hc_out_sequence := q' \<rparr>" for reason q'
      by (simp add: revoked_as_def clear_authority_def)
    have "ctl_post (ctl_fail env (send_fault e)) Q (h1, w1)"
      using assms(1,4) h1 by (intro ctl_post_fail) (simp_all add: h1 eq)
    with f show ?thesis by (rule ctl_postD [rotated])
  qed
qed

section \<open>The invariant\<close>

definition control_inv :: "('t, 'p, 'e, 'w) control_env \<Rightarrow> 't helper_control \<Rightarrow> bool" where
  "control_inv env h \<longleftrightarrow>
     hc_writer h = frame_writer_new \<and>
     (hc_revocation h \<noteq> None \<longleftrightarrow> hc_phase h = PH_Revoked) \<and>
     (hc_lifetime h \<noteq> None \<longleftrightarrow> hc_phase h \<in> {PH_Ready, PH_AwaitingBind}) \<and>
     (hc_predecessor h \<noteq> None \<longrightarrow> hc_lifetime h \<noteq> None) \<and>
     (hc_pending h \<noteq> None \<longleftrightarrow> hc_phase h = PH_AwaitingBind) \<and>
     (hc_receipt h \<noteq> None \<longrightarrow> hc_phase h = PH_Ready) \<and>
     (\<forall>p l. hc_pending h = Some p \<longrightarrow> hc_lifetime h = Some l \<longrightarrow>
        pn_lifetime_id p = lt_id l \<and> pn_feed_revision p = lt_feed_revision l) \<and>
     (\<forall>p. hc_pending h = Some p \<longrightarrow> cv_tuple_nonce env (pn_tuple p) = hc_session_id h \<and>
        cv_tuple_version env (pn_tuple p) = hc_last_core_publication_version h) \<and>
     (\<forall>r. hc_receipt h = Some r \<longrightarrow> cv_tuple_nonce env (ar_tuple r) = hc_session_id h \<and>
        cv_tuple_version env (ar_tuple r) = hc_last_core_publication_version h)"

text \<open>What an operation may do to a session: the invariant and the identity are kept, the publication version never
  decreases, and an error leaves the session revoked.\<close>

definition control_keeps :: "('t, 'p, 'e, 'w) control_env \<Rightarrow> 't helper_control \<Rightarrow> 't helper_control \<Rightarrow> bool" where
  "control_keeps env h h' \<longleftrightarrow>
     control_inv env h' \<and> hc_session_id h' = hc_session_id h \<and> hc_expectations h' = hc_expectations h \<and>
     hc_last_core_publication_version h \<le> hc_last_core_publication_version h'"

definition control_moves ::
  "('t, 'p, 'e, 'w) control_env \<Rightarrow> 't helper_control \<Rightarrow> ('a, 'e helper_control_error) result \<Rightarrow> 't helper_control \<Rightarrow> bool" where
  "control_moves env h r h' \<longleftrightarrow> control_keeps env h h' \<and> (\<forall>e. r = Err e \<longrightarrow> hc_phase h' = PH_Revoked)"

lemma control_inv_revoked: "control_inv env ((revoked_as reason h)\<lparr> hc_out_sequence := q \<rparr>)"
  by (simp add: control_inv_def revoked_as_def clear_authority_def writer_clear_def frame_writer_new_def)

lemma phase_revoked_as [simp]: "hc_phase ((revoked_as reason h)\<lparr> hc_out_sequence := q \<rparr>) = PH_Revoked"
  by (simp add: revoked_as_def clear_authority_def)

text \<open>The states in which a handler may fail or send: same session, not older, not revoked, queue empty.\<close>

definition live_from :: "'t helper_control \<Rightarrow> 't helper_control \<Rightarrow> bool" where
  "live_from h h1 \<longleftrightarrow>
     hc_session_id h1 = hc_session_id h \<and> hc_expectations h1 = hc_expectations h \<and>
     hc_last_core_publication_version h \<le> hc_last_core_publication_version h1 \<and>
     hc_phase h1 \<noteq> PH_Revoked \<and> hc_writer h1 = frame_writer_new"

lemma live_from_out [simp]: "live_from h (h1\<lparr> hc_out_sequence := q \<rparr>) = live_from h h1"
  by (simp add: live_from_def)

lemma keeps_revoked: "live_from h h1 \<Longrightarrow> control_keeps env h ((revoked_as reason h1)\<lparr> hc_out_sequence := q \<rparr>)"
  using control_inv_revoked [where env = env and reason = reason and h = h1 and q = q]
  by (simp add: control_keeps_def live_from_def) (simp add: revoked_as_def clear_authority_def)

lemma fail_moves:
  assumes "live_from h h1" "\<And>e h' w'. control_keeps env h h' \<Longrightarrow> hc_phase h' = PH_Revoked \<Longrightarrow> Q (Err e) h' w'"
  shows "ctl_post (ctl_fail env f) Q (h1, w)"
  using assms(1) by (intro ctl_post_fail assms(2) keeps_revoked) (simp_all add: live_from_def)

lemma emit_moves:
  assumes "live_from h h1" "\<And>q w'. Q (Ok ()) (h1\<lparr> hc_out_sequence := q \<rparr>) w'"
    and "\<And>e h' w'. control_keeps env h h' \<Longrightarrow> hc_phase h' = PH_Revoked \<Longrightarrow> Q (Err e) h' w'"
  shows "ctl_post (ctl_emit env body) Q (h1, w)"
  using assms(1) by (intro ctl_post_emit assms(2,3) keeps_revoked) (simp_all add: live_from_def)

lemma snapshot_moves:
  assumes "live_from h h1" "\<And>s. cv_snapshot env w = Ok s \<Longrightarrow> Q (Ok s) h1 w"
    and "\<And>e h' w'. control_keeps env h h' \<Longrightarrow> hc_phase h' = PH_Revoked \<Longrightarrow> Q (Err e) h' w'"
  shows "ctl_post (snapshot_or_fail env) Q (h1, w)"
proof (cases "cv_snapshot env w")
  case (Ok s)
  with assms(2) show ?thesis by (simp add: snapshot_or_fail_def)
next
  case (Err e)
  have "ctl_post (ctl_fail env (fault_registry e)) Q (h1, w)" using assms(1,3) by (rule fail_moves)
  with Err show ?thesis by (simp add: snapshot_or_fail_def)
qed

text \<open>Two announcements followed by a result.\<close>

lemma announce_moves:
  assumes "live_from h h1" "\<And>q w'. Q (Ok x) (h1\<lparr> hc_out_sequence := q \<rparr>) w'"
    and "\<And>e h' w'. control_keeps env h h' \<Longrightarrow> hc_phase h' = PH_Revoked \<Longrightarrow> Q (Err e) h' w'"
  shows "ctl_post (ctl_bind (ctl_emit env a) (\<lambda>_. ctl_bind (ctl_emit env b) (\<lambda>_. ctl_return x))) Q (h1, w)"
proof (intro ctl_post_bind emit_moves [OF assms(1)])
  show "case Ok () of Err e \<Rightarrow> Q (Err e) (h1\<lparr> hc_out_sequence := q \<rparr>) w' | Ok u \<Rightarrow>
      ctl_post (ctl_bind (ctl_emit env b) (\<lambda>_. ctl_return x)) Q (h1\<lparr> hc_out_sequence := q \<rparr>, w')" for q w'
    using assms(1,2)
    by (simp, intro ctl_post_bind emit_moves [of h]) (auto intro: assms(3))
qed (simp add: assms(3))

section \<open>Rotation\<close>

definition rotated ::
  "control_id \<Rightarrow> u64 \<Rightarrow> invalidate_reason \<Rightarrow> lifetime \<Rightarrow> 't control_outcome \<Rightarrow> 't helper_control \<Rightarrow> bool" where
  "rotated previous revision reason old x h' \<longleftrightarrow>
     (\<exists>l. x = ST_LifetimeRotated previous (lt_id l) revision reason \<and> hc_lifetime h' = Some l \<and>
        lt_feed_revision l = revision \<and> lt_id l \<noteq> lt_id old \<and>
        hc_predecessor h' = Some \<lparr> rl_id = lt_id old, rl_feed_revision = lt_feed_revision old \<rparr> \<and>
        hc_pending h' = None \<and> hc_receipt h' = None)"

lemma fresh_lifetime_Ok:
  assumes "fresh_lifetime env revision h w = (Ok l, w')"
  shows "lt_feed_revision l = revision \<and> (\<forall>old. hc_lifetime h = Some old \<longrightarrow> lt_id l \<noteq> lt_id old) \<and>
    (\<forall>p. hc_predecessor h = Some p \<longrightarrow> lt_id l \<noteq> rl_id p) \<and> ri_lifetime (hc_retired h) \<noteq> Some (lt_id l)"
  using assms by (auto simp: fresh_lifetime_def lifetime_conflicts_def split: prod.splits option.splits if_splits)

lemma rotate_moves:
  assumes "live_from h h1" "hc_lifetime h1 = Some old" "hc_pending h1 = None" "hc_receipt h1 = None" "hc_revocation h1 = None"
    and "\<And>x h' w'. control_keeps env h h' \<Longrightarrow> rotated previous revision reason old x h' \<Longrightarrow> Q (Ok x) h' w'"
    and "\<And>e h' w'. control_keeps env h h' \<Longrightarrow> hc_phase h' = PH_Revoked \<Longrightarrow> Q (Err e) h' w'"
  shows "ctl_post (rotate_lifetime env previous revision reason projection) Q (h1, w)"
proof (cases "fresh_lifetime env revision h1 w")
  case (Pair r w')
  show ?thesis
  proof (cases r)
    case (Err e)
    have "ctl_post (ctl_fail env (fault_random_for e)) Q (h1, w')" using assms(1,7) by (rule fail_moves)
    with Pair Err show ?thesis by (simp add: rotate_lifetime_def)
  next
    case (Ok l)
    let ?h = "(retire_current h1)\<lparr> hc_lifetime := Some l, hc_phase := PH_Ready \<rparr>"
    have live: "live_from h ?h" using assms(1,2) by (simp add: live_from_def retire_current_def)
    have keeps: "control_keeps env h (?h\<lparr> hc_out_sequence := q \<rparr>)" for q
      using assms(1-5) by (simp add: control_keeps_def control_inv_def live_from_def retire_current_def)
    have rot: "rotated previous revision reason old (ST_LifetimeRotated previous (lt_id l) revision reason) (?h\<lparr> hc_out_sequence := q \<rparr>)" for q
      using fresh_lifetime_Ok [of env revision h1 w l w'] Pair Ok assms(2-4) by (simp add: rotated_def retire_current_def)
    from announce_moves [where Q = Q and env = env, OF live assms(6) [OF keeps rot] assms(7)] Pair Ok
    show ?thesis by (simp add: rotate_lifetime_def)
  qed
qed

section \<open>Operations\<close>

lemma inv_live:
  "control_inv env h \<Longrightarrow> hc_phase h \<noteq> PH_Revoked \<Longrightarrow> live_from h h"
  by (simp add: control_inv_def live_from_def)

lemma inv_revocation:
  "control_inv env h \<Longrightarrow> hc_phase h \<noteq> PH_Revoked \<Longrightarrow> hc_revocation h = None"
  by (simp add: control_inv_def)

lemma keeps_refl: "control_inv env h \<Longrightarrow> control_keeps env h h"
  by (simp add: control_keeps_def)

lemma inv_in_sequence [simp]: "control_inv env (h\<lparr> hc_in_sequence := q \<rparr>) = control_inv env h"
  by (simp add: control_inv_def)

lemma keeps_in_sequence [simp]: "control_keeps env (h\<lparr> hc_in_sequence := q \<rparr>) h' = control_keeps env h h'"
  by (simp add: control_keeps_def)

lemma moves_Ok [simp]: "control_moves env h (Ok x) h' \<longleftrightarrow> control_keeps env h h'"
  by (simp add: control_moves_def)

lemma moves_Err [simp]: "control_moves env h (Err e) h' \<longleftrightarrow> control_keeps env h h' \<and> hc_phase h' = PH_Revoked"
  by (simp add: control_moves_def)

definition publish_result ::
  "('t, 'p, 'e, 'w) control_env \<Rightarrow> 't \<Rightarrow> 't helper_control \<Rightarrow> ('t control_outcome, 'e helper_control_error) result
     \<Rightarrow> 't helper_control \<Rightarrow> 'w \<Rightarrow> bool" where
  "publish_result env tuple h r h' w' \<longleftrightarrow>
     control_moves env h r h' \<and>
     (\<forall>x. r = Ok x \<longrightarrow> x = ST_Published tuple \<and> hc_last_core_publication_version h < cv_tuple_version env tuple \<and>
        hc_last_core_publication_version h' = cv_tuple_version env tuple \<and> proof_state_of h' = PS_Acknowledged)"

lemma publish_moves:
  assumes "control_inv env h" "hc_phase h \<in> {PH_Ready, PH_AwaitingBind}"
  shows "ctl_post (handle_publish env lid revision tuple payload) (publish_result env tuple h) (h, w)"
proof -
  have live: "live_from h h" using assms by (auto intro: inv_live)
  have "control_keeps env h h' \<Longrightarrow> hc_phase h' = PH_Revoked \<Longrightarrow> publish_result env tuple h (Err e) h' w'" for e h' w'
    by (simp add: publish_result_def)
  note fails = fail_moves [where Q = "publish_result env tuple h", OF live this]
  from assms obtain l where l: "hc_lifetime h = Some l" by (auto simp: control_inv_def)
  obtain r w' where rnd: "random_id env w = (r, w')" by fastforce
  have emits: "ctl_post (ctl_bind (ctl_emit env (RB_Ack (lt_id l) (lt_feed_revision l) tuple ack)) (\<lambda>_. ctl_return (ST_Published tuple)))
      (publish_result env tuple h)
      ((clear_receipt h)\<lparr> hc_pending := Some \<lparr> pn_lifetime_id = lt_id l, pn_feed_revision = lt_feed_revision l, pn_tuple = tuple,
         pn_retained = cv_canonical_bytes env payload, pn_ack_id = ack \<rparr>,
         hc_last_core_publication_version := cv_tuple_version env tuple, hc_phase := PH_AwaitingBind \<rparr>, w')"
    if "cv_tuple_nonce env tuple = hc_session_id h"
      "hc_last_core_publication_version h < cv_tuple_version env tuple" for ack
    using assms l that
    by (intro ctl_post_bind emit_moves [where h = h])
       (auto simp: publish_result_def live_from_def control_keeps_def control_inv_def clear_receipt_def proof_state_of_def
         split: option.splits)
  show ?thesis
    unfolding handle_publish_def
    by (rule ctl_post_bind) (auto simp: current_identity_def l rnd fails not_le intro!: emits split: result.split)
qed

definition bind_result ::
  "('t, 'p, 'e, 'w) control_env \<Rightarrow> control_id \<Rightarrow> u64 \<Rightarrow> 't \<Rightarrow> control_id \<Rightarrow> 'w \<Rightarrow> 't helper_control
     \<Rightarrow> ('t control_outcome, 'e helper_control_error) result \<Rightarrow> 't helper_control \<Rightarrow> 'w \<Rightarrow> bool" where
  "bind_result env lid revision tuple ack_id w h r h' w' \<longleftrightarrow>
     control_moves env h r h' \<and>
     (\<forall>x. r = Ok x \<longrightarrow>
        (\<exists>p i. hc_pending h = Some p \<and> pn_lifetime_id p = lid \<and> pn_feed_revision p = revision \<and> pn_tuple p = tuple \<and>
           pn_ack_id p = ack_id \<and> cv_retained_matches env revision (pn_retained p) w = Ok True \<and>
           x = ST_Bound tuple i \<and> i \<noteq> ack_id \<and> ri_receipt (hc_retired h) \<noteq> Some i \<and> proof_state_of h' = PS_Bound i))"

lemma bind_moves:
  assumes "control_inv env h" "hc_phase h \<in> {PH_Ready, PH_AwaitingBind}"
  shows "ctl_post (handle_bind env lid revision tuple ack_id) (bind_result env lid revision tuple ack_id w h) (h, w)"
proof (cases "hc_pending h")
  case None
  have "live_from h h" using assms by (auto intro: inv_live)
  then have "ctl_post (ctl_fail env f) (bind_result env lid revision tuple ack_id w h) (h, w)" for f
    by (rule fail_moves) (simp add: bind_result_def)
  with None show ?thesis by (simp add: handle_bind_def)
next
  case (Some p)
  let ?Q = "bind_result env lid revision tuple ack_id w h" and ?h = "h\<lparr> hc_pending := None \<rparr>"
  have live: "live_from h ?h" using assms by (auto simp: live_from_def control_inv_def)
  then have fails: "ctl_post (ctl_fail env f) ?Q (?h, v)" for f v
    by (rule fail_moves) (simp add: bind_result_def)
  obtain r w' where rnd: "random_id env w = (r, w')" by fastforce
  have emits: "ctl_post (ctl_bind (ctl_emit env (RB_Bound (pn_lifetime_id p) (pn_feed_revision p) (pn_tuple p) i))
        (\<lambda>_. ctl_return (ST_Bound (pn_tuple p) i))) ?Q
      (h\<lparr> hc_pending := None, hc_receipt := Some \<lparr> ar_tuple = pn_tuple p, ar_receipt = i \<rparr>, hc_phase := PH_Ready \<rparr>, v)"
    if "lid = pn_lifetime_id p" "revision = pn_feed_revision p" "tuple = pn_tuple p" "ack_id = pn_ack_id p"
      "cv_retained_matches env (pn_feed_revision p) (pn_retained p) w = Ok True" "i \<noteq> pn_ack_id p"
      "\<not> receipt_bytes_conflict (hc_retired h) i" for i v
    using assms Some that
    by (intro ctl_post_bind emit_moves [where h = h])
       (auto simp: bind_result_def live_from_def control_keeps_def control_inv_def proof_state_of_def
         receipt_bytes_conflict_def)
  show ?thesis
  proof (cases "lid = pn_lifetime_id p \<and> revision = pn_feed_revision p \<and> tuple = pn_tuple p \<and> ack_id = pn_ack_id p")
    case False
    then show ?thesis using fails by (auto simp: handle_bind_def Some Let_def)
  next
    case True
    show ?thesis
    proof (cases "cv_retained_matches env (pn_feed_revision p) (pn_retained p) w = Ok True")
      case match: True
      show ?thesis
      proof (cases r)
        case (Err e)
        with True match show ?thesis using fails by (simp add: handle_bind_def Some rnd Let_def)
      next
        case (Ok i)
        show ?thesis
        proof (cases "i = pn_ack_id p \<or> receipt_bytes_conflict (hc_retired h) i")
          case conflict: True
          with True match Ok show ?thesis using fails by (simp add: handle_bind_def Some rnd Let_def)
        next
          case False
          with True match Ok show ?thesis using emits [of i w'] by (simp add: handle_bind_def Some rnd Let_def)
        qed
      qed
    next
      case False
      with True show ?thesis using fails by (simp add: handle_bind_def Some Let_def split: result.split bool.split)
    qed
  qed
qed

definition invalidate_result ::
  "('t, 'p, 'e, 'w) control_env \<Rightarrow> control_id \<Rightarrow> u64 \<Rightarrow> invalidate_reason \<Rightarrow> 't helper_control
     \<Rightarrow> ('t control_outcome, 'e helper_control_error) result \<Rightarrow> 't helper_control \<Rightarrow> 'w \<Rightarrow> bool" where
  "invalidate_result env lid revision reason h r h' w' \<longleftrightarrow>
     control_moves env h r h' \<and>
     (\<forall>x. r = Ok x \<longrightarrow>
        (\<exists>old. hc_lifetime h = Some old \<and> lt_id old = lid \<and> rotated lid revision reason old x h') \<or>
        x = ST_AuthorityClosed reason \<and> hc_phase h' = PH_Revoked \<or>
        x = ST_PredecessorCorrelated \<and> h' = h\<lparr> hc_predecessor := None \<rparr>)"

lemma close_authority_keeps:
  assumes "live_from h h1"
  shows "control_keeps env h (close_authority h1)" "hc_phase (close_authority h1) = PH_Revoked"
  using assms by (simp_all add: control_keeps_def close_authority_def control_inv_def clear_authority_def live_from_def
      writer_clear_def frame_writer_new_def)

lemma clear_receipt_fields [simp]:
  "hc_session_id (clear_receipt h) = hc_session_id h" "hc_expectations (clear_receipt h) = hc_expectations h"
  "hc_last_core_publication_version (clear_receipt h) = hc_last_core_publication_version h"
  "hc_phase (clear_receipt h) = hc_phase h" "hc_writer (clear_receipt h) = hc_writer h"
  "hc_lifetime (clear_receipt h) = hc_lifetime h" "hc_pending (clear_receipt h) = hc_pending h"
  "hc_revocation (clear_receipt h) = hc_revocation h" "hc_receipt (clear_receipt h) = None"
  by (simp_all add: clear_receipt_def split: option.split)

lemma invalidate_moves:
  assumes "control_inv env h" "hc_phase h \<in> {PH_Ready, PH_AwaitingBind}"
  shows "ctl_post (handle_invalidate env lid revision reason) (invalidate_result env lid revision reason h) (h, w)"
proof -
  let ?Q = "invalidate_result env lid revision reason h" and ?h = "clear_receipt (h\<lparr> hc_pending := None \<rparr>)"
  have live: "live_from h h" using assms by (auto intro: inv_live)
  have live1: "live_from h ?h" "live_from h (h\<lparr> hc_predecessor := None \<rparr>)"
    using live by (simp_all add: live_from_def)
  have err: "control_keeps env h h' \<Longrightarrow> hc_phase h' = PH_Revoked \<Longrightarrow> ?Q (Err e) h' w'" for e h' w'
    by (simp add: invalidate_result_def)
  note fails = fail_moves [where Q = ?Q, OF live err]
  note closed = close_authority_keeps [OF live1(1)] close_authority_keeps [OF live1(2)]
  have corr: "control_keeps env h (h\<lparr> hc_predecessor := None \<rparr>)"
    using assms by (simp add: control_keeps_def control_inv_def)
  from assms obtain l where l: "hc_lifetime h = Some l" by (auto simp: control_inv_def)
  have rot: "ctl_post (ctl_bind (snapshot_or_fail env) (\<lambda>s. if sn_feed_revision s \<noteq> revision
        then ctl_fail env (fault_protocol HE_StaleAuthority)
        else rotate_lifetime env lid revision reason (sn_projection s))) ?Q (?h, w)" if "lt_id l = lid"
  proof (rule ctl_post_bind, rule snapshot_moves [OF live1(1)])
    show "case Ok s of Err e \<Rightarrow> ?Q (Err e) ?h w | Ok s \<Rightarrow>
        ctl_post (if sn_feed_revision s \<noteq> revision then ctl_fail env (fault_protocol HE_StaleAuthority)
          else rotate_lifetime env lid revision reason (sn_projection s)) ?Q (?h, w)" for s
    proof (cases "sn_feed_revision s = revision")
      case True
      have "hc_revocation h = None" using assms by (auto intro: inv_revocation)
      with that l live1(1) True show ?thesis
        by simp (rule rotate_moves [where h = h], auto simp: invalidate_result_def)
    next
      case False
      then show ?thesis using fail_moves [where Q = ?Q, OF live1(1) err] by simp
    qed
  qed (simp add: err)
  show ?thesis
    using fails closed corr rot l
    by (auto simp: handle_invalidate_def Let_def invalidate_result_def [where r = "Ok x" for x])
qed

lemma read_incoming_moves:
  assumes "live_from h h"
    and "\<And>r w'. read_record (cv_frames env) (cv_io env) w = Some (Ok r, w') \<Longrightarrow> Q (Ok r) h w'"
    and "\<And>e h' w'. control_keeps env h h' \<Longrightarrow> hc_phase h' = PH_Revoked \<Longrightarrow> Q (Err e) h' w'"
  shows "ctl_post (read_incoming env) Q (h, w)"
proof -
  have "ctl_post (ctl_fail env f) Q (h, v)" for f v using assms(1,3) by (rule fail_moves)
  with assms(2) show ?thesis by (auto simp: read_incoming_def split: option.split result.split)
qed

lemma envelope_moves:
  assumes "live_from h h"
    and "rec_sender r = SN_Core \<Longrightarrow> cv_valid_session env (hc_session_id h) (rec_session_id r) \<Longrightarrow>
      cv_valid_sequence env (hc_in_sequence h) (rec_sequence r) \<Longrightarrow> Q (Ok ()) (h\<lparr> hc_in_sequence := rec_sequence r \<rparr>) w"
    and "\<And>e h' w'. control_keeps env h h' \<Longrightarrow> hc_phase h' = PH_Revoked \<Longrightarrow> Q (Err e) h' w'"
  shows "ctl_post (validate_envelope env r) Q (h, w)"
proof -
  have "ctl_post (ctl_fail env f) Q (h, v)" for f v using assms(1,3) by (rule fail_moves)
  with assms(2) show ?thesis by (auto simp: validate_envelope_def)
qed

text \<open>The evidence behind a receipt: a record of the authenticated peer, in sequence, that echoes exactly the pending
  acknowledgement, and a registry that still has the retained bytes.\<close>

definition bound_evidence ::
  "('t, 'p, 'e, 'w) control_env \<Rightarrow> 't helper_control \<Rightarrow> 'w \<Rightarrow> 't \<Rightarrow> control_id \<Rightarrow> 't helper_control \<Rightarrow> bool" where
  "bound_evidence env h w tuple i h' \<longleftrightarrow>
     (\<exists>r w1 p. read_record (cv_frames env) (cv_io env) w = Some (Ok r, w1) \<and> hc_pending h = Some p \<and>
        rec_sender r = SN_Core \<and> cv_valid_session env (hc_session_id h) (rec_session_id r) \<and>
        cv_valid_sequence env (hc_in_sequence h) (rec_sequence r) \<and>
        rec_body r = RB_Bind (pn_lifetime_id p) (pn_feed_revision p) (pn_tuple p) (pn_ack_id p) \<and> tuple = pn_tuple p \<and>
        cv_retained_matches env (pn_feed_revision p) (pn_retained p) w1 = Ok True \<and>
        i \<noteq> pn_ack_id p \<and> ri_receipt (hc_retired h) \<noteq> Some i \<and> proof_state_of h' = PS_Bound i)"

definition step_result ::
  "('t, 'p, 'e, 'w) control_env \<Rightarrow> 't helper_control \<Rightarrow> 'w \<Rightarrow> ('t control_outcome, 'e helper_control_error) result
     \<Rightarrow> 't helper_control \<Rightarrow> 'w \<Rightarrow> bool" where
  "step_result env h w r h' w' \<longleftrightarrow>
     control_moves env h r h' \<and>
     (\<forall>tuple i. r = Ok (ST_Bound tuple i) \<longrightarrow> bound_evidence env h w tuple i h') \<and>
     (\<forall>tuple. r = Ok (ST_Published tuple) \<longrightarrow> hc_last_core_publication_version h < cv_tuple_version env tuple \<and>
        hc_last_core_publication_version h' = cv_tuple_version env tuple)"

lemma opt_post_mono: "opt_post v Q \<Longrightarrow> (\<And>r h w. Q r h w \<Longrightarrow> Q' r h w) \<Longrightarrow> opt_post v Q'"
  by (auto simp: opt_post_def)

lemma moves_in_sequence [simp]: "control_moves env (h\<lparr> hc_in_sequence := q \<rparr>) r h' = control_moves env h r h'"
  by (simp add: control_moves_def)

lemma peer_error_moves:
  assumes "live_from h h1"
  shows "ctl_post (handle_peer_error env code) (step_result env h w0) (h1, w)"
proof -
  have "ctl_post (ctl_fail env (fault_peer code)) (\<lambda>r h' w'. control_keeps env h h') (h1, w)"
    using assms by (rule fail_moves) simp
  then show ?thesis by (auto simp: handle_peer_error_def opt_post_def step_result_def)
qed

lemma publish_step:
  assumes "control_inv env h" "hc_phase h \<in> {PH_Ready, PH_AwaitingBind}"
  shows "ctl_post (handle_publish env lid revision tuple payload) (step_result env h w0) (h\<lparr> hc_in_sequence := q \<rparr>, w)"
proof -
  have "control_inv env (h\<lparr> hc_in_sequence := q \<rparr>)" "hc_phase (h\<lparr> hc_in_sequence := q \<rparr>) \<in> {PH_Ready, PH_AwaitingBind}"
    using assms by simp_all
  from publish_moves [OF this] show ?thesis
    by (rule opt_post_mono) (auto simp: publish_result_def step_result_def)
qed

lemma invalidate_step:
  assumes "control_inv env h" "hc_phase h \<in> {PH_Ready, PH_AwaitingBind}"
  shows "ctl_post (handle_invalidate env lid revision reason) (step_result env h w0) (h\<lparr> hc_in_sequence := q \<rparr>, w)"
proof -
  have "control_inv env (h\<lparr> hc_in_sequence := q \<rparr>)" "hc_phase (h\<lparr> hc_in_sequence := q \<rparr>) \<in> {PH_Ready, PH_AwaitingBind}"
    using assms by simp_all
  from invalidate_moves [OF this] show ?thesis
    by (rule opt_post_mono) (auto simp: invalidate_result_def step_result_def rotated_def)
qed

lemma bind_step:
  assumes "control_inv env h" "hc_phase h \<in> {PH_Ready, PH_AwaitingBind}"
    and "read_record (cv_frames env) (cv_io env) w = Some (Ok r, w1)" "rec_sender r = SN_Core"
      "cv_valid_session env (hc_session_id h) (rec_session_id r)" "cv_valid_sequence env (hc_in_sequence h) (rec_sequence r)"
      "rec_body r = RB_Bind lid revision tuple ack"
  shows "ctl_post (handle_bind env lid revision tuple ack) (step_result env h w) (h\<lparr> hc_in_sequence := rec_sequence r \<rparr>, w1)"
proof -
  let ?h = "h\<lparr> hc_in_sequence := rec_sequence r \<rparr>"
  have "control_inv env ?h" "hc_phase ?h \<in> {PH_Ready, PH_AwaitingBind}" using assms(1,2) by simp_all
  from bind_moves [OF this] show ?thesis
  proof (rule opt_post_mono)
    fix r' h' w'
    assume b: "bind_result env lid revision tuple ack w1 ?h r' h' w'"
    have "bound_evidence env h w t i h'" if "r' = Ok (ST_Bound t i)" for t i
      unfolding bound_evidence_def using b that assms(3-7) by (intro exI [of _ r] exI [of _ w1]) (auto simp: bind_result_def)
    moreover have "r' \<noteq> Ok (ST_Published t)" for t using b by (auto simp: bind_result_def)
    moreover have "control_moves env h r' h'" using b by (simp add: bind_result_def)
    ultimately show "step_result env h w r' h' w'" by (simp add: step_result_def)
  qed
qed

lemma record_step:
  assumes "control_inv env h" "hc_phase h \<in> {PH_Ready, PH_AwaitingBind}"
    and "read_record (cv_frames env) (cv_io env) w = Some (Ok r, w1)" "rec_sender r = SN_Core"
      "cv_valid_session env (hc_session_id h) (rec_session_id r)" "cv_valid_sequence env (hc_in_sequence h) (rec_sequence r)"
  shows "ctl_post (handle_record env (rec_body r)) (step_result env h w) (h\<lparr> hc_in_sequence := rec_sequence r \<rparr>, w1)"
proof -
  have live: "live_from h (h\<lparr> hc_in_sequence := rec_sequence r \<rparr>)"
    using assms(1,2) by (auto simp: live_from_def control_inv_def)
  have "ctl_post (ctl_fail env f) (step_result env h w) (h\<lparr> hc_in_sequence := rec_sequence r \<rparr>, w1)" for f
    using live by (rule fail_moves) (simp add: step_result_def)
  then show ?thesis
    using publish_step [OF assms(1,2)] invalidate_step [OF assms(1,2)] bind_step [OF assms] peer_error_moves [OF live]
    by (cases "rec_body r") (simp_all add: handle_record_def)
qed

lemma step_moves:
  assumes "control_inv env h" "hc_phase h \<in> {PH_Ready, PH_AwaitingBind}"
  shows "ctl_post (control_step env) (step_result env h w) (h, w)"
proof -
  let ?Q = "step_result env h w"
  have live: "live_from h h" using assms by (auto intro: inv_live)
  have err: "control_keeps env h h' \<Longrightarrow> hc_phase h' = PH_Revoked \<Longrightarrow> ?Q (Err e) h' w'" for e h' w'
    by (simp add: step_result_def)
  have active: "require_active (h, w) = Some (Ok (), h, w)" using assms(2) by (auto simp: require_active_def)
  have "ctl_post (ctl_bind (validate_envelope env r) (\<lambda>_. handle_record env (rec_body r))) ?Q (h, w1)"
    if "read_record (cv_frames env) (cv_io env) w = Some (Ok r, w1)" for r w1
    by (rule ctl_post_bind, rule envelope_moves [OF live]) (simp_all add: err record_step [OF assms that])
  then have "ctl_post (ctl_bind (read_incoming env) (\<lambda>r. ctl_bind (validate_envelope env r) (\<lambda>_. handle_record env (rec_body r))))
      ?Q (h, w)"
    by (intro ctl_post_bind read_incoming_moves [OF live]) (simp_all add: err)
  then show ?thesis unfolding control_step_def by (intro ctl_post_bind) (simp add: active)
qed

definition rotate_result ::
  "('t, 'p, 'e, 'w) control_env \<Rightarrow> (u64 \<Rightarrow> u64) \<Rightarrow> invalidate_reason \<Rightarrow> 't helper_control
     \<Rightarrow> ('t control_outcome, 'e helper_control_error) result \<Rightarrow> 't helper_control \<Rightarrow> 'w \<Rightarrow> bool" where
  "rotate_result env bump reason h r h' w' \<longleftrightarrow>
     control_moves env h r h' \<and>
     (\<forall>x. r = Ok x \<longrightarrow>
        (\<exists>old. hc_lifetime h = Some old \<and> rotated (lt_id old) (bump (lt_feed_revision old)) reason old x h'))"

text \<open>A snapshot at an expected revision followed by the rotation.\<close>

lemma snapshot_rotate_moves:
  assumes "live_from h h1" "hc_lifetime h = Some old" "hc_lifetime h1 = Some old" "hc_pending h1 = None"
    "hc_receipt h1 = None" "hc_revocation h1 = None"
  shows "ctl_post (ctl_bind (snapshot_or_fail env) (\<lambda>s. if sn_feed_revision s \<noteq> bump (lt_feed_revision old)
      then ctl_fail env f else rotate_lifetime env (lt_id old) (bump (lt_feed_revision old)) reason (sn_projection s)))
    (rotate_result env bump reason h) (h1, w)"
proof -
  let ?Q = "rotate_result env bump reason h"
  have err: "control_keeps env h h' \<Longrightarrow> hc_phase h' = PH_Revoked \<Longrightarrow> ?Q (Err e) h' w'" for e h' w'
    by (simp add: rotate_result_def)
  have "ctl_post (if sn_feed_revision s \<noteq> bump (lt_feed_revision old) then ctl_fail env f
      else rotate_lifetime env (lt_id old) (bump (lt_feed_revision old)) reason (sn_projection s)) ?Q (h1, w)" for s
  proof (cases "sn_feed_revision s = bump (lt_feed_revision old)")
    case True
    have "ctl_post (rotate_lifetime env (lt_id old) (bump (lt_feed_revision old)) reason (sn_projection s)) ?Q (h1, w)"
      by (rule rotate_moves [OF assms(1,3-6)]) (auto simp: rotate_result_def assms(2))
    with True show ?thesis by simp
  next
    case False
    then show ?thesis using fail_moves [where Q = ?Q, OF assms(1) err] by simp
  qed
  then show ?thesis by (intro ctl_post_bind snapshot_moves [OF assms(1)]) (simp_all add: err split del: if_split)
qed

lemma active_bind:
  assumes "hc_phase h \<in> {PH_Ready, PH_AwaitingBind}" "hc_lifetime h = Some old"
    and "ctl_post (f (lt_id old, lt_feed_revision old)) Q (h, w)"
  shows "ctl_post (ctl_bind require_active (\<lambda>_. ctl_bind current_identity f)) Q (h, w)"
  using assms by (intro ctl_post_bind) (auto simp: require_active_def current_identity_def ctl_bind_def)

lemma cleared_live:
  assumes "control_inv env h" "hc_phase h \<in> {PH_Ready, PH_AwaitingBind}"
  shows "live_from h (clear_receipt (h\<lparr> hc_pending := None \<rparr>))" "hc_revocation h = None"
  using assms by (auto simp: live_from_def control_inv_def)

lemma reset_moves:
  assumes "control_inv env h" "hc_phase h \<in> {PH_Ready, PH_AwaitingBind}"
  shows "ctl_post (control_reset env) (rotate_result env (\<lambda>n. n) IR_Reset h) (h, w)"
proof -
  obtain old where old: "hc_lifetime h = Some old" using assms by (auto simp: control_inv_def)
  let ?Q = "rotate_result env (\<lambda>n. n) IR_Reset h" and ?h = "clear_receipt (h\<lparr> hc_pending := None \<rparr>)"
  note live = cleared_live [OF assms]
  have err: "control_keeps env h h' \<Longrightarrow> hc_phase h' = PH_Revoked \<Longrightarrow> ?Q (Err e) h' w'" for e h' w'
    by (simp add: rotate_result_def)
  have "ctl_post (ctl_bind (snapshot_or_fail env) (\<lambda>s. if sn_feed_revision s \<noteq> lt_feed_revision old
      then ctl_fail env (fault_protocol HE_StaleAuthority)
      else rotate_lifetime env (lt_id old) (lt_feed_revision old) IR_Reset (sn_projection s))) ?Q (?h\<lparr> hc_out_sequence := q \<rparr>, v)"
    for q v
    by (rule snapshot_rotate_moves [where bump = "\<lambda>n. n" and h = h]) (use live old in simp_all)
  then have "ctl_post (ctl_bind (ctl_emit env (RB_Invalidate (lt_id old) (lt_feed_revision old) IR_Reset)) (\<lambda>_.
      ctl_bind (snapshot_or_fail env) (\<lambda>s. if sn_feed_revision s \<noteq> lt_feed_revision old
      then ctl_fail env (fault_protocol HE_StaleAuthority)
      else rotate_lifetime env (lt_id old) (lt_feed_revision old) IR_Reset (sn_projection s)))) ?Q (?h, w)"
    by (intro ctl_post_bind emit_moves [OF live(1)]) (simp_all add: err split del: if_split)
  then show ?thesis
    unfolding control_reset_def by (intro active_bind [OF assms(2) old]) simp
qed

lemma mutated_moves:
  assumes "control_inv env h" "hc_phase h \<in> {PH_Ready, PH_AwaitingBind}"
  shows "ctl_post (registry_mutated env mutate) (rotate_result env (\<lambda>n. n + 1) IR_RegistryMutation h) (h, w)"
proof -
  obtain old where old: "hc_lifetime h = Some old" using assms by (auto simp: control_inv_def)
  let ?Q = "rotate_result env (\<lambda>n. n + 1) IR_RegistryMutation h" and ?h = "clear_receipt (h\<lparr> hc_pending := None \<rparr>)"
  note live = cleared_live [OF assms]
  have live0: "live_from h h" using assms by (auto intro: inv_live)
  have err: "control_keeps env h h' \<Longrightarrow> hc_phase h' = PH_Revoked \<Longrightarrow> ?Q (Err e) h' w'" for e h' w'
    by (simp add: rotate_result_def)
  have fails: "ctl_post (ctl_fail env g) ?Q (h, v)" for g v
    using live0 by (rule fail_moves) (simp add: err)
  have fails': "ctl_post (ctl_fail env g) ?Q (?h\<lparr> hc_out_sequence := q \<rparr>, v)" for g q v
    using live by (intro fail_moves [where h = h]) (simp_all add: err)
  have snap: "ctl_post (ctl_bind (snapshot_or_fail env) (\<lambda>s. if sn_feed_revision s \<noteq> lt_feed_revision old + 1
      then ctl_fail env g
      else rotate_lifetime env (lt_id old) (lt_feed_revision old + 1) IR_RegistryMutation (sn_projection s)))
      ?Q (?h\<lparr> hc_out_sequence := q \<rparr>, v)" for g q v
    by (rule snapshot_rotate_moves [where bump = "\<lambda>n. n + 1" and h = h]) (use live old in simp_all)
  have tail: "ctl_post (ctl_bind (ctl_emit env (RB_Invalidate (lt_id old) (lt_feed_revision old) IR_RegistryMutation)) (\<lambda>_ (h, w).
       case mutate w of
         (Err e, w') \<Rightarrow> ctl_fail env (fault_registry e) (h, w')
       | (Ok _, w') \<Rightarrow> ctl_bind (snapshot_or_fail env) (\<lambda>s. if sn_feed_revision s \<noteq> lt_feed_revision old + 1
           then ctl_fail env (fault_registry RgE_InvalidRevision)
           else rotate_lifetime env (lt_id old) (lt_feed_revision old + 1) IR_RegistryMutation (sn_projection s)) (h, w')))
       ?Q (?h, v)" for v
    by (intro ctl_post_bind emit_moves [OF live(1)])
       (auto simp: err fails' snap split del: if_split split: prod.split result.split)
  have room: "ctl_post (case checked_add (lt_feed_revision old) 1 of None \<Rightarrow> ctl_fail env fault_version | Some n \<Rightarrow> m n) ?Q (h, w)"
    if "ctl_post (m (lt_feed_revision old + 1)) ?Q (h, w)" for m
    using that fails by (simp add: checked_add_def)
  show ?thesis
    unfolding registry_mutated_def
    by (intro active_bind [OF assms(2) old], unfold prod.case, rule room, rule ctl_post_bind,
        rule snapshot_moves [OF live0]) (simp_all add: err fails tail)
qed

definition establish_result ::
  "('t, 'p, 'e, 'w) control_env \<Rightarrow> 't helper_control \<Rightarrow> 'w \<Rightarrow> (unit, 'e helper_control_error) result
     \<Rightarrow> 't helper_control \<Rightarrow> 'w \<Rightarrow> bool" where
  "establish_result env h w r h' w' \<longleftrightarrow>
     control_moves env h r h' \<and>
     (\<forall>u. r = Ok u \<longrightarrow>
        (\<exists>rec w1. read_record (cv_frames env) (cv_io env) w = Some (Ok rec, w1) \<and> rec_sender rec = SN_Core \<and>
           rec_body rec = RB_Establish (echo_of (hc_expectations h))) \<and> proof_state_of h' = PS_Unbound)"

lemma establish_moves:
  assumes "control_inv env h" "hc_phase h = PH_AwaitingEstablish"
  shows "ctl_post (establish env) (establish_result env h w) (h, w)"
proof -
  let ?Q = "establish_result env h w"
  have live: "live_from h h" using assms by (auto intro: inv_live)
  have err: "control_keeps env h h' \<Longrightarrow> hc_phase h' = PH_Revoked \<Longrightarrow> ?Q (Err e) h' w'" for e h' w'
    by (simp add: establish_result_def)
  have fails: "ctl_post (ctl_fail env g) ?Q (h\<lparr> hc_in_sequence := q \<rparr>, v)" for g q v
    using live by (intro fail_moves [where h = h]) (simp_all add: err live_from_def)
  have announce: "ctl_post (ctl_bind (ctl_emit env (RB_Established echo (lt_id l))) (\<lambda>_. ctl_emit env b)) ?Q
      (h\<lparr> hc_in_sequence := q, hc_lifetime := Some l, hc_phase := PH_Ready \<rparr>, v)"
    if rec: "read_record (cv_frames env) (cv_io env) w = Some (Ok rec, w1)" "rec_sender rec = SN_Core"
      "rec_body rec = RB_Establish (echo_of (hc_expectations h))" for rec w1 echo l b q v
  proof -
    let ?h = "h\<lparr> hc_in_sequence := q, hc_lifetime := Some l, hc_phase := PH_Ready \<rparr>"
    have live1: "live_from h ?h" using live by (simp add: live_from_def)
    have "?Q (Ok ()) (?h\<lparr> hc_out_sequence := n \<rparr>) u" for n u
      using assms rec by (auto simp: establish_result_def control_keeps_def control_inv_def proof_state_of_def)
    then have "ctl_post (ctl_emit env b) ?Q (?h\<lparr> hc_out_sequence := m \<rparr>, u)" for m u
      using live1 by (intro emit_moves [where h = h]) (simp_all add: err)
    then show ?thesis by (intro ctl_post_bind emit_moves [OF live1]) (simp_all add: err)
  qed
  have echo: "ctl_post (accept_echo env echo) ?Q (h\<lparr> hc_in_sequence := q \<rparr>, v)"
    if rec: "read_record (cv_frames env) (cv_io env) w = Some (Ok rec, w1)" "rec_sender rec = SN_Core"
      "rec_body rec = RB_Establish echo" for rec w1 echo q v
  proof (cases "expectations_verify (hc_expectations h) echo")
    case (Ok u)
    then have "echo = echo_of (hc_expectations h)" using expectations_verify_iff by simp
    note announce = announce [OF rec(1,2) rec(3) [unfolded this]]
    have "live_from h (h\<lparr> hc_in_sequence := q \<rparr>)" using live by (simp add: live_from_def)
    with Ok show ?thesis
      by (simp add: accept_echo_def, intro ctl_post_bind snapshot_moves [where h = h])
         (auto simp: err fails announce split: prod.split result.split)
  next
    case (Err f)
    then show ?thesis by (simp add: accept_echo_def fails)
  qed
  have "ctl_post (ctl_bind (validate_envelope env rec) (\<lambda>_. case rec_body rec of
        RB_Establish echo \<Rightarrow> accept_echo env echo
      | body \<Rightarrow> ctl_fail env (fault_protocol (HE_UnexpectedRecord (cv_kind env body))))) ?Q (h, w1)"
    if "read_record (cv_frames env) (cv_io env) w = Some (Ok rec, w1)" for rec w1
    by (rule ctl_post_bind, rule envelope_moves [OF live], cases "rec_body rec")
       (simp_all add: err fails echo [OF that])
  then have "ctl_post (ctl_bind (read_incoming env) (\<lambda>rec. ctl_bind (validate_envelope env rec) (\<lambda>_. case rec_body rec of
        RB_Establish echo \<Rightarrow> accept_echo env echo
      | body \<Rightarrow> ctl_fail env (fault_protocol (HE_UnexpectedRecord (cv_kind env body)))))) ?Q (h, w)"
    by (intro ctl_post_bind read_incoming_moves [OF live]) (simp_all add: err)
  then show ?thesis using assms(2) by (simp add: establish_def)
qed

section \<open>Runs\<close>

text \<open>One call on the session; between calls the world may change in any way.\<close>

inductive control_call :: "('t, 'p, 'e, 'w) control_env \<Rightarrow> 't helper_control \<times> 'w \<Rightarrow> 't helper_control \<times> 'w \<Rightarrow> bool"
  for env where
  call_establish: "establish env s = Some (r, s') \<Longrightarrow> control_call env s s'"
| call_step: "control_step env s = Some (r, s') \<Longrightarrow> control_call env s s'"
| call_mutated: "registry_mutated env mutate s = Some (r, s') \<Longrightarrow> control_call env s s'"
| call_reset: "control_reset env s = Some (r, s') \<Longrightarrow> control_call env s s'"
| call_close: "control_call env (h, w) (control_close h, w)"
| call_world: "control_call env (h, w) (h, w')"

abbreviation control_runs :: "('t, 'p, 'e, 'w) control_env \<Rightarrow> 't helper_control \<times> 'w \<Rightarrow> 't helper_control \<times> 'w \<Rightarrow> bool" where
  "control_runs env \<equiv> (control_call env)\<^sup>*\<^sup>*"

text \<open>What remains of a revoked session.\<close>

definition authority_gone :: "'t helper_control \<Rightarrow> bool" where
  "authority_gone h \<longleftrightarrow>
     hc_phase h = PH_Revoked \<and> hc_revocation h \<noteq> None \<and> hc_lifetime h = None \<and> hc_predecessor h = None \<and>
     hc_pending h = None \<and> hc_receipt h = None"

lemma inv_gone: "control_inv env h \<Longrightarrow> hc_phase h = PH_Revoked \<Longrightarrow> authority_gone h"
  by (auto simp: control_inv_def authority_gone_def)

lemma inactive_cases:
  assumes "hc_phase h \<notin> {PH_Ready, PH_AwaitingBind}"
  shows "control_step env (h, w) = Some (Err (if hc_phase h = PH_Revoked then HE_Closed else HE_NotEstablished), h, w)"
    "control_reset env (h, w) = Some (Err (if hc_phase h = PH_Revoked then HE_Closed else HE_NotEstablished), h, w)"
    "registry_mutated env mutate (h, w) = Some (Err (if hc_phase h = PH_Revoked then HE_Closed else HE_NotEstablished), h, w)"
  using assms
  by (cases "hc_phase h"; simp add: control_step_def control_reset_def registry_mutated_def ctl_bind_def require_active_def)+

lemma established_again:
  assumes "control_inv env h" "hc_phase h \<in> {PH_Ready, PH_AwaitingBind}"
  shows "ctl_post (establish env) (\<lambda>r h' w'. control_moves env h r h') (h, w)"
proof -
  have "live_from h h" using assms by (auto intro: inv_live)
  then have "ctl_post (ctl_fail env f) (\<lambda>r h' w'. control_moves env h r h') (h, w)" for f
    by (rule fail_moves) simp
  with assms show ?thesis by (auto simp: establish_def)
qed

text \<open>Every call that returns keeps the session, and an error revokes it or refuses the call with nothing changed.\<close>

definition call_result ::
  "('t, 'p, 'e, 'w) control_env \<Rightarrow> 't helper_control \<Rightarrow> 'w \<Rightarrow> ('a, 'e helper_control_error) result \<Rightarrow> 't helper_control
     \<Rightarrow> 'w \<Rightarrow> bool" where
  "call_result env h w r h' w' \<longleftrightarrow>
     control_keeps env h h' \<and>
     (\<forall>e. r = Err e \<longrightarrow> authority_gone h' \<or> hc_phase h = PH_AwaitingEstablish \<and> e = HE_NotEstablished \<and> h' = h \<and> w' = w)"

lemma moves_call_result: "control_moves env h r h' \<Longrightarrow> call_result env h w r h' w'"
  by (auto simp: control_moves_def call_result_def control_keeps_def intro: inv_gone)

lemma inactive_result:
  assumes "control_inv env h" "hc_phase h \<notin> {PH_Ready, PH_AwaitingBind}"
  shows "call_result env h w (Err (if hc_phase h = PH_Revoked then HE_Closed else HE_NotEstablished)) h w"
  using assms inv_gone [OF assms(1)] by (cases "hc_phase h") (auto simp: call_result_def keeps_refl)

lemma step_call:
  assumes "control_inv env h"
  shows "ctl_post (control_step env) (call_result env h w) (h, w)"
proof (cases "hc_phase h \<in> {PH_Ready, PH_AwaitingBind}")
  case True
  from step_moves [OF assms True] show ?thesis
    by (rule opt_post_mono) (rule moves_call_result, simp add: step_result_def)
next
  case False
  from inactive_result [OF assms False] show ?thesis by (simp only: inactive_cases [OF False] opt_post_simps)
qed

lemma mutated_call:
  assumes "control_inv env h"
  shows "ctl_post (registry_mutated env mutate) (call_result env h w) (h, w)"
proof (cases "hc_phase h \<in> {PH_Ready, PH_AwaitingBind}")
  case True
  from mutated_moves [OF assms True] show ?thesis
    by (rule opt_post_mono) (rule moves_call_result, simp add: rotate_result_def)
next
  case False
  from inactive_result [OF assms False] show ?thesis by (simp only: inactive_cases [OF False] opt_post_simps)
qed

lemma reset_call:
  assumes "control_inv env h"
  shows "ctl_post (control_reset env) (call_result env h w) (h, w)"
proof (cases "hc_phase h \<in> {PH_Ready, PH_AwaitingBind}")
  case True
  from reset_moves [OF assms True] show ?thesis
    by (rule opt_post_mono) (rule moves_call_result, simp add: rotate_result_def)
next
  case False
  from inactive_result [OF assms False] show ?thesis by (simp only: inactive_cases [OF False] opt_post_simps)
qed

lemma establish_call:
  assumes "control_inv env h"
  shows "ctl_post (establish env) (call_result env h w) (h, w)"
proof (cases "hc_phase h")
  case PH_AwaitingEstablish
  from establish_moves [OF assms this] show ?thesis
    by (rule opt_post_mono) (rule moves_call_result, simp add: establish_result_def)
next
  case PH_Revoked
  then show ?thesis using inv_gone [OF assms] keeps_refl [OF assms] by (simp add: establish_def call_result_def)
next
  case PH_Ready
  then have "hc_phase h \<in> {PH_Ready, PH_AwaitingBind}" by simp
  from established_again [OF assms this] show ?thesis by (rule opt_post_mono) (rule moves_call_result)
next
  case PH_AwaitingBind
  then have "hc_phase h \<in> {PH_Ready, PH_AwaitingBind}" by simp
  from established_again [OF assms this] show ?thesis by (rule opt_post_mono) (rule moves_call_result)
qed

lemma close_keeps: "control_inv env h \<Longrightarrow> control_keeps env h (control_close h)"
  by (auto simp: control_keeps_def control_close_def control_inv_def clear_authority_def writer_clear_def frame_writer_new_def)

lemma call_keeps:
  assumes "control_call env (h, w) (h', w')" "control_inv env h"
  shows "control_keeps env h h'"
  using assms(1)
proof cases
  case (call_establish r)
  with establish_call [OF assms(2), of w] show ?thesis by (simp add: call_result_def)
next
  case (call_step r)
  with step_call [OF assms(2), of w] show ?thesis by (simp add: call_result_def)
next
  case (call_mutated mutate r)
  with mutated_call [OF assms(2), of mutate w] show ?thesis by (simp add: call_result_def)
next
  case (call_reset r)
  with reset_call [OF assms(2), of w] show ?thesis by (simp add: call_result_def)
qed (use assms(2) close_keeps keeps_refl in auto)

lemma keeps_trans: "control_keeps env h h1 \<Longrightarrow> control_keeps env h1 h2 \<Longrightarrow> control_keeps env h h2"
  by (auto simp: control_keeps_def)

lemma runs_keep:
  assumes "control_runs env (h, w) (h', w')" "control_inv env h"
  shows "control_keeps env h h'"
  using assms(1)
proof (induction "(h', w')" arbitrary: h' w' rule: rtranclp_induct)
  case base
  then show ?case using keeps_refl [OF assms(2)] by simp
next
  case (step s)
  obtain h1 w1 where s: "s = (h1, w1)" by fastforce
  from step(3) [OF s] have k: "control_keeps env h h1" .
  then have "control_inv env h1" by (simp add: control_keeps_def)
  from keeps_trans [OF k call_keeps [OF step(2) [unfolded s] this]] show ?case .
qed

lemma inv_initial: "control_inv env (with_expectations e)"
  by (simp add: control_inv_def with_expectations_def)

lemma revoked_call:
  assumes "control_call env (h, w) (h', w')" "hc_phase h = PH_Revoked"
  shows "h' = h"
proof -
  have "hc_phase h \<notin> {PH_Ready, PH_AwaitingBind}" using assms(2) by simp
  note refused = inactive_cases [OF this]
  from assms(1) show ?thesis
  proof cases
    case (call_establish r)
    then show ?thesis using assms(2) by (simp add: establish_def)
  qed (use assms(2) in \<open>simp_all add: refused control_close_def\<close>)
qed

lemma revoked_runs:
  assumes "control_runs env (h, w) (h', w')" "hc_phase h = PH_Revoked"
  shows "h' = h"
  using assms(1)
proof (induction "(h', w')" arbitrary: h' w' rule: rtranclp_induct)
  case (step s)
  obtain h1 w1 where s: "s = (h1, w1)" by fastforce
  with step(3) have "h1 = h" by simp
  with step(2) s have "control_call env (h, w1) (h', w')" by simp
  from revoked_call [OF this assms(2)] show ?case .
qed simp

definition session_closed :: "('t, 'p, 'e, 'w) control_env \<Rightarrow> 't helper_control \<Rightarrow> bool" where
  "session_closed env h \<longleftrightarrow>
     authority_gone h \<and>
     (\<forall>w mutate. control_step env (h, w) = Some (Err HE_Closed, h, w) \<and> control_reset env (h, w) = Some (Err HE_Closed, h, w) \<and>
        registry_mutated env mutate (h, w) = Some (Err HE_Closed, h, w) \<and> establish env (h, w) = Some (Err HE_Closed, h, w))"

lemma gone_closed: "authority_gone h \<Longrightarrow> session_closed env h"
  by (simp add: session_closed_def inactive_cases establish_def authority_gone_def)

lemma moves_gone: "control_moves env h (Err e) h' \<Longrightarrow> authority_gone h'"
  by (auto simp: control_moves_def control_keeps_def intro: inv_gone)

lemma establish_fails:
  assumes "control_inv env h" "establish env (h, w) = Some (Err e, h', w')"
  shows "authority_gone h'"
proof (cases "hc_phase h")
  case PH_AwaitingEstablish
  from establish_moves [OF assms(1) this, of w] assms(2) show ?thesis by (auto simp: establish_result_def intro: moves_gone)
next
  case PH_Revoked
  with assms inv_gone show ?thesis by (auto simp: establish_def)
next
  case PH_Ready
  then have "hc_phase h \<in> {PH_Ready, PH_AwaitingBind}" by simp
  from established_again [OF assms(1) this, of w] assms(2) show ?thesis by (auto intro: moves_gone)
next
  case PH_AwaitingBind
  then have "hc_phase h \<in> {PH_Ready, PH_AwaitingBind}" by simp
  from established_again [OF assms(1) this, of w] assms(2) show ?thesis by (auto intro: moves_gone)
qed

section \<open>Properties\<close>

text \<open> C25. In every run of a session, against any peer, registry, random source and stream and with any interference
  in between, the phase agrees with the authority that is held: a lifetime exactly while established, a pending
  acknowledgement exactly while a bind is awaited and then of the current lifetime, a receipt only when ready, both
  for the launch nonce and the last accepted version, and nothing at all once revoked; the session identity never
  changes and the accepted version never decreases.\<close>

theorem control_runs_consistent:
  assumes "control_runs env (with_expectations e, w0) (h, w)"
  shows "control_inv env h \<and> hc_session_id h = ex_launch_nonce e \<and> (hc_phase h = PH_Revoked \<longrightarrow> authority_gone h) \<and>
    (control_runs env (h, w) (h', w') \<longrightarrow>
      hc_last_core_publication_version h \<le> hc_last_core_publication_version h' \<and> (authority_gone h \<longrightarrow> h' = h))"
proof (intro conjI impI)
  have k: "control_keeps env (with_expectations e) h" using runs_keep [OF assms inv_initial] .
  then show inv: "control_inv env h" by (simp add: control_keeps_def)
  from k show "hc_session_id h = ex_launch_nonce e" by (simp add: control_keeps_def with_expectations_def)
  show "authority_gone h" if "hc_phase h = PH_Revoked" using inv_gone [OF inv that] .
  assume r: "control_runs env (h, w) (h', w')"
  from runs_keep [OF r inv] show "hc_last_core_publication_version h \<le> hc_last_core_publication_version h'"
    by (simp add: control_keeps_def)
  show "h' = h" if "authority_gone h" using revoked_runs [OF r] that by (simp add: authority_gone_def)
qed

text \<open> C26. The control session fails closed. When establishment fails, and when a step, a reset or a registry mutation
  fails on an established session, the session is revoked, keeps no lifetime, predecessor, acknowledgement or receipt,
  and refuses every later call as closed without effect. Before establishment there is no authority to revoke: there
  these three calls are refused as not established and leave the session and the world as they are.\<close>

theorem control_fails_closed:
  assumes "control_inv env h"
  shows "(control_step env (h, w) = Some (Err e, h', w') \<or> control_reset env (h, w) = Some (Err e, h', w') \<or>
      registry_mutated env mutate (h, w) = Some (Err e, h', w') \<longrightarrow>
        (if hc_phase h = PH_AwaitingEstablish then e = HE_NotEstablished \<and> h' = h \<and> w' = w else session_closed env h'))
    \<and> (establish env (h, w) = Some (Err e, h', w') \<longrightarrow> session_closed env h')"
proof (intro conjI impI)
  assume err: "control_step env (h, w) = Some (Err e, h', w') \<or> control_reset env (h, w) = Some (Err e, h', w') \<or>
      registry_mutated env mutate (h, w) = Some (Err e, h', w')"
  show "if hc_phase h = PH_AwaitingEstablish then e = HE_NotEstablished \<and> h' = h \<and> w' = w else session_closed env h'"
  proof (cases "hc_phase h = PH_AwaitingEstablish")
    case True
    with err show ?thesis by (auto simp: inactive_cases)
  next
    case False
    from err step_call [OF assms, of w] reset_call [OF assms, of w] mutated_call [OF assms, of mutate w]
    have "authority_gone h'" by (elim disjE) (simp_all add: call_result_def False)
    with False show ?thesis by (simp add: gone_closed)
  qed
next
  assume "establish env (h, w) = Some (Err e, h', w')"
  with establish_fails [OF assms] show "session_closed env h'" by (intro gone_closed)
qed

text \<open> C27. A receipt is issued only for an exact bind: the record just read comes from the authenticated peer, in this
  session and in sequence, echoes lifetime, revision, tuple and acknowledgement of the pending publication, and the
  registry still matches the retained bytes; the receipt differs from the acknowledgement and from the retired one.\<close>

theorem bound_only_for_exact_bind:
  assumes "control_inv env h" "control_step env (h, w) = Some (Ok (ST_Bound tuple i), h', w')"
  shows "bound_evidence env h w tuple i h'"
proof -
  have "hc_phase h \<in> {PH_Ready, PH_AwaitingBind}"
    using inactive_cases(1) [where h = h and env = env and w = w] assms(2) by (cases "hc_phase h \<in> {PH_Ready, PH_AwaitingBind}") auto
  from step_moves [OF assms(1) this, of w] assms(2) show ?thesis by (simp add: step_result_def)
qed

text \<open> A registry mutation that succeeds replaces the lifetime by a different one at exactly the next revision, with
  no pending acknowledgement or receipt left and the old lifetime as the predecessor.\<close>

theorem mutation_rotates_lifetime:
  assumes "control_inv env h" "registry_mutated env mutate (h, w) = Some (Ok x, h', w')"
  shows "\<exists>old. hc_lifetime h = Some old \<and>
    rotated (lt_id old) (lt_feed_revision old + 1) IR_RegistryMutation old x h'"
proof -
  have "hc_phase h \<in> {PH_Ready, PH_AwaitingBind}"
    using inactive_cases(3) [where h = h and env = env and mutate = mutate and w = w] assms(2) by (cases "hc_phase h \<in> {PH_Ready, PH_AwaitingBind}") auto
  from mutated_moves [OF assms(1) this, of mutate w] assms(2) show ?thesis by (simp add: rotate_result_def)
qed

section \<open>A concrete session\<close>

text \<open>A session that awaits the bind of version 1 under lifetime \<open>L\<close> at revision 7, a peer whose next frame is that
  bind, and a random source that returns one identifier.\<close>

definition sample_expectations :: establishment_expectations where
  "sample_expectations =
     \<lparr> ex_bootstrap_format_version = 1, ex_control_protocol_version = 1, ex_core_instance_nonce = ''c'', ex_launch_nonce = ''n'',
       ex_component_name = ''ai'', ex_descriptor_version = ''1'', ex_executable_name = ''ai'', ex_executable_sha256 = ''s'',
       ex_component_protocol_version = 1, ex_control_channel_nonce = ''x'', ex_data_channel_nonce = ''y'',
       ex_delegation_purpose = ''p'', ex_control_profile = ''q'', ex_key_material_profile = 1, ex_key_type = 1,
       ex_core_leaf_digest = ''d'', ex_helper_leaf_digest = ''e'' \<rparr>"

definition sample_bind :: "(u64, bytes) control_record" where
  "sample_bind = \<lparr> rec_sender = SN_Core, rec_sequence = 3, rec_session_id = ''n'', rec_body = RB_Bind ''L'' 7 1 ''A'' \<rparr>"

definition sample_env :: "(u64, bytes, unit, pipe) control_env" where
  "sample_env =
     \<lparr> cv_frames =
         \<lparr> fp_frame_max_bytes = 64, fp_header_bytes = 1, fp_inflight_max_bytes = 100, fp_queue_max_records = 2,
           fp_small_record_max_bytes = 32, fp_encode = (\<lambda>r. Ok ''h''), fp_decode = (\<lambda>f. Ok sample_bind),
           fp_kind_from_code = (\<lambda>_. None) \<rparr>,
       cv_io = pipe_io, cv_kind = (\<lambda>_. RK_Other 0),
       cv_snapshot = (\<lambda>_. Ok \<lparr> sn_feed_revision = 7, sn_projection = ''P'' \<rparr>),
       cv_retained_matches = (\<lambda>revision bs w. Ok (revision = 7 \<and> bs = ''P'')),
       cv_fill_random = (\<lambda>n w. (Some ''R'', w)),
       cv_valid_session = (=), cv_valid_sequence = (\<lambda>a b. b = a + 1), cv_next_sequence = (\<lambda>n. Some (n + 1)),
       cv_canonical_bytes = (\<lambda>p. p), cv_tuple_nonce = (\<lambda>_. ''n''), cv_tuple_version = (\<lambda>v. v),
       cv_lifetime_secret_bytes = 1 \<rparr>"

definition sample_session :: "u64 helper_control" where
  "sample_session =
     (with_expectations sample_expectations)\<lparr>
       hc_phase := PH_AwaitingBind, hc_in_sequence := 2, hc_out_sequence := 3,
       hc_lifetime := Some \<lparr> lt_id = ''L'', lt_feed_revision = 7, lt_secret = ''s'' \<rparr>,
       hc_pending := Some \<lparr> pn_lifetime_id = ''L'', pn_feed_revision = 7, pn_tuple = 1, pn_retained = ''P'', pn_ack_id = ''A'' \<rparr>,
       hc_last_core_publication_version := 1 \<rparr>"

definition sample_stream :: pipe where
  "sample_stream =
     \<lparr> pp_in = [Piece [CHR 0x00, CHR 0x00, CHR 0x00, CHR 0x01], Interruption, Piece ''b''], pp_out = [], pp_portions = [] \<rparr>"

lemma sample_session_inv: "control_inv sample_env sample_session"
  by (simp add: control_inv_def sample_session_def with_expectations_def sample_expectations_def sample_env_def)

lemma sample_emit:
  assumes "hc_writer h = frame_writer_new"
  shows "\<exists>h' w'. ctl_emit sample_env body (h, w) = Some (Ok (), h', w')"
proof -
  let ?r = "\<lparr> rec_sender = SN_Helper, rec_sequence = hc_out_sequence h + 1, rec_session_id = hc_session_id h, rec_body = body \<rparr>"
  have "limits_sane (cv_frames sample_env)" "sendable (cv_frames sample_env) ?r"
    by (simp_all add: sample_env_def limits_sane_def sendable_def usize_max_def)
  from send_record_pipe [OF this, of w] obtain w' where
    "send_record (cv_frames sample_env) pipe_io ?r frame_writer_new w = Some (Ok (), frame_writer_new, w')" by blast
  moreover have "cv_io sample_env = pipe_io" "cv_next_sequence sample_env n = Some (n + 1)" for n
    by (simp_all add: sample_env_def)
  ultimately show ?thesis using assms by (simp add: ctl_emit_def raw_send_def)
qed

lemma sample_read:
  "read_record (cv_frames sample_env) (cv_io sample_env) sample_stream = Some (Ok sample_bind, sample_stream\<lparr> pp_in := [] \<rparr>)"
  by (simp add: sample_env_def read_record_def read_prefix_def read_body_def CONTROL_FRAME_PREFIX_BYTES_def
      fill_buffer.simps pipe_read_def sample_stream_def be_value_def Let_def enforce_small_record_bound_def)

lemma sample_fields:
  "hc_phase sample_session = PH_AwaitingBind" "hc_in_sequence sample_session = 2" "hc_session_id sample_session = ''n''"
  "hc_retired sample_session = retired_default" "hc_writer sample_session = frame_writer_new"
  "hc_pending sample_session =
     Some \<lparr> pn_lifetime_id = ''L'', pn_feed_revision = 7, pn_tuple = 1, pn_retained = ''P'', pn_ack_id = ''A'' \<rparr>"
  "cv_valid_session sample_env = (=)" "cv_valid_sequence sample_env a b \<longleftrightarrow> b = a + 1"
  "cv_retained_matches sample_env 7 ''P'' w = Ok True" "cv_fill_random sample_env n w = (Some ''R'', w)"
  by (simp_all add: sample_session_def with_expectations_def sample_expectations_def sample_env_def)

lemma sample_step:
  "\<exists>h' w'. control_step sample_env (sample_session, sample_stream) = Some (Ok (ST_Bound 1 ''R''), h', w')"
proof -
  let ?w = "sample_stream\<lparr> pp_in := [] \<rparr>"
  let ?h = "sample_session\<lparr> hc_in_sequence := 3, hc_pending := None,
    hc_receipt := Some \<lparr> ar_tuple = 1, ar_receipt = ''R'' \<rparr>, hc_phase := PH_Ready \<rparr>"
  have "hc_writer ?h = frame_writer_new" by (simp add: sample_fields)
  from sample_emit [OF this, of "RB_Bound ''L'' 7 1 ''R''" ?w]
  obtain h' w' where "ctl_emit sample_env (RB_Bound ''L'' 7 1 ''R'') (?h, ?w) = Some (Ok (), h', w')"
    by blast
  moreover have "control_step sample_env (sample_session, sample_stream) =
      handle_bind sample_env ''L'' 7 1 ''A'' (sample_session\<lparr> hc_in_sequence := 3 \<rparr>, ?w)"
    by (simp add: control_step_def ctl_bind_def require_active_def read_incoming_def sample_read sample_fields)
       (simp add: sample_bind_def validate_envelope_def sample_fields handle_record_def)
  moreover have "handle_bind sample_env ''L'' 7 1 ''A'' (sample_session\<lparr> hc_in_sequence := 3 \<rparr>, ?w) =
      ctl_bind (ctl_emit sample_env (RB_Bound ''L'' 7 1 ''R'')) (\<lambda>_. ctl_return (ST_Bound 1 ''R'')) (?h, ?w)"
    by (simp add: handle_bind_def sample_fields random_id_def receipt_bytes_conflict_def retired_default_def Let_def)
  ultimately show ?thesis by (simp add: ctl_bind_def ctl_return_def)
qed

theorem control_runs_consistent_witness:
  "control_inv sample_env (control_close (with_expectations sample_expectations)) \<and>
   authority_gone (control_close (with_expectations sample_expectations :: u64 helper_control))"
proof -
  let ?h = "with_expectations sample_expectations :: u64 helper_control"
  have "control_runs sample_env (?h, sample_stream) (control_close ?h, sample_stream)"
    by (rule r_into_rtranclp) (rule call_close)
  from control_runs_consistent [OF this] show ?thesis
    by (simp add: control_close_def clear_authority_def with_expectations_def)
qed

text \<open>The peer closes the stream while the bind is awaited.\<close>

lemma sample_read_closed:
  "read_record (cv_frames sample_env) (cv_io sample_env) (sample_stream\<lparr> pp_in := [] \<rparr>) =
     Some (Err FrE_Closed, sample_stream\<lparr> pp_in := [] \<rparr>)"
  by (simp add: sample_env_def read_record_def read_prefix_def CONTROL_FRAME_PREFIX_BYTES_def
      fill_buffer.simps pipe_read_def sample_stream_def)

theorem control_fails_closed_witness:
  "\<exists>h'. control_step sample_env (sample_session, sample_stream\<lparr> pp_in := [] \<rparr>) =
       Some (Err (HE_Frame FrE_Closed), h', sample_stream\<lparr> pp_in := [] \<rparr>)
     \<and> hc_pending sample_session \<noteq> None \<and> session_closed sample_env h'"
proof -
  obtain h' where step: "control_step sample_env (sample_session, sample_stream\<lparr> pp_in := [] \<rparr>) =
      Some (Err (HE_Frame FrE_Closed), h', sample_stream\<lparr> pp_in := [] \<rparr>)"
    by (simp add: control_step_def ctl_bind_def require_active_def read_incoming_def sample_read_closed sample_fields
        ctl_fail_def read_fault_def fault_transport_def Let_def)
  with control_fails_closed [OF sample_session_inv, of "sample_stream\<lparr> pp_in := [] \<rparr>"] show ?thesis
    by (auto simp: sample_fields)
qed

theorem bound_only_for_exact_bind_witness:
  "\<exists>h'. bound_evidence sample_env sample_session sample_stream 1 ''R'' h'"
proof -
  obtain h' w' where "control_step sample_env (sample_session, sample_stream) = Some (Ok (ST_Bound 1 ''R''), h', w')"
    using sample_step by blast
  from bound_only_for_exact_bind [OF sample_session_inv this] show ?thesis by blast
qed

end
