(* ===== verification/Prompt_Loaders.thy ===== *)
theory Prompt_Loaders
  imports Prompt Rust_Parse
begin

text \<open>
  The declarative loaders of the prompt layers (\<open>bitty-ai-runtime/src/prompt.rs\<close>, second part): the
  lexical containment check of project paths, the line format of project files and of the skill
  registry, and the merge of several files or entries into one layer. The \<open>BTreeMap\<close> of directives
  is an association list kept sorted by key.
\<close>

section \<open>Constants and lines\<close>

definition MAX_PROJECT_FILES :: nat where
  "MAX_PROJECT_FILES = 16"

definition MAX_PROJECT_FILE_BYTES :: nat where
  "MAX_PROJECT_FILE_BYTES = 8 * 1024"

definition MAX_PROJECT_PATH_LEN :: nat where
  "MAX_PROJECT_PATH_LEN = 256"

definition MAX_SKILL_ENTRIES :: nat where
  "MAX_SKILL_ENTRIES = 16"

definition MAX_SKILL_ENTRY_BYTES :: nat where
  "MAX_SKILL_ENTRY_BYTES = 8 * 1024"

definition MAX_SKILL_REGISTRY_BYTES :: nat where
  "MAX_SKILL_REGISTRY_BYTES = 64 * 1024"

definition MAX_SKILL_NAME_LEN :: nat where
  "MAX_SKILL_NAME_LEN = 64"

definition MAX_SKILL_VERSION_LEN :: nat where
  "MAX_SKILL_VERSION_LEN = 32"

definition SUPPORTED_SKILL_VERSIONS :: "string list" where
  "SUPPORTED_SKILL_VERSIONS = [''1'']"

text \<open>\<open>str::lines\<close>: the pieces between line feeds, a carriage return before a line feed dropped, and
  no empty piece after a final line feed.\<close>

definition strip_cr :: "string \<Rightarrow> string" where
  "strip_cr l = (if l \<noteq> [] \<and> last l = CHR 0x0D then butlast l else l)"

definition str_lines :: "string \<Rightarrow> string list" where
  "str_lines s =
     (let ps = split_on (CHR 0x0A) s
      in map strip_cr (butlast ps) @ (if last ps = [] then [] else [last ps]))"

fun join_with :: "char \<Rightarrow> string list \<Rightarrow> string" where
  "join_with d [] = []"
| "join_with d [p] = p"
| "join_with d (p # q # ps) = p @ d # join_with d (q # ps)"

abbreviation body_text :: "string list \<Rightarrow> string" where
  "body_text \<equiv> join_with (CHR 0x0A)"

definition is_supported_skill_version :: "string \<Rightarrow> bool" where
  "is_supported_skill_version version \<longleftrightarrow> version \<in> set SUPPORTED_SKILL_VERSIONS"

definition validate_skill_name :: "string \<Rightarrow> (unit, prompt_error) result" where
  "validate_skill_name name =
     (if ident_ok MAX_SKILL_NAME_LEN (\<lambda>b. b = CHR ''_'' \<or> b = CHR ''-'') name then Ok ()
      else Err (PrE_InvalidToolName name))"

section \<open>Project paths\<close>

definition is_unsafe_path_segment :: "string \<Rightarrow> bool" where
  "is_unsafe_path_segment segment \<longleftrightarrow> segment = [] \<or> segment = ''.'' \<or> segment = ''..''"

definition split_rooted_path :: "string \<Rightarrow> (bool \<times> string) option" where
  "split_rooted_path path =
     (if path = [] \<or> length path > MAX_PROJECT_PATH_LEN then None
      else if list_ex (\<lambda>c. c \<in> {CHR 0x00, CHR 0x0D, CHR 0x0A, CHR 0x5C}) path then None
      else (let (absolute, rest) =
              (case strip_prefix ''/'' path of Some rest \<Rightarrow> (True, rest) | None \<Rightarrow> (False, path))
            in if rest = [] then None
               else if list_ex is_unsafe_path_segment (split_on (CHR ''/'') rest) then None
               else Some (absolute, rest)))"

text \<open>One turn of the loop over the roots of \<open>admit_project_path\<close>.\<close>

definition root_admits :: "bool \<Rightarrow> string \<Rightarrow> string \<Rightarrow> bool" where
  "root_admits candidate_abs candidate_rest root =
     (case split_rooted_path root of
        None \<Rightarrow> False
      | Some (root_abs, root_rest) \<Rightarrow>
          if root_abs \<noteq> candidate_abs \<or> length root_rest > MAX_PROJECT_PATH_LEN then False
          else candidate_rest = root_rest
            \<or> (length candidate_rest > length root_rest \<and> prefix root_rest candidate_rest
               \<and> candidate_rest ! length root_rest = CHR ''/''))"

definition admit_project_path :: "string list \<Rightarrow> string \<Rightarrow> (unit, prompt_error) result" where
  "admit_project_path roots candidate =
     (case split_rooted_path candidate of
        None \<Rightarrow> Err (PrE_InvalidProjectPath candidate)
      | Some (candidate_abs, candidate_rest) \<Rightarrow>
          if length candidate_rest > MAX_PROJECT_PATH_LEN then Err (PrE_InvalidProjectPath candidate)
          else if list_ex (root_admits candidate_abs candidate_rest) roots then Ok ()
          else Err (PrE_InvalidProjectPath candidate))"

section \<open>Project files\<close>

record project_parts =
  pp_text_lines :: "string list"
  pp_allowed :: "string list"
  pp_denied :: "string list"
  pp_budget :: "nat option"
  pp_scopes :: "string list"
  pp_directives :: "(string \<times> string) list"

definition project_parts_default :: project_parts where
  "project_parts_default =
     \<lparr> pp_text_lines = [], pp_allowed = [], pp_denied = [], pp_budget = None, pp_scopes = [],
       pp_directives = [] \<rparr>"

definition split_header_line :: "string \<Rightarrow> (string \<times> string) option" where
  "split_header_line line =
     map_option (\<lambda>(raw_key, raw_value). (str_trim raw_key, str_trim raw_value)) (split_once (CHR ''='') line)"

text \<open>A blank line or a comment, which every header position skips.\<close>

definition is_skipped_line :: "string \<Rightarrow> bool" where
  "is_skipped_line trimmed \<longleftrightarrow> trimmed = [] \<or> hd trimmed = CHR ''#''"

text \<open>One directive against those met so far: equal values agree, differing ones are refused with the
  error of the caller.\<close>

definition add_directive ::
  "(string \<Rightarrow> prompt_error) \<Rightarrow> (string \<times> string) list \<Rightarrow> string \<times> string
     \<Rightarrow> ((string \<times> string) list, prompt_error) result" where
  "add_directive conflict m kv =
     (case map_of m (fst kv) of
        None \<Rightarrow> Ok (insort_key fst kv m)
      | Some first \<Rightarrow> if first = snd kv then Ok m else Err (conflict first))"

definition malformed_line :: "(string \<Rightarrow> prompt_error) \<Rightarrow> nat \<Rightarrow> string \<Rightarrow> prompt_error" where
  "malformed_line err lineno detail = err (''line '' @ show_nat lineno @ '': '' @ detail)"

abbreviation malformed_project :: "nat \<Rightarrow> string \<Rightarrow> prompt_error" where
  "malformed_project \<equiv> malformed_line PrE_MalformedProject"

abbreviation malformed_skill :: "nat \<Rightarrow> string \<Rightarrow> prompt_error" where
  "malformed_skill \<equiv> malformed_line PrE_MalformedSkill"

text \<open>A header entry that appends one validated value to a list.\<close>

definition listed_value ::
  "prompt_error \<Rightarrow> (string \<Rightarrow> (unit, prompt_error) result) \<Rightarrow> string \<Rightarrow> (unit, prompt_error) result" where
  "listed_value empty_error validate v = (if v = [] then Err empty_error else validate v)"

text \<open>A directive header, after \<open>directive.\<close> has been stripped from its key.\<close>

definition header_directive ::
  "(nat \<Rightarrow> string \<Rightarrow> prompt_error) \<Rightarrow> nat \<Rightarrow> string \<Rightarrow> string \<Rightarrow> (string \<times> string) list
     \<Rightarrow> ((string \<times> string) list, prompt_error) result" where
  "header_directive malformed lineno name v m =
     (if name = [] then Err (malformed lineno ''empty directive name'')
      else and_then (validate_directive_key name) (\<lambda>_.
           and_then (validate_directive_value name v) (\<lambda>_.
           add_directive (\<lambda>_. malformed lineno ''duplicate directive with different values'') m (name, v))))"

definition project_header :: "nat \<Rightarrow> string \<Rightarrow> string \<Rightarrow> project_parts \<Rightarrow> (project_parts, prompt_error) result" where
  "project_header lineno key v parts =
     (if key = [] then Err (malformed_project lineno ''empty header key'')
      else case strip_prefix ''directive.'' key of
        Some name \<Rightarrow>
          and_then (header_directive malformed_project lineno name v (pp_directives parts)) (\<lambda>m.
          Ok (parts\<lparr>pp_directives := m\<rparr>))
      | None \<Rightarrow>
          if key = ''allow_tool'' then
            and_then (listed_value (malformed_project lineno ''empty allow_tool value'') validate_prompt_tool_name v) (\<lambda>_.
            Ok (parts\<lparr>pp_allowed := pp_allowed parts @ [v]\<rparr>))
          else if key = ''deny_tool'' then
            and_then (listed_value (malformed_project lineno ''empty deny_tool value'') validate_prompt_tool_name v) (\<lambda>_.
            Ok (parts\<lparr>pp_denied := pp_denied parts @ [v]\<rparr>))
          else if key = ''scope'' then
            and_then (listed_value (malformed_project lineno ''empty scope value'') validate_scope v) (\<lambda>_.
            Ok (parts\<lparr>pp_scopes := pp_scopes parts @ [v]\<rparr>))
          else if key = ''budget'' then
            (case parse_uint usize_max v of
               None \<Rightarrow> Err (malformed_project lineno ''budget must be a decimal byte count'')
             | Some ceiling \<Rightarrow>
                 and_then (validate_budget_ceiling ceiling) (\<lambda>_.
                 case pp_budget parts of
                   None \<Rightarrow> Ok (parts\<lparr>pp_budget := Some ceiling\<rparr>)
                 | Some first \<Rightarrow>
                     if first = ceiling then Ok parts
                     else Err (malformed_project lineno ''duplicate budget with different values'')))
          else Err (malformed_project lineno ''unknown project header key''))"

fun parse_project_lines ::
  "nat \<Rightarrow> string list \<Rightarrow> project_parts \<Rightarrow> (project_parts, prompt_error) result" where
  "parse_project_lines lineno [] parts = Ok parts"
| "parse_project_lines lineno (line # rest) parts =
     (let trimmed = str_trim line in
      if is_skipped_line trimmed then parse_project_lines (lineno + 1) rest parts
      else if trimmed = ''text:'' then Ok (parts\<lparr>pp_text_lines := pp_text_lines parts @ rest\<rparr>)
      else case split_header_line trimmed of
        None \<Rightarrow> Err (malformed_project lineno ''expected `key = value` or `text:`'')
      | Some (key, v) \<Rightarrow>
          and_then (project_header lineno key v parts) (parse_project_lines (lineno + 1) rest))"

definition parse_project_source :: "string \<Rightarrow> (project_parts, prompt_error) result" where
  "parse_project_source source =
     (if length source > MAX_PROJECT_FILE_BYTES
      then Err (PrE_ProjectFileTooLarge MAX_PROJECT_FILE_BYTES (length source))
      else if CHR 0x0D \<in> set source
      then Err (PrE_MalformedProject ''project file must use LF newlines only (no CR)'')
      else if CHR 0x00 \<in> set source
      then Err (PrE_MalformedProject ''project file must not contain NUL'')
      else parse_project_lines 1 (str_lines source) project_parts_default)"

definition none_if_empty :: "'a list \<Rightarrow> 'a list option" where
  "none_if_empty xs = (if xs = [] then None else Some xs)"

definition parts_layer :: "prompt_layer \<Rightarrow> nat option \<Rightarrow> project_parts \<Rightarrow> layer_input" where
  "parts_layer layer budget parts =
     \<lparr> li_layer = layer, li_text = body_text (pp_text_lines parts),
       li_allowed_tools = none_if_empty (remdups_adj (sort (pp_allowed parts))),
       li_denied_tools = remdups_adj (sort (pp_denied parts)),
       li_budget_ceiling_bytes = budget,
       li_allowed_scopes = none_if_empty (remdups_adj (sort (pp_scopes parts))),
       li_directives = map (\<lambda>(k, v). \<lparr> dv_key = k, dv_value = v \<rparr>) (pp_directives parts) \<rparr>"

definition project_parts_to_layer :: "project_parts \<Rightarrow> (layer_input, prompt_error) result" where
  "project_parts_to_layer parts =
     (let input = parts_layer PL_Project (pp_budget parts) parts
      in and_then (validate_layer input) (\<lambda>_. Ok input))"

definition project_from_str :: "string \<Rightarrow> (layer_input, prompt_error) result" where
  "project_from_str source = and_then (parse_project_source source) project_parts_to_layer"

fun name_malformed_path :: "string \<Rightarrow> prompt_error \<Rightarrow> prompt_error" where
  "name_malformed_path path (PrE_MalformedProject reason) = PrE_MalformedProject (path @ '': '' @ reason)"
| "name_malformed_path path other = other"

fun parse_project_files ::
  "string list \<Rightarrow> (string \<times> string) list \<Rightarrow> ((string \<times> project_parts) list, prompt_error) result" where
  "parse_project_files roots [] = Ok []"
| "parse_project_files roots ((path, bytes) # files) =
     and_then (admit_project_path roots path) (\<lambda>_.
     and_then (map_err (name_malformed_path path) (parse_project_source bytes)) (\<lambda>parts.
     and_then (parse_project_files roots files) (\<lambda>rest. Ok ((path, parts) # rest))))"

text \<open>The loop over the directives of one file or entry.\<close>

fun merge_file_directives ::
  "(string \<times> string) list \<Rightarrow> (string \<times> string) list \<Rightarrow> ((string \<times> string) list, prompt_error) result" where
  "merge_file_directives acc [] = Ok acc"
| "merge_file_directives acc ((key, v) # rest) =
     and_then (add_directive (\<lambda>first. PrE_UnresolvableConflict key first v) acc (key, v)) (\<lambda>m.
     merge_file_directives m rest)"

fun merge_budget :: "nat option \<Rightarrow> nat option \<Rightarrow> nat option" where
  "merge_budget (Some current) (Some b) = Some (min current b)"
| "merge_budget (Some current) None = Some current"
| "merge_budget None b = b"

fun merge_project_files ::
  "string list \<Rightarrow> project_parts \<Rightarrow> (string \<times> project_parts) list \<Rightarrow> (project_parts, prompt_error) result" where
  "merge_project_files seen acc [] = Ok acc"
| "merge_project_files seen acc ((path, parts) # rest) =
     (if path \<in> set seen then Err (PrE_MalformedProject (path @ '': duplicate project path''))
      else and_then (merge_file_directives (pp_directives acc) (pp_directives parts)) (\<lambda>m.
           merge_project_files (seen @ [path])
             \<lparr> pp_text_lines = pp_text_lines acc @ pp_text_lines parts,
               pp_allowed = pp_allowed acc @ pp_allowed parts,
               pp_denied = pp_denied acc @ pp_denied parts,
               pp_budget = merge_budget (pp_budget acc) (pp_budget parts),
               pp_scopes = pp_scopes acc @ pp_scopes parts,
               pp_directives = m \<rparr> rest))"

definition project_from_files_under_roots ::
  "string list \<Rightarrow> (string \<times> string) list \<Rightarrow> (layer_input, prompt_error) result" where
  "project_from_files_under_roots roots files =
     (if length files > MAX_PROJECT_FILES then Err (PrE_TooManyProjectFiles MAX_PROJECT_FILES)
      else and_then (parse_project_files roots files) (\<lambda>parsed.
           and_then (merge_project_files [] project_parts_default (sort_key fst parsed))
             project_parts_to_layer))"

section \<open>The skill registry\<close>

record skill_entry =
  sk_name :: string
  sk_fragment :: string
  sk_allowed :: "string list"
  sk_denied :: "string list"
  sk_scopes :: "string list"
  sk_directives :: "(string \<times> string) list"

definition chunk_is_blank :: "(nat \<times> string) list \<Rightarrow> bool" where
  "chunk_is_blank chunk = list_all (\<lambda>(_, line). is_skipped_line (str_trim line)) chunk"

text \<open>The locals of the loop of \<open>parse_skill_chunk\<close>.\<close>

record chunk_state =
  ck_name :: "string option"
  ck_version :: "string option"
  ck_allowed :: "string list"
  ck_denied :: "string list"
  ck_scopes :: "string list"
  ck_directives :: "(string \<times> string) list"
  ck_fragment_lines :: "string list"

definition skill_header :: "nat \<Rightarrow> string \<Rightarrow> string \<Rightarrow> chunk_state \<Rightarrow> (chunk_state, prompt_error) result" where
  "skill_header lineno key v st =
     (if key = ''name'' then
        if v = [] then Err (malformed_skill lineno ''empty skill name'')
        else if length v > MAX_SKILL_NAME_LEN
        then Err (malformed_skill lineno ''skill name exceeds length bound'')
        else and_then (validate_skill_name v) (\<lambda>_.
          case ck_name st of
            None \<Rightarrow> Ok (st\<lparr>ck_name := Some v\<rparr>)
          | Some first \<Rightarrow> if first = v then Ok st
                          else Err (malformed_skill lineno ''duplicate name lines differ''))
      else if key = ''version'' then
        if v = [] then Err (malformed_skill lineno ''empty skill version'')
        else if length v > MAX_SKILL_VERSION_LEN
        then Err (malformed_skill lineno ''skill version exceeds length bound'')
        else Ok (st\<lparr>ck_version := Some v\<rparr>)
      else case strip_prefix ''directive.'' key of
        Some name \<Rightarrow>
          and_then (header_directive malformed_skill lineno name v (ck_directives st)) (\<lambda>m.
          Ok (st\<lparr>ck_directives := m\<rparr>))
      | None \<Rightarrow>
          if key = ''allow_tool'' then
            and_then (listed_value (malformed_skill lineno ''empty allow_tool value'') validate_prompt_tool_name v) (\<lambda>_.
            Ok (st\<lparr>ck_allowed := ck_allowed st @ [v]\<rparr>))
          else if key = ''deny_tool'' then
            and_then (listed_value (malformed_skill lineno ''empty deny_tool value'') validate_prompt_tool_name v) (\<lambda>_.
            Ok (st\<lparr>ck_denied := ck_denied st @ [v]\<rparr>))
          else if key = ''scope'' then
            and_then (listed_value (malformed_skill lineno ''empty scope value'') validate_scope v) (\<lambda>_.
            Ok (st\<lparr>ck_scopes := ck_scopes st @ [v]\<rparr>))
          else Err (malformed_skill lineno ''unknown skill entry key''))"

fun parse_skill_lines :: "(nat \<times> string) list \<Rightarrow> chunk_state \<Rightarrow> (chunk_state, prompt_error) result" where
  "parse_skill_lines [] st = Ok st"
| "parse_skill_lines ((lineno, line) # rest) st =
     (let trimmed = str_trim line in
      if is_skipped_line trimmed then parse_skill_lines rest st
      else if trimmed = ''text:'' then Ok (st\<lparr>ck_fragment_lines := ck_fragment_lines st @ map snd rest\<rparr>)
      else case split_header_line trimmed of
        None \<Rightarrow> Err (malformed_skill lineno ''expected `key = value` or `text:`'')
      | Some (key, v) \<Rightarrow> and_then (skill_header lineno key v st) (parse_skill_lines rest))"

definition chunk_start :: chunk_state where
  "chunk_start =
     \<lparr> ck_name = None, ck_version = None, ck_allowed = [], ck_denied = [], ck_scopes = [],
       ck_directives = [], ck_fragment_lines = [] \<rparr>"

definition parse_skill_chunk :: "(nat \<times> string) list \<Rightarrow> (skill_entry option, prompt_error) result" where
  "parse_skill_chunk chunk =
     (if chunk_is_blank chunk then Ok None
      else and_then (parse_skill_lines chunk chunk_start) (\<lambda>st.
        case ck_name st of
          None \<Rightarrow> Err (malformed_skill (case chunk of [] \<Rightarrow> 0 | (lineno, _) # _ \<Rightarrow> lineno)
                        ''skill entry misses required `name`'')
        | Some name \<Rightarrow> (case ck_version st of
            None \<Rightarrow> Err (PrE_MissingSkillVersion name)
          | Some version \<Rightarrow>
              if \<not> is_supported_skill_version version then Err (PrE_UnsupportedSkillVersion version)
              else (let fragment = body_text (ck_fragment_lines st) in
                if length fragment > MAX_SKILL_ENTRY_BYTES
                then Err (PrE_SkillEntryTooLarge MAX_SKILL_ENTRY_BYTES (length fragment))
                else Ok (Some \<lparr> sk_name = name, sk_fragment = fragment, sk_allowed = ck_allowed st,
                       sk_denied = ck_denied st, sk_scopes = ck_scopes st,
                       sk_directives = ck_directives st \<rparr>)))))"

text \<open>The first loop of \<open>skills_from_str\<close>: the version line, returning the numbered lines after it.\<close>

fun skip_to_version :: "(nat \<times> string) list \<Rightarrow> ((nat \<times> string) list, prompt_error) result" where
  "skip_to_version [] = Err (PrE_MalformedSkill ''skill registry misses required `version` header'')"
| "skip_to_version ((lineno, line) # lines) =
     (let trimmed = str_trim line in
      if is_skipped_line trimmed then skip_to_version lines
      else case split_header_line trimmed of
        None \<Rightarrow> Err (malformed_skill lineno ''first line must be `version = <n>`'')
      | Some (key, v) \<Rightarrow>
          if key \<noteq> ''version'' \<or> v = []
          then Err (malformed_skill lineno ''first line must be `version = <n>`'')
          else if length v > MAX_SKILL_VERSION_LEN \<or> \<not> is_supported_skill_version v
          then Err (PrE_UnsupportedSkillVersion v)
          else Ok lines)"

text \<open>The chunks between separator lines; the last one, when empty, is dropped.\<close>

fun skill_chunks :: "(nat \<times> string) list \<Rightarrow> (nat \<times> string) list list" where
  "skill_chunks [] = [[]]"
| "skill_chunks ((lineno, line) # rest) =
     (if str_trim line = ''---'' then [] # skill_chunks rest
      else (case skill_chunks rest of
              [] \<Rightarrow> [[(lineno, line)]]
            | c # cs \<Rightarrow> ((lineno, line) # c) # cs))"

definition drop_empty_last :: "'a list list \<Rightarrow> 'a list list" where
  "drop_empty_last cs = (if cs \<noteq> [] \<and> last cs = [] then butlast cs else cs)"

fun parse_skill_chunks :: "(nat \<times> string) list list \<Rightarrow> (skill_entry list, prompt_error) result" where
  "parse_skill_chunks [] = Ok []"
| "parse_skill_chunks (chunk # rest) =
     and_then (parse_skill_chunk chunk) (\<lambda>e.
     and_then (parse_skill_chunks rest) (\<lambda>es.
     Ok (case e of None \<Rightarrow> es | Some entry \<Rightarrow> entry # es)))"

text \<open>The first pair of neighbours with one name, by \<open>windows(2)\<close>.\<close>

fun duplicate_skill :: "skill_entry list \<Rightarrow> string option" where
  "duplicate_skill (a # b # es) =
     (if sk_name a = sk_name b then Some (sk_name a) else duplicate_skill (b # es))"
| "duplicate_skill _ = None"

fun merge_skills :: "project_parts \<Rightarrow> skill_entry list \<Rightarrow> (project_parts, prompt_error) result" where
  "merge_skills acc [] = Ok acc"
| "merge_skills acc (entry # rest) =
     and_then (merge_file_directives (pp_directives acc) (sk_directives entry)) (\<lambda>m.
     merge_skills
       \<lparr> pp_text_lines = (if sk_fragment entry = [] then pp_text_lines acc
                          else pp_text_lines acc @ [sk_fragment entry]),
         pp_allowed = pp_allowed acc @ sk_allowed entry,
         pp_denied = pp_denied acc @ sk_denied entry,
         pp_budget = pp_budget acc,
         pp_scopes = pp_scopes acc @ sk_scopes entry,
         pp_directives = m \<rparr> rest)"

definition skills_from_str :: "string \<Rightarrow> (layer_input, prompt_error) result" where
  "skills_from_str source =
     (if length source > MAX_SKILL_REGISTRY_BYTES
      then Err (PrE_SkillRegistryTooLarge MAX_SKILL_REGISTRY_BYTES (length source))
      else if CHR 0x0D \<in> set source
      then Err (PrE_MalformedSkill ''skill registry must use LF newlines only (no CR)'')
      else if CHR 0x00 \<in> set source
      then Err (PrE_MalformedSkill ''skill registry must not contain NUL'')
      else and_then (skip_to_version (enumerate 1 (str_lines source))) (\<lambda>lines.
           and_then (parse_skill_chunks (drop_empty_last (skill_chunks lines))) (\<lambda>entries.
           if length entries > MAX_SKILL_ENTRIES then Err (PrE_TooManySkills MAX_SKILL_ENTRIES)
           else (let ordered = sort_key sk_name entries in
             case duplicate_skill ordered of
               Some name \<Rightarrow> Err (PrE_DuplicateSkill name)
             | None \<Rightarrow>
                 and_then (merge_skills project_parts_default ordered) (\<lambda>acc.
                 let input = parts_layer PL_SkillsProfile None acc
                 in and_then (validate_layer input) (\<lambda>_. Ok input))))))"

end
