(* ===== verification/Prompt_Loading.thy ===== *)
theory Prompt_Loading
  imports Prompt_Loaders
begin

text \<open>
  What the declarative loaders guarantee: a project path is admitted exactly when its segments extend
  those of a root, a set of project files merges exactly into the layer a declarative specification
  describes, whatever order the files come in, and every loader returns only well-formed layers that a
  snapshot accepts.
\<close>

section \<open>Containment of project paths\<close>

definition path_absolute :: "string \<Rightarrow> bool" where
  "path_absolute p \<longleftrightarrow> prefix ''/'' p"

definition path_rest :: "string \<Rightarrow> string" where
  "path_rest p = (if path_absolute p then tl p else p)"

definition path_segments :: "string \<Rightarrow> string list" where
  "path_segments p = split_on (CHR ''/'') (path_rest p)"

text \<open>A path with nothing for a file system to reinterpret: bounded, no NUL, line break or backslash,
  and no empty, \<open>.\<close> or \<open>..\<close> segment.\<close>

definition clean_path :: "string \<Rightarrow> bool" where
  "clean_path p \<longleftrightarrow>
     length p \<le> MAX_PROJECT_PATH_LEN
     \<and> set p \<inter> {CHR 0x00, CHR 0x0D, CHR 0x0A, CHR 0x5C} = {}
     \<and> set (path_segments p) \<inter> {[], ''.'', ''..''} = {}"

lemma split_on_concat: "split_on d (a @ d # b) = split_on d a @ split_on d b"
proof (induction a)
  case (Cons c a)
  then show ?case by (cases "split_on d a") auto
qed simp

lemma join_with_Cons: "ps \<noteq> [] \<Longrightarrow> join_with d (p # ps) = p @ d # join_with d ps"
  by (cases ps) auto

lemma join_with_append:
  "xs \<noteq> [] \<Longrightarrow> ys \<noteq> [] \<Longrightarrow> join_with d (xs @ ys) = join_with d xs @ d # join_with d ys"
proof (induction xs)
  case (Cons x xs)
  then show ?case by (cases "xs = []") (auto simp: join_with_Cons)
qed simp

lemma join_split_on [simp]: "join_with d (split_on d s) = s"
proof (induction s)
  case (Cons c s)
  then show ?case
    by (cases "split_on d s") (auto simp: join_with_Cons split: if_splits, (metis join_with.simps(2,3) append_Cons list.exhaust)+)
qed simp

lemma prefix_split_on_iff:
  "prefix (split_on d r) (split_on d c) \<longleftrightarrow> c = r \<or> (\<exists>x. c = r @ d # x)"
proof
  assume "prefix (split_on d r) (split_on d c)"
  then obtain ys where ys: "split_on d c = split_on d r @ ys" by (auto simp: prefix_def)
  have c: "c = join_with d (split_on d r @ ys)" by (simp flip: ys)
  show "c = r \<or> (\<exists>x. c = r @ d # x)"
    using c by (cases "ys = []") (auto simp: join_with_append)
qed (auto simp: split_on_concat)

lemma split_rooted_path_eq:
  "split_rooted_path p = (if clean_path p then Some (path_absolute p, path_rest p) else None)"
proof -
  have abs: "(case strip_prefix ''/'' p of Some rest \<Rightarrow> (True, rest) | None \<Rightarrow> (False, p))
      = (path_absolute p, path_rest p)"
    by (cases p) (auto simp: path_absolute_def path_rest_def)
  have seg: "list_ex is_unsafe_path_segment (split_on (CHR ''/'') (path_rest p))
      \<longleftrightarrow> set (path_segments p) \<inter> {[], ''.'', ''..''} \<noteq> {}"
    unfolding list_ex_iff is_unsafe_path_segment_def path_segments_def by blast
  have chars: "list_ex (\<lambda>c. c \<in> {CHR 0x00, CHR 0x0D, CHR 0x0A, CHR 0x5C}) p
      \<longleftrightarrow> set p \<inter> {CHR 0x00, CHR 0x0D, CHR 0x0A, CHR 0x5C} \<noteq> {}"
    unfolding list_ex_iff by blast
  have rest: "path_rest p = [] \<Longrightarrow> set (path_segments p) \<inter> {[], ''.'', ''..''} \<noteq> {}"
    by (simp add: path_segments_def)
  have empty: "p = [] \<Longrightarrow> path_rest p = []" by (simp add: path_rest_def path_absolute_def)
  show ?thesis
    unfolding split_rooted_path_def abs seg chars clean_path_def Let_def prod.case
    using rest empty by (auto simp del: Int_insert_right_if0 Int_insert_right_if1 Int_insert_right)
qed

lemma path_rest_le: "length (path_rest p) \<le> length p"
  by (simp add: path_rest_def)

lemma extends_iff:
  "(c = r \<or> length c > length r \<and> prefix r c \<and> c ! length r = d) \<longleftrightarrow> prefix (split_on d r) (split_on d c)"
  unfolding prefix_split_on_iff
proof (intro iffI; elim disjE exE)
  assume "length r < length c \<and> prefix r c \<and> c ! length r = d"
  then obtain x where "c = r @ x" "x \<noteq> []" "c ! length r = d" by (auto simp: prefix_def)
  then have "c = r @ d # tl x" by (cases x) (auto simp: nth_append)
  then show "c = r \<or> (\<exists>x. c = r @ d # x)" by blast
qed auto

lemma root_admits_iff:
  "clean_path c \<Longrightarrow> root_admits (path_absolute c) (path_rest c) r \<longleftrightarrow>
     clean_path r \<and> path_absolute r = path_absolute c \<and> prefix (path_segments r) (path_segments c)"
  using path_rest_le [of r]
  by (auto simp: root_admits_def split_rooted_path_eq path_segments_def extends_iff [symmetric] clean_path_def)

text \<open>
  C30. A candidate path is admitted exactly when it is clean and some root is clean, of the same
  absoluteness, and its segments are an initial part of the candidate's: a path that leaves every root
  lexically is refused, and a sibling whose name merely starts like a root is not mistaken for it.
\<close>

theorem project_path_contained:
  "admit_project_path roots c = Ok () \<longleftrightarrow>
     clean_path c \<and> (\<exists>r \<in> set roots. clean_path r \<and> path_absolute r = path_absolute c
        \<and> prefix (path_segments r) (path_segments c))"
proof (cases "clean_path c")
  case True
  then have "length (path_rest c) \<le> MAX_PROJECT_PATH_LEN"
    using path_rest_le [of c] by (simp add: clean_path_def)
  with True show ?thesis
    by (auto simp: admit_project_path_def split_rooted_path_eq list_ex_iff root_admits_iff)
qed (simp add: admit_project_path_def split_rooted_path_eq)

theorem project_path_contained_witness:
  "admit_project_path [''.wheel''] ''.wheel/a/b.md'' = Ok ()
   \<and> admit_project_path [''.wheel''] ''.wheelhouse/a'' \<noteq> Ok ()
   \<and> admit_project_path [''.wheel''] ''.wheel/../secret'' \<noteq> Ok ()"
  unfolding project_path_contained by code_simp

section \<open>Merging directives\<close>

definition keys_sorted :: "(string \<times> string) list \<Rightarrow> bool" where
  "keys_sorted m \<longleftrightarrow> sorted_wrt (<) (map fst m)"

lemma keys_sorted_Nil [simp]: "keys_sorted []"
  by (simp add: keys_sorted_def)

lemma keys_sorted_unique: "keys_sorted m \<Longrightarrow> keys_sorted m' \<Longrightarrow> set m = set m' \<Longrightarrow> m = m'"
  unfolding keys_sorted_def sorted_wrt_map by (rule strict_key_sorted_unique)

lemma keys_sorted_functional:
  "keys_sorted m \<Longrightarrow> (k, v) \<in> set m \<Longrightarrow> (k, w) \<in> set m \<Longrightarrow> v = w"
  unfolding keys_sorted_def strict_sorted_iff by (metis eq_key_imp_eq_value)

lemma keys_sorted_insort:
  "keys_sorted m \<Longrightarrow> fst kv \<notin> fst ` set m \<Longrightarrow> keys_sorted (insort_key fst kv m)"
  unfolding keys_sorted_def strict_sorted_iff by (simp add: sorted_insort_key distinct_insort_key)

lemma add_directive_Ok_iff:
  assumes "keys_sorted m"
  shows "add_directive e m kv = Ok m' \<longleftrightarrow> keys_sorted m' \<and> set m' = insert kv (set m)"
proof (cases "map_of m (fst kv)")
  case None
  then have "fst kv \<notin> fst ` set m" by (simp add: map_of_eq_None_iff)
  from keys_sorted_insort [OF assms this] None show ?thesis
    by (auto simp: add_directive_def set_insort_key intro: keys_sorted_unique)
next
  case (Some v)
  then have v: "(fst kv, v) \<in> set m" by (rule map_of_SomeD)
  show ?thesis
  proof (cases "v = snd kv")
    case True
    with v have "insert kv (set m) = set m" by auto
    with Some True assms show ?thesis by (auto simp: add_directive_def intro: keys_sorted_unique)
  next
    case False
    with v have "\<not> (keys_sorted m' \<and> set m' = insert kv (set m))"
      using keys_sorted_functional [of m' "fst kv" v "snd kv"] by auto
    with Some False show ?thesis by (simp add: add_directive_def)
  qed
qed

lemma merge_file_directives_Ok_iff:
  "keys_sorted m \<Longrightarrow> merge_file_directives m ds = Ok m' \<longleftrightarrow> keys_sorted m' \<and> set m' = set m \<union> set ds"
proof (induction ds arbitrary: m)
  case Nil
  then show ?case by (auto intro: keys_sorted_unique)
next
  case (Cons kv ds)
  obtain k v where kv: "kv = (k, v)" by fastforce
  let ?e = "\<lambda>first. PrE_UnresolvableConflict k first v"
  have "merge_file_directives m (kv # ds) = Ok m' \<longleftrightarrow>
      (\<exists>m1. keys_sorted m1 \<and> set m1 = insert kv (set m) \<and> keys_sorted m' \<and> set m' = set m1 \<union> set ds)"
    using Cons by (auto simp: kv result_simps add_directive_Ok_iff)
  also have "\<dots> \<longleftrightarrow> keys_sorted m' \<and> set m' = set m \<union> set (kv # ds)"
  proof
    assume m': "keys_sorted m' \<and> set m' = set m \<union> set (kv # ds)"
    define m1 where "m1 = filter (\<lambda>x. x \<in> insert kv (set m)) m'"
    have "keys_sorted m1"
      using m' unfolding m1_def keys_sorted_def sorted_wrt_map by (simp add: sorted_wrt_filter)
    moreover have "set m1 = insert kv (set m)" using m' by (auto simp: m1_def)
    ultimately show "\<exists>m1. keys_sorted m1 \<and> set m1 = insert kv (set m) \<and> keys_sorted m' \<and> set m' = set m1 \<union> set ds"
      using m' by auto
  qed auto
  finally show ?case .
qed

section \<open>Merging project files\<close>

definition budget_min :: "nat option list \<Rightarrow> nat option" where
  "budget_min bs =
     (let vs = map the (filter (\<lambda>b. b \<noteq> None) bs) in if vs = [] then None else Some (Min (set vs)))"

text \<open>What the merge of several parts should be: the texts and lists one after the other, the least
  budget, and the union of the directives, which has to be consistent.\<close>

definition merges_to :: "project_parts list \<Rightarrow> project_parts \<Rightarrow> bool" where
  "merges_to ps r \<longleftrightarrow>
     pp_text_lines r = concat (map pp_text_lines ps)
     \<and> pp_allowed r = concat (map pp_allowed ps)
     \<and> pp_denied r = concat (map pp_denied ps)
     \<and> pp_scopes r = concat (map pp_scopes ps)
     \<and> pp_budget r = budget_min (map pp_budget ps)
     \<and> keys_sorted (pp_directives r) \<and> set (pp_directives r) = (\<Union>p \<in> set ps. set (pp_directives p))"

lemma Min_insert2: "finite V \<Longrightarrow> Min (insert v (insert w V)) = Min (insert (min v w :: nat) V)"
  by (cases "V = {}") (simp_all add: min.assoc)

lemma budget_min_merge: "budget_min (a # b # bs) = budget_min (merge_budget a b # bs)"
proof (cases a)
  case (Some v)
  then show ?thesis
    by (cases b) (simp_all add: budget_min_def Let_def Min_insert2 del: Min_insert)
qed (simp add: budget_min_def)

lemma merges_to_Cons2:
  assumes "keys_sorted (pp_directives q)"
    "q = \<lparr> pp_text_lines = pp_text_lines a @ pp_text_lines b, pp_allowed = pp_allowed a @ pp_allowed b,
       pp_denied = pp_denied a @ pp_denied b, pp_budget = merge_budget (pp_budget a) (pp_budget b),
       pp_scopes = pp_scopes a @ pp_scopes b, pp_directives = m \<rparr>"
    "set m = set (pp_directives a) \<union> set (pp_directives b)"
  shows "merges_to (q # ps) r \<longleftrightarrow> merges_to (a # b # ps) r"
  using assms by (simp add: merges_to_def budget_min_merge Un_assoc)

lemma merges_to_single: "keys_sorted (pp_directives a) \<Longrightarrow> merges_to [a] r \<longleftrightarrow> r = a"
  by (cases r; cases a; cases "pp_budget a") (auto simp: merges_to_def budget_min_def intro: keys_sorted_unique)

lemma merges_to_consistent:
  assumes "merges_to (a # b # ps) r"
  obtains m where "keys_sorted m" "set m = set (pp_directives a) \<union> set (pp_directives b)"
proof
  let ?S = "set (pp_directives a) \<union> set (pp_directives b)"
  let ?m = "filter (\<lambda>x. x \<in> ?S) (pp_directives r)"
  show "keys_sorted ?m"
    using assms unfolding merges_to_def keys_sorted_def sorted_wrt_map by (simp add: sorted_wrt_filter)
  show "set ?m = ?S" using assms by (auto simp: merges_to_def)
qed

lemma merge_project_files_Ok_iff:
  "keys_sorted (pp_directives a) \<Longrightarrow> merge_project_files seen a xs = Ok r \<longleftrightarrow>
     distinct (map fst xs) \<and> set (map fst xs) \<inter> set seen = {} \<and> merges_to (a # map snd xs) r"
proof (induction seen a xs rule: merge_project_files.induct)
  case (1 seen a)
  then show ?case by (auto simp: merges_to_single)
next
  case (2 seen a path parts rest)
  let ?q = "\<lambda>m. \<lparr> pp_text_lines = pp_text_lines a @ pp_text_lines parts,
       pp_allowed = pp_allowed a @ pp_allowed parts, pp_denied = pp_denied a @ pp_denied parts,
       pp_budget = merge_budget (pp_budget a) (pp_budget parts),
       pp_scopes = pp_scopes a @ pp_scopes parts, pp_directives = m \<rparr>"
  let ?D = "set (pp_directives a) \<union> set (pp_directives parts)"
  show ?case
  proof (cases "path \<in> set seen")
    case False
    have IH: "merge_project_files (seen @ [path]) (?q m) rest = Ok r \<longleftrightarrow>
        distinct (map fst rest) \<and> set (map fst rest) \<inter> set (seen @ [path]) = {} \<and> merges_to (?q m # map snd rest) r"
      if "keys_sorted m" for m using 2(1) [OF False] that by simp
    have "merge_project_files seen a ((path, parts) # rest) = Ok r \<longleftrightarrow>
        (\<exists>m. keys_sorted m \<and> set m = ?D \<and> merge_project_files (seen @ [path]) (?q m) rest = Ok r)"
      using False 2(2) by (auto simp: result_simps merge_file_directives_Ok_iff)
    also have "\<dots> \<longleftrightarrow> distinct (map fst rest) \<and> set (map fst rest) \<inter> set (seen @ [path]) = {}
        \<and> (\<exists>m. keys_sorted m \<and> set m = ?D \<and> merges_to (?q m # map snd rest) r)"
      using IH by auto
    also have "(\<exists>m. keys_sorted m \<and> set m = ?D \<and> merges_to (?q m # map snd rest) r)
        \<longleftrightarrow> merges_to (a # parts # map snd rest) r"
    proof
      assume "\<exists>m. keys_sorted m \<and> set m = ?D \<and> merges_to (?q m # map snd rest) r"
      then obtain m where m: "keys_sorted m" "set m = ?D" "merges_to (?q m # map snd rest) r" by blast
      with merges_to_Cons2 [of "?q m" a parts m] show "merges_to (a # parts # map snd rest) r" by simp
    next
      assume r: "merges_to (a # parts # map snd rest) r"
      then obtain m where m: "keys_sorted m" "set m = ?D" by (rule merges_to_consistent)
      with r merges_to_Cons2 [of "?q m" a parts m]
      show "\<exists>m. keys_sorted m \<and> set m = ?D \<and> merges_to (?q m # map snd rest) r" by auto
    qed
    finally show ?thesis using False by auto
  qed auto
qed

text \<open>The parts of one accepted file.\<close>

definition parsed_parts :: "string \<Rightarrow> project_parts" where
  "parsed_parts source = (case parse_project_source source of Ok parts \<Rightarrow> parts | Err _ \<Rightarrow> project_parts_default)"

text \<open>The specification of \<^const>\<open>project_from_files_under_roots\<close>: which files are accepted, and the
  layer they make.\<close>

definition files_acceptable :: "string list \<Rightarrow> (string \<times> string) list \<Rightarrow> bool" where
  "files_acceptable roots files \<longleftrightarrow>
     length files \<le> MAX_PROJECT_FILES \<and> distinct (map fst files)
     \<and> (\<forall>(path, bytes) \<in> set files. admit_project_path roots path = Ok () \<and> is_ok (parse_project_source bytes))"

definition files_layer :: "(string \<times> string) list \<Rightarrow> layer_input \<Rightarrow> bool" where
  "files_layer files l \<longleftrightarrow>
     (\<exists>r. merges_to (map (parsed_parts \<circ> snd) (sort_key fst files)) r
        \<and> l = parts_layer PL_Project (pp_budget r) r) \<and> validate_layer l = Ok ()"

lemma parse_project_files_Ok_iff:
  "parse_project_files roots files = Ok parsed \<longleftrightarrow>
     (\<forall>(path, bytes) \<in> set files. admit_project_path roots path = Ok () \<and> is_ok (parse_project_source bytes))
     \<and> parsed = map (map_prod id parsed_parts) files"
proof (induction files arbitrary: parsed)
  case (Cons f files)
  obtain path bytes where f: "f = (path, bytes)" by fastforce
  show ?case
  proof (cases "parse_project_source bytes")
    case (Ok parts)
    then have "parsed_parts bytes = parts" by (simp add: parsed_parts_def)
    with Ok Cons show ?thesis by (auto simp: f result_simps)
  qed (auto simp: f result_simps)
qed auto

lemma sort_key_map_prod: "sort_key fst (map (map_prod id g) xs) = map (map_prod id g) (sort_key fst xs)"
proof (induction xs)
  case (Cons x xs)
  have "insort_key fst (map_prod id g x) (map (map_prod id g) ys) = map (map_prod id g) (insort_key fst x ys)" for ys
    by (induction ys) auto
  with Cons show ?case by (simp add: id_def)
qed simp

lemma merges_to_default: "merges_to (project_parts_default # ps) r \<longleftrightarrow> merges_to ps r"
  by (simp add: merges_to_def project_parts_default_def budget_min_def)

lemma project_files_Ok_iff:
  "project_from_files_under_roots roots files = Ok l \<longleftrightarrow> files_acceptable roots files \<and> files_layer files l"
proof -
  let ?ps = "sort_key fst (map (map_prod id parsed_parts) files)"
  have keys: "map fst ?ps = map fst (sort_key fst files)" "map snd ?ps = map (parsed_parts \<circ> snd) (sort_key fst files)"
    by (simp_all add: sort_key_map_prod)
  have dist: "distinct (map fst (sort_key fst files)) \<longleftrightarrow> distinct (map fst files)"
    by (simp add: distinct_map)
  have "merge_project_files [] project_parts_default ?ps = Ok r \<longleftrightarrow>
      distinct (map fst files) \<and> merges_to (map (parsed_parts \<circ> snd) (sort_key fst files)) r" for r
    by (subst merge_project_files_Ok_iff) (simp_all add: keys dist merges_to_default, simp add: project_parts_default_def)
  then show ?thesis
    by (auto simp: project_from_files_under_roots_def result_simps parse_project_files_Ok_iff
        files_acceptable_def files_layer_def project_parts_to_layer_def Let_def)
qed

lemma sort_files_mset:
  assumes "mset files = mset files'" "distinct (map fst files)"
  shows "sort_key fst files = sort_key fst files'"
proof (rule strict_key_sorted_unique)
  have "mset (map fst files) = mset (map fst files')" by (simp only: mset_map assms(1))
  from mset_eq_imp_distinct_iff [OF this] assms(2) have "distinct (map fst files')" by simp
  then show "sorted_wrt (\<lambda>a b. fst a < fst b) (sort_key fst files')" by (rule strict_sort_key)
  show "sorted_wrt (\<lambda>a b. fst a < fst b) (sort_key fst files)" by (rule strict_sort_key) (rule assms(2))
  show "set (sort_key fst files) = set (sort_key fst files')" using mset_eq_setD [OF assms(1)] by simp
qed

section \<open>Loaded layers are well formed\<close>

definition strictly_listed :: "string list option \<Rightarrow> bool" where
  "strictly_listed xs \<longleftrightarrow> (\<forall>ys. xs = Some ys \<longrightarrow> ys \<noteq> [] \<and> sorted_wrt (<) ys)"

definition layer_typed :: "prompt_layer \<Rightarrow> layer_input \<Rightarrow> bool" where
  "layer_typed layer l \<longleftrightarrow>
     li_layer l = layer \<and> validate_layer l = Ok ()
     \<and> strictly_listed (li_allowed_tools l) \<and> sorted_wrt (<) (li_denied_tools l)
     \<and> strictly_listed (li_allowed_scopes l) \<and> sorted_wrt (<) (map dv_key (li_directives l))"

lemma dedup_strict: "sorted_wrt (<) (remdups_adj (sort xs))"
  by (simp add: strict_sorted_iff distinct_remdups_adj_sorted)

lemma parts_layer_typed:
  "keys_sorted (pp_directives r) \<Longrightarrow> validate_layer (parts_layer layer b r) = Ok () \<Longrightarrow>
     layer_typed layer (parts_layer layer b r)"
  by (simp add: layer_typed_def parts_layer_def strictly_listed_def none_if_empty_def dedup_strict
      keys_sorted_def comp_def case_prod_unfold)

lemma header_directive_sorted:
  "header_directive mal n name v m = Ok m' \<Longrightarrow> keys_sorted m \<Longrightarrow> keys_sorted m'"
  by (auto simp: header_directive_def result_simps add_directive_Ok_iff split: if_splits)

lemma project_header_sorted:
  assumes "project_header n key v parts = Ok parts'" "keys_sorted (pp_directives parts)"
  shows "keys_sorted (pp_directives parts')"
  using assms
  by (auto simp: project_header_def result_simps dest: header_directive_sorted split: if_splits option.splits)

lemma parse_project_lines_sorted:
  "parse_project_lines n ls parts = Ok parts' \<Longrightarrow> keys_sorted (pp_directives parts) \<Longrightarrow> keys_sorted (pp_directives parts')"
proof (induction ls arbitrary: n parts)
  case (Cons l ls)
  show ?case
  proof (cases "split_header_line (str_trim l)")
    case (Some kv)
    obtain k v where "kv = (k, v)" by fastforce
    with Some Cons.prems Cons.IH [OF _ project_header_sorted] show ?thesis
      by (simp add: Let_def result_simps split: if_splits) (auto dest: Cons.IH)
  qed (use Cons in \<open>simp add: Let_def split: if_splits; auto dest: Cons.IH\<close>)
qed simp

lemma parse_project_source_sorted:
  "parse_project_source source = Ok parts \<Longrightarrow> keys_sorted (pp_directives parts)"
  by (auto simp: parse_project_source_def project_parts_default_def split: if_splits
      elim!: parse_project_lines_sorted)

lemma merge_skills_sorted:
  "merge_skills a es = Ok r \<Longrightarrow> keys_sorted (pp_directives a) \<Longrightarrow> keys_sorted (pp_directives r)"
  by (induction a es rule: merge_skills.induct) (auto simp: result_simps merge_file_directives_Ok_iff)

lemma project_from_str_typed: "project_from_str source = Ok l \<Longrightarrow> layer_typed PL_Project l"
  by (auto simp: project_from_str_def project_parts_to_layer_def result_simps Let_def
      intro: parts_layer_typed dest: parse_project_source_sorted)

lemma skills_from_str_typed: "skills_from_str source = Ok l \<Longrightarrow> layer_typed PL_SkillsProfile l"
  by (auto simp: skills_from_str_def result_simps Let_def project_parts_default_def
      intro!: parts_layer_typed elim!: merge_skills_sorted split: if_splits option.splits)

lemma files_layer_typed: "files_layer files l \<Longrightarrow> layer_typed PL_Project l"
  by (auto simp: files_layer_def merges_to_def intro: parts_layer_typed)

text \<open>
  C32. Every loader returns only well-formed layers: of the right kind, valid, with strictly sorted lists
  that are never empty where absence means unconstrained, and one value per directive key. A project
  layer and a skills layer that were loaded therefore always make a valid snapshot together.
\<close>

theorem loaded_layers_typed:
  "(project_from_str source = Ok l \<longrightarrow> layer_typed PL_Project l)
   \<and> (project_from_files_under_roots roots files = Ok p \<longrightarrow> layer_typed PL_Project p)
   \<and> (skills_from_str registry = Ok s \<longrightarrow> layer_typed PL_SkillsProfile s)
   \<and> (project_from_files_under_roots roots files = Ok p \<longrightarrow> skills_from_str registry = Ok s \<longrightarrow>
        validate_core_version v = Ok () \<longrightarrow> is_ok (snapshot_new v [p, s]))"
proof -
  have "is_ok (snapshot_new v [p, s])"
    if "layer_typed PL_Project p" "layer_typed PL_SkillsProfile s" "validate_core_version v = Ok ()"
    using that by (simp add: layer_typed_def snapshot_new_def validate_snapshot_def stable_order_def Let_def result_simps)
  then show ?thesis
    using project_from_str_typed files_layer_typed skills_from_str_typed by (auto simp: project_files_Ok_iff)
qed

definition sample_project :: string where
  "sample_project = ''deny_tool = panel_close'' @ [CHR 0x0A] @ ''text:'' @ [CHR 0x0A] @ ''Be brief.''"

definition sample_skills :: string where
  "sample_skills = ''version = 1'' @ [CHR 0x0A] @ ''---'' @ [CHR 0x0A] @ ''name = a'' @ [CHR 0x0A]
     @ ''version = 1'' @ [CHR 0x0A] @ ''text:'' @ [CHR 0x0A] @ ''Plan.''"

lemma sample_project_lines: "str_lines sample_project = [''deny_tool = panel_close'', ''text:'', ''Be brief.'']"
  unfolding sample_project_def by code_simp

lemma sample_trims:
  "str_trim ''deny_tool = panel_close'' = ''deny_tool = panel_close''" "str_trim ''text:'' = ''text:''"
  "str_trim ''name = a'' = ''name = a''" "str_trim ''version = 1'' = ''version = 1''" "str_trim ''---'' = ''---''"
  "str_trim ''Plan.'' = ''Plan.''"
  by (subst str_trim_ascii, code_simp, code_simp)+

lemma sample_headers:
  "split_header_line ''deny_tool = panel_close'' = Some (''deny_tool'', ''panel_close'')"
  "split_header_line ''name = a'' = Some (''name'', ''a'')"
  "split_header_line ''version = 1'' = Some (''version'', ''1'')"
  by (simp add: split_header_line_def, intro conjI; subst str_trim_ascii, code_simp, code_simp)+

lemma sample_tool: "validate_prompt_tool_name ''panel_close'' = Ok ()" "validate_skill_name ''a'' = Ok ()"
  by code_simp+

lemma sample_project_parts:
  "parse_project_source sample_project =
     Ok (project_parts_default\<lparr>pp_denied := [''panel_close''], pp_text_lines := [''Be brief.'']\<rparr>)"
proof -
  have "length sample_project \<le> MAX_PROJECT_FILE_BYTES" "CHR 0x0D \<notin> set sample_project" "CHR 0x00 \<notin> set sample_project"
    by (simp_all add: sample_project_def MAX_PROJECT_FILE_BYTES_def)
  then show ?thesis
    by (simp add: parse_project_source_def sample_project_lines sample_trims sample_headers is_skipped_line_def
        project_header_def listed_value_def sample_tool project_parts_default_def)
qed

definition sample_project_layer :: layer_input where
  "sample_project_layer = (text_only PL_Project ''Be brief.'')\<lparr>li_denied_tools := [''panel_close'']\<rparr>"

definition sample_skills_layer :: layer_input where
  "sample_skills_layer = text_only PL_SkillsProfile ''Plan.''"

lemma sample_text_ok:
  "validate_layer_text layer ''Be brief.'' = Ok ()" "validate_layer_text layer ''Plan.'' = Ok ()"
  by (simp_all add: validate_layer_text_def MAX_LAYER_TEXT_BYTES_def)

lemma sample_trust_ok:
  "validate_pinned_layer_trust PL_Project ''Be brief.'' = Ok ()"
  "validate_pinned_layer_trust PL_SkillsProfile ''Plan.'' = Ok ()"
  by code_simp+

lemma sample_layers_valid: "validate_layer sample_project_layer = Ok ()" "validate_layer sample_skills_layer = Ok ()"
  by (simp_all add: validate_layer_def sample_project_layer_def sample_skills_layer_def text_only_def
      sample_text_ok sample_trust_ok check_bounded_def MAX_TOOL_ENTRIES_PER_LAYER_def
      MAX_DIRECTIVES_PER_LAYER_def sample_tool)

lemma sample_parts_layer:
  "project_parts_to_layer (project_parts_default\<lparr>pp_denied := [''panel_close''], pp_text_lines := [''Be brief.'']\<rparr>)
     = Ok sample_project_layer"
proof -
  have "parts_layer PL_Project None (project_parts_default\<lparr>pp_denied := [''panel_close''], pp_text_lines := [''Be brief.'']\<rparr>)
      = sample_project_layer"
    by (simp add: parts_layer_def sample_project_layer_def text_only_def project_parts_default_def none_if_empty_def)
  then show ?thesis
    using sample_layers_valid by (simp add: project_parts_to_layer_def Let_def project_parts_default_def)
qed

lemma sample_files: "project_from_files_under_roots [''.wheel''] [(''.wheel/a'', sample_project)] = Ok sample_project_layer"
proof -
  have "admit_project_path [''.wheel''] ''.wheel/a'' = Ok ()" by code_simp
  then show ?thesis
    using sample_parts_layer
    by (simp add: project_from_files_under_roots_def MAX_PROJECT_FILES_def sample_project_parts project_parts_default_def)
qed

lemma sample_skills: "skills_from_str sample_skills = Ok sample_skills_layer"
proof -
  have "str_lines sample_skills = [''version = 1'', ''---'', ''name = a'', ''version = 1'', ''text:'', ''Plan.'']"
    unfolding sample_skills_def by code_simp
  moreover have "length sample_skills \<le> MAX_SKILL_REGISTRY_BYTES" "CHR 0x0D \<notin> set sample_skills"
      "CHR 0x00 \<notin> set sample_skills"
    by (simp_all add: sample_skills_def MAX_SKILL_REGISTRY_BYTES_def)
  moreover have "parts_layer PL_SkillsProfile None (project_parts_default\<lparr>pp_text_lines := [''Plan.'']\<rparr>) = sample_skills_layer"
    by (simp add: parts_layer_def sample_skills_layer_def text_only_def project_parts_default_def none_if_empty_def)
  ultimately show ?thesis
    using sample_layers_valid
    by (simp add: skills_from_str_def sample_trims sample_headers is_skipped_line_def MAX_SKILL_VERSION_LEN_def
        is_supported_skill_version_def SUPPORTED_SKILL_VERSIONS_def drop_empty_last_def parse_skill_chunk_def
        chunk_is_blank_def skill_header_def MAX_SKILL_NAME_LEN_def sample_tool chunk_start_def Let_def
        MAX_SKILL_ENTRY_BYTES_def MAX_SKILL_ENTRIES_def project_parts_default_def)
qed

theorem loaded_layers_typed_witness:
  "project_from_files_under_roots [''.wheel''] [(''.wheel/a'', sample_project)] = Ok sample_project_layer
   \<and> skills_from_str sample_skills = Ok sample_skills_layer
   \<and> layer_typed PL_Project sample_project_layer \<and> layer_typed PL_SkillsProfile sample_skills_layer
   \<and> is_ok (snapshot_new ''v1'' [sample_project_layer, sample_skills_layer])"
proof -
  have "validate_core_version ''v1'' = Ok ()" by code_simp
  with sample_files sample_skills
    loaded_layers_typed [where roots = "[''.wheel'']" and files = "[(''.wheel/a'', sample_project)]"
      and p = sample_project_layer and registry = sample_skills and s = sample_skills_layer and v = "''v1''"]
  show ?thesis by simp
qed

text \<open>
  The order in which the host passes the files does not matter: any permutation is accepted or refused
  alike, and gives the same layer.
\<close>

theorem project_files_order_irrelevant:
  assumes "mset files = mset files'"
  shows "project_from_files_under_roots roots files = Ok l \<longleftrightarrow> project_from_files_under_roots roots files' = Ok l"
proof -
  have "mset (map fst files) = mset (map fst files')" by (simp only: mset_map assms)
  from mset_eq_imp_distinct_iff [OF this] have d: "distinct (map fst files) \<longleftrightarrow> distinct (map fst files')" .
  have "files_acceptable roots files \<longleftrightarrow> files_acceptable roots files'"
    using mset_eq_setD [OF assms] mset_eq_length [OF assms] d by (simp add: files_acceptable_def)
  moreover have "files_acceptable roots files \<Longrightarrow> sort_key fst files = sort_key fst files'"
    using sort_files_mset [OF assms] by (simp add: files_acceptable_def)
  ultimately show ?thesis by (auto simp: project_files_Ok_iff files_layer_def)
qed

theorem project_files_order_irrelevant_witness:
  "mset [(''.wheel/b'', []), (''.wheel/a'', sample_project)] = mset [(''.wheel/a'', sample_project), (''.wheel/b'', [])]
   \<and> project_from_files_under_roots [''.wheel''] [(''.wheel/b'', []), (''.wheel/a'', sample_project)] = Ok sample_project_layer"
proof -
  have "admit_project_path [''.wheel''] ''.wheel/a'' = Ok ()" "admit_project_path [''.wheel''] ''.wheel/b'' = Ok ()"
    by code_simp+
  moreover have "parse_project_source [] = Ok project_parts_default"
    by (simp add: parse_project_source_def str_lines_def)
  ultimately have "project_from_files_under_roots [''.wheel''] [(''.wheel/a'', sample_project), (''.wheel/b'', [])]
      = Ok sample_project_layer"
    using sample_parts_layer
    by (simp add: project_from_files_under_roots_def MAX_PROJECT_FILES_def sample_project_parts project_parts_default_def)
  with project_files_order_irrelevant [where files = "[(''.wheel/b'', []), (''.wheel/a'', sample_project)]"
    and files' = "[(''.wheel/a'', sample_project), (''.wheel/b'', [])]"]
  show ?thesis by simp
qed

text \<open>
  C31. The loader of a set of project files accepts exactly the acceptable sets, bounded, with distinct
  admitted paths and well-formed bodies whose merge is a valid layer, and what it returns is that merge: texts,
  tools and scopes in path order, the least budget, and the union of the directives, which must not disagree.
\<close>

theorem project_files_exact:
  "project_from_files_under_roots roots files = Ok l \<longleftrightarrow> files_acceptable roots files \<and> files_layer files l"
  by (rule project_files_Ok_iff)

end
