(* ===== verification/Cache_Key.thy ===== *)
theory Cache_Key
  imports Prompt_Canonical Selection Rust_Parse
begin

unbundle bit_operations_syntax

text \<open>
  Cache keys over the stable part of the canonical prompt bytes
  (\<open>bitty-ai-runtime/src/cache_key.rs\<close>) and fingerprints of tool inputs
  (\<open>bitty-ai-runtime/src/fingerprint.rs\<close>): the parser that finds the boundary before the runtime
  section, and the 64-bit FNV-1a hash with its wrapping multiplication.
\<close>

section \<open>The hash\<close>

text \<open>One round of the hash of \<^const>\<open>fnv1a64\<close>.\<close>

definition fnv_step :: "u64 \<Rightarrow> char \<Rightarrow> u64" where
  "fnv_step hash byte = (hash XOR of_char byte) * FNV_PRIME"

lemma fnv1a64_foldl: "fnv1a64 bs = foldl fnv_step FNV_OFFSET_BASIS bs"
proof -
  have "fnv_step = (\<lambda>h b. (h XOR of_char b) * FNV_PRIME)" by (simp add: fun_eq_iff fnv_step_def)
  then show ?thesis by (simp add: fnv1a64_def)
qed

section \<open>The stable prefix\<close>

definition STABLE_LAYERS :: "string list" where
  "STABLE_LAYERS = [''core-contract'', ''user'', ''project'', ''skills-profile'']"

definition RUNTIME_LAYER :: string where
  "RUNTIME_LAYER = ''runtime-turn''"

definition CANONICAL_MAGIC :: bytes where
  "CANONICAL_MAGIC = ''prompt/1'' @ [CHR 0x0A]"

definition CORE_VERSION_PREFIX :: bytes where
  "CORE_VERSION_PREFIX = ''core-version:''"

definition SECTION_OPEN :: bytes where
  "SECTION_OPEN = ''[layer:''"

definition SECTION_LEN_SEP :: bytes where
  "SECTION_LEN_SEP = '' len=''"

definition SECTION_CLOSE :: bytes where
  "SECTION_CLOSE = '']'' @ [CHR 0x0A]"

definition EFFECTIVE_OPEN :: bytes where
  "EFFECTIVE_OPEN = ''[effective]'' @ [CHR 0x0A]"

text \<open>The digits are the longest run of ASCII digits; a slice that consists of digits only has no end of
  digits and is refused.\<close>

definition section_header_len :: "bytes \<Rightarrow> string \<Rightarrow> (nat \<times> bytes) option" where
  "section_header_len bs layer =
     Option.bind (strip_prefix SECTION_OPEN bs) (\<lambda>rest.
     Option.bind (strip_prefix layer rest) (\<lambda>rest.
     Option.bind (strip_prefix SECTION_LEN_SEP rest) (\<lambda>rest.
     let digits = takeWhile is_ascii_digit rest; after = dropWhile is_ascii_digit rest in
     if after = [] \<or> digits = [] then None
     else Option.bind (parse_uint usize_max digits) (\<lambda>text_len.
          Option.bind (strip_prefix SECTION_CLOSE after) (\<lambda>rest. Some (text_len, rest))))))"

definition strip_section :: "bytes \<Rightarrow> string \<Rightarrow> bytes option" where
  "strip_section bs layer =
     Option.bind (section_header_len bs layer) (\<lambda>(text_len, rest).
     if text_len > length rest then None else strip_prefix [CHR 0x0A] (drop text_len rest))"

fun strip_sections :: "string list \<Rightarrow> bytes \<Rightarrow> bytes option" where
  "strip_sections [] cursor = Some cursor"
| "strip_sections (layer # layers) cursor = Option.bind (strip_section cursor layer) (strip_sections layers)"

definition stable_prefix_len :: "bytes \<Rightarrow> nat option" where
  "stable_prefix_len canonical =
     Option.bind (strip_prefix CANONICAL_MAGIC canonical) (\<lambda>cursor.
     Option.bind (strip_prefix CORE_VERSION_PREFIX cursor) (\<lambda>cursor.
     Option.bind (split_once (CHR 0x0A) cursor) (\<lambda>(_, cursor).
     Option.bind (strip_sections STABLE_LAYERS cursor) (\<lambda>cursor.
     let boundary = length canonical - length cursor in
     Option.bind (strip_section cursor RUNTIME_LAYER) (\<lambda>cursor.
     if \<not> prefix EFFECTIVE_OPEN cursor then None else Some boundary)))))"

section \<open>Cache keys\<close>

datatype cache_scope = CS_Session | CS_Turn | CS_Round

datatype cache_key_error =
  CKE_InvalidProviderId string
| CKE_InvalidModelId string
| CKE_EmptyCanonical
| CKE_MissingStableMarker
| CKE_CanonicalTooLarge nat nat

record cache_key =
  ck_provider_id :: string
  ck_model_id :: string
  ck_scope :: cache_scope
  ck_stable_prefix_hash :: u64
  ck_prefix_len :: nat

definition cache_key_new ::
  "string \<Rightarrow> string \<Rightarrow> cache_scope \<Rightarrow> bytes \<Rightarrow> (cache_key, cache_key_error) result" where
  "cache_key_new provider_id model_id scope canonical =
     and_then (map_err (\<lambda>_. CKE_InvalidProviderId provider_id) (validate_provider_id provider_id)) (\<lambda>_.
     and_then (map_err (\<lambda>_. CKE_InvalidModelId model_id) (validate_model_name model_id)) (\<lambda>_.
     if canonical = [] then Err CKE_EmptyCanonical
     else if length canonical > MAX_CANONICAL_BYTES
     then Err (CKE_CanonicalTooLarge MAX_CANONICAL_BYTES (length canonical))
     else case stable_prefix_len canonical of
       None \<Rightarrow> Err CKE_MissingStableMarker
     | Some prefix_len \<Rightarrow>
         Ok \<lparr> ck_provider_id = provider_id, ck_model_id = model_id, ck_scope = scope,
              ck_stable_prefix_hash = fnv1a64 (take prefix_len canonical), ck_prefix_len = prefix_len \<rparr>))"

section \<open>Input fingerprints\<close>

datatype fingerprint_error = FPE_MissingInput | FPE_UnknownComponent nat

record input_fingerprint =
  fp_digest :: u64
  fp_input_len :: nat

definition fingerprint_new :: "bytes \<Rightarrow> (input_fingerprint, fingerprint_error) result" where
  "fingerprint_new bs =
     (if bs = [] then Err FPE_MissingInput
      else Ok \<lparr> fp_digest = fnv1a64 bs, fp_input_len = length bs \<rparr>)"

fun component_total :: "nat \<Rightarrow> nat \<Rightarrow> bytes option list \<Rightarrow> (nat, fingerprint_error) result" where
  "component_total index sum_len [] = Ok sum_len"
| "component_total index sum_len (None # cs) = Err (FPE_UnknownComponent index)"
| "component_total index sum_len (Some bs # cs) =
     component_total (index + 1) (saturating_add_usize sum_len (length bs)) cs"

fun component_hash :: "u64 \<Rightarrow> bytes option list \<Rightarrow> u64" where
  "component_hash hash [] = hash"
| "component_hash hash (None # cs) = component_hash hash cs"
| "component_hash hash (Some bs # cs) =
     component_hash (foldl fnv_step (foldl fnv_step hash (le_bytes 8 (length bs))) bs) cs"

definition of_components :: "bytes option list \<Rightarrow> (input_fingerprint, fingerprint_error) result" where
  "of_components components =
     and_then (component_total 0 0 components) (\<lambda>total.
     if total = 0 then Err FPE_MissingInput
     else Ok \<lparr> fp_digest = component_hash FNV_OFFSET_BASIS components, fp_input_len = total \<rparr>)"

definition allows_reuse :: "input_fingerprint \<Rightarrow> input_fingerprint \<Rightarrow> bool" where
  "allows_reuse fp candidate \<longleftrightarrow> fp = candidate"

section \<open>The boundary is where the runtime section starts\<close>

lemma strip_prefix_append [simp]: "strip_prefix p (p @ r) = Some r"
  by (simp add: strip_prefix_Some_iff)

lemma split_once_line: "c \<notin> set v \<Longrightarrow> split_once c (v @ c # r) = Some (v, r)"
  by (simp add: split_once_Some_iff)

lemma takeWhile_show_nat:
  "\<not> is_ascii_digit c \<Longrightarrow> takeWhile is_ascii_digit (show_nat n @ c # r) = show_nat n"
  "\<not> is_ascii_digit c \<Longrightarrow> dropWhile is_ascii_digit (show_nat n @ c # r) = c # r"
  using show_nat_digits [of n] by (simp_all add: list_all_iff takeWhile_append dropWhile_append)

lemma section_header_rendered:
  assumes "length t \<le> usize_max"
  shows "section_header_len (render_section \<lparr> se_layer = l, se_text = t \<rparr> @ r) (layer_name l)
     = Some (length t, t @ LF @ r)"
proof -
  have c: "\<not> is_ascii_digit (CHR '']'')" by code_simp
  have "render_section \<lparr> se_layer = l, se_text = t \<rparr> @ r
      = SECTION_OPEN @ layer_name l @ SECTION_LEN_SEP @ show_nat (length t) @ CHR '']'' # LF @ t @ LF @ r"
    by (simp add: render_section_def SECTION_OPEN_def SECTION_LEN_SEP_def)
  moreover have "strip_prefix SECTION_CLOSE (CHR '']'' # LF @ t @ LF @ r) = Some (t @ LF @ r)"
    by (simp add: SECTION_CLOSE_def LF_def)
  moreover have "show_nat (length t) \<noteq> []" by simp
  ultimately show ?thesis
    using assms unfolding section_header_len_def
    by (simp only: strip_prefix_append bind.bind_lunit takeWhile_show_nat [OF c] Let_def list.distinct
        parse_uint_show if_False simp_thms)
qed

lemma strip_section_rendered:
  assumes "length t \<le> usize_max"
  shows "strip_section (render_section \<lparr> se_layer = l, se_text = t \<rparr> @ r) (layer_name l) = Some r"
  using section_header_rendered [OF assms] by (simp add: strip_section_def LF_def)

lemma section_of_eq: "section_of ls layer = \<lparr> se_layer = layer, se_text = se_text (section_of ls layer) \<rparr>"
  by (simp add: section_of_def)

lemma strip_section_of:
  assumes "length (se_text (section_of ls layer)) \<le> usize_max"
  shows "strip_section (render_section (section_of ls layer) @ r) (layer_name layer) = Some r"
  using strip_section_rendered [OF assms, of layer r] section_of_eq [of ls layer] by simp

lemma length_section: "length (se_text s) \<le> length (render_section s)"
  by (simp add: render_section_def)

lemma strip_sections_rendered:
  assumes "\<forall>layer \<in> set layers. length (se_text (section_of ls layer)) \<le> usize_max"
  shows "strip_sections (map layer_name layers) (concat (map (\<lambda>layer. render_section (section_of ls layer)) layers) @ r) = Some r"
  using assms by (induction layers) (simp_all add: strip_section_of)

lemma stable_prefix_len_canonical:
  assumes c: "c = stable_head v ls @ render_section \<lparr> se_layer = PL_RuntimeTurn, se_text = t \<rparr> @ ''[effective]'' @ LF @ r"
    and "length c \<le> usize_max" and v: "CHR 0x0A \<notin> set v"
  shows "stable_prefix_len c = Some (length (stable_head v ls))"
proof -
  let ?L = "[PL_CoreContract, PL_User, PL_Project, PL_SkillsProfile]"
  let ?secs = "concat (map (\<lambda>layer. render_section (section_of ls layer)) ?L)"
  let ?rt = "render_section \<lparr> se_layer = PL_RuntimeTurn, se_text = t \<rparr>"
  let ?tail = "?rt @ ''[effective]'' @ LF @ r"
  have len: "length (stable_head v ls) + length ?tail = length c" by (simp add: c)
  then have "length ?secs \<le> usize_max" "length ?rt \<le> usize_max"
    using assms(2) by (simp_all add: stable_head_def)
  then have secs: "\<forall>layer \<in> set ?L. length (se_text (section_of ls layer)) \<le> usize_max" and rt: "length t \<le> usize_max"
    using length_section [of "section_of ls layer" for layer] length_section [of "\<lparr> se_layer = PL_RuntimeTurn, se_text = t \<rparr>"]
    by (auto intro: order_trans dest: add_leD1 add_leD2)
  have names: "STABLE_LAYERS = map layer_name ?L" "RUNTIME_LAYER = layer_name PL_RuntimeTurn"
    by (simp_all add: STABLE_LAYERS_def RUNTIME_LAYER_def)
  have shape: "c = CANONICAL_MAGIC @ CORE_VERSION_PREFIX @ v @ CHR 0x0A # ?secs @ ?tail"
    by (simp add: c stable_head_def CANONICAL_MAGIC_def CORE_VERSION_PREFIX_def LF_def)
  have eff: "prefix EFFECTIVE_OPEN (''[effective]'' @ LF @ r)" by (simp add: EFFECTIVE_OPEN_def LF_def)
  have "stable_prefix_len c = Some (length c - length ?tail)"
    unfolding stable_prefix_len_def
    by (subst shape, simp only: strip_prefix_append bind.bind_lunit split_once_line [OF v] prod.case names
        strip_sections_rendered [OF secs] strip_section_rendered [OF rt] Let_def eff not_True_eq_False if_False)
  with len show ?thesis by simp
qed

lemma assembled_version_line:
  assumes "assemble_prompt s = Ok p"
  shows "CHR 0x0A \<notin> set (ps_core_version s)"
  using assembled_printable [OF assms] assms
  by (auto simp: printable_prompt_def one_line_def elim!: assemble_prompt_OkE)

lemma assembled_canonical_bound:
  assumes "assemble_prompt s = Ok p"
  shows "length (ap_canonical_bytes p) \<le> MAX_CANONICAL_BYTES"
  using assms by (rule assemble_prompt_OkE)

lemma cache_key_canonical:
  assumes "assemble_prompt \<lparr> ps_core_version = v, ps_layers = ls @ [a] \<rparr> = Ok p" "li_layer a = PL_RuntimeTurn"
    and "valid_provider_id pid" "valid_model_name mid"
  shows "cache_key_new pid mid scope (ap_canonical_bytes p) =
     Ok \<lparr> ck_provider_id = pid, ck_model_id = mid, ck_scope = scope,
          ck_stable_prefix_hash = fnv1a64 (stable_head v ls), ck_prefix_len = length (stable_head v ls) \<rparr>
   \<and> prefix (stable_head v ls) (ap_canonical_bytes p)"
proof -
  let ?c = "ap_canonical_bytes p"
  obtain t where c: "?c = stable_head v ls @ render_section \<lparr> se_layer = PL_RuntimeTurn, se_text = t \<rparr> @ ''[effective]'' @ LF @ render_policy p"
    using canonical_bytes_head [OF assms(1,2)] by blast
  have bound: "length ?c \<le> MAX_CANONICAL_BYTES" using assms(1) by (rule assembled_canonical_bound)
  then have "length ?c \<le> usize_max" by (simp add: MAX_CANONICAL_BYTES_def usize_max_def)
  moreover have "CHR 0x0A \<notin> set v" using assembled_version_line [OF assms(1)] by simp
  ultimately have len: "stable_prefix_len ?c = Some (length (stable_head v ls))"
    using stable_prefix_len_canonical [OF c] by simp
  have "?c \<noteq> []" by (simp add: c stable_head_def)
  with len bound assms(3,4) show ?thesis
    by (simp add: cache_key_new_def validate_provider_id_def validate_model_name_def) (simp add: c)
qed

section \<open>What the hash tells apart\<close>

definition FNV_INVERSE :: u64 where
  "FNV_INVERSE = 0xce965057aff6957b"

lemma fnv_prime_unit: "FNV_PRIME * FNV_INVERSE = 1"
  by (simp add: FNV_PRIME_def FNV_INVERSE_def)

lemma fnv_prime_cancel: "x * FNV_PRIME = y * FNV_PRIME \<longleftrightarrow> x = y"
proof
  assume "x * FNV_PRIME = y * FNV_PRIME"
  then have "x * FNV_PRIME * FNV_INVERSE = y * FNV_PRIME * FNV_INVERSE" by (rule arg_cong)
  then show "x = y" by (simp only: mult.assoc fnv_prime_unit mult.right_neutral)
qed simp

lemma fnv_step_inject: "fnv_step h a = fnv_step h' b \<longleftrightarrow> h XOR of_char a = h' XOR of_char b"
  unfolding fnv_step_def by (rule fnv_prime_cancel)

lemma unat_of_char: "unat (of_char c :: u64) = byte_val c"
proof -
  have "(of_char c :: u64) = of_nat (byte_val c)" by (rule of_nat_of_char [symmetric])
  moreover have "byte_val c < 2 ^ LENGTH(64)" by (rule less_trans [OF byte_val_less]) simp
  ultimately show ?thesis by (simp only: unat_of_nat mod_less)
qed

lemma byte_word_inject: "(of_char a :: u64) = of_char b \<longleftrightarrow> a = b"
proof
  assume "(of_char a :: u64) = of_char b"
  then have "byte_val a = byte_val b" by (simp only: flip: unat_of_char)
  then show "a = b" by (rule of_char_eqI)
qed simp

lemma xor_cancel: "h XOR (h XOR a) = (a :: u64)"
  unfolding xor.assoc [symmetric] by simp

lemma xor_inject: "h XOR a = h XOR b \<longleftrightarrow> a = (b :: u64)" "a XOR h = b XOR h \<longleftrightarrow> a = b"
proof -
  show "h XOR a = h XOR b \<longleftrightarrow> a = b" for h a b :: u64
    by (auto dest: arg_cong [of _ _ "(XOR) h"] simp: xor_cancel)
  from this [of h a b] show "a XOR h = b XOR h \<longleftrightarrow> a = b" by (simp only: xor.commute [of _ h])
qed

lemma fnv_step_byte: "fnv_step h a = fnv_step h b \<longleftrightarrow> a = b"
  unfolding fnv_step_inject by (simp only: xor_inject byte_word_inject)

lemma fnv_step_state: "fnv_step h a = fnv_step h' a \<longleftrightarrow> h = h'"
  unfolding fnv_step_inject by (simp only: xor_inject)

lemma foldl_fnv_inject: "foldl fnv_step h bs = foldl fnv_step h' bs \<longleftrightarrow> h = h'"
  by (induction bs arbitrary: h h') (simp_all add: fnv_step_state)

definition framed :: "bytes list \<Rightarrow> bytes" where
  "framed cs = concat (map (\<lambda>c. le_bytes 8 (length c) @ c) cs)"

lemma component_hash_framed: "component_hash h (map Some cs) = foldl fnv_step h (framed cs)"
  by (induction cs arbitrary: h) (simp_all add: framed_def)

lemma framed_inject:
  assumes "\<forall>c \<in> set cs. length c < 2 ^ 64" "\<forall>d \<in> set ds. length d < 2 ^ 64" "framed cs = framed ds"
  shows "cs = ds"
  using assms
proof (induction cs arbitrary: ds)
  case Nil
  have "le_bytes 8 n \<noteq> []" for n using length_le_bytes [of 8 n] by force
  with Nil show ?case by (cases ds) (auto simp: framed_def)
next
  case (Cons c cs)
  have "le_bytes 8 n \<noteq> []" for n using length_le_bytes [of 8 n] by force
  with Cons.prems(3) obtain d ds' where ds: "ds = d # ds'" by (cases ds) (auto simp: framed_def)
  have eq: "le_bytes 8 (length c) @ c @ framed cs = le_bytes 8 (length d) @ d @ framed ds'"
    using Cons.prems(3) by (simp add: ds framed_def)
  then have "le_bytes 8 (length c) = le_bytes 8 (length d)" and rest: "c @ framed cs = d @ framed ds'"
    by (simp_all add: append_eq_append_conv)
  then have "le_value (le_bytes 8 (length c)) = le_value (le_bytes 8 (length d))" by simp
  with Cons.prems ds have "length c = length d" by (simp add: le_value_bytes del: le_bytes.simps)
  with rest Cons.prems ds show ?case by (auto intro: Cons.IH)
qed

lemma component_total_Ok_iff:
  "component_total i n cs = Ok m \<Longrightarrow> (\<exists>bss. cs = map Some bss)"
proof (induction i n cs rule: component_total.induct)
  case (3 i n bs cs)
  then obtain bss where "cs = map Some bss" by auto
  then show ?case by (intro exI [of _ "bs # bss"]) simp
qed auto

text \<open>
  C33. The key of a prompt depends only on the provider, the model, the scope and the stable part: two
  prompts that differ only in their runtime layer get the same key, and the hashed prefix is exactly
  the header with the four sections before that layer.
\<close>

theorem cache_key_ignores_runtime_layer:
  assumes "assemble_prompt \<lparr> ps_core_version = v, ps_layers = ls @ [a] \<rparr> = Ok p"
    and "assemble_prompt \<lparr> ps_core_version = v, ps_layers = ls @ [b] \<rparr> = Ok q"
    and "li_layer a = PL_RuntimeTurn" "li_layer b = PL_RuntimeTurn"
    and "valid_provider_id pid" "valid_model_name mid"
  shows "\<exists>key. cache_key_new pid mid scope (ap_canonical_bytes p) = Ok key
     \<and> cache_key_new pid mid scope (ap_canonical_bytes q) = Ok key
     \<and> take (ck_prefix_len key) (ap_canonical_bytes p) = stable_head v ls
     \<and> ck_stable_prefix_hash key = fnv1a64 (stable_head v ls)"
  using cache_key_canonical [OF assms(1,3,5,6), of scope] cache_key_canonical [OF assms(2,4,5,6), of scope]
  by (auto simp: prefix_def)

theorem cache_key_ignores_runtime_layer_witness:
  "\<exists>p q key. assemble_prompt \<lparr> ps_core_version = ''v'', ps_layers = [core_tone] @ [runtime_layer ''a''] \<rparr> = Ok p
     \<and> assemble_prompt \<lparr> ps_core_version = ''v'', ps_layers = [core_tone] @ [runtime_layer ''b''] \<rparr> = Ok q
     \<and> cache_key_new ''local'' ''m'' CS_Turn (ap_canonical_bytes p) = Ok key
     \<and> cache_key_new ''local'' ''m'' CS_Turn (ap_canonical_bytes q) = Ok key"
proof -
  obtain p q where
    p: "assemble_prompt \<lparr> ps_core_version = ''v'', ps_layers = [core_tone] @ [runtime_layer ''a''] \<rparr> = Ok p"
    and q: "assemble_prompt \<lparr> ps_core_version = ''v'', ps_layers = [core_tone] @ [runtime_layer ''b''] \<rparr> = Ok q"
    using runtime_snapshots_assemble by (auto simp: result_simps)
  have l: "li_layer (runtime_layer t) = PL_RuntimeTurn" for t by (simp add: runtime_layer_def text_only_def)
  have "valid_provider_id ''local''" "valid_model_name ''m''" by code_simp+
  from cache_key_ignores_runtime_layer [OF p q l l this] p q show ?thesis by blast
qed

lemma of_components_OkE:
  assumes "of_components cs = Ok f"
  obtains bss where "cs = map Some bss" "fp_digest f = fnv1a64 (framed bss)"
proof -
  obtain n where "component_total 0 0 cs = Ok n" using assms by (auto simp: of_components_def result_simps)
  then obtain bss where "cs = map Some bss" using component_total_Ok_iff by blast
  moreover from this have "fp_digest f = fnv1a64 (framed bss)"
    using assms by (auto simp: of_components_def result_simps component_hash_framed fnv1a64_foldl split: if_splits)
  ultimately show thesis by (rule that)
qed

lemma component_hash_append: "component_hash h (us @ vs) = component_hash (component_hash h us) vs"
proof (induction us arbitrary: h)
  case (Cons u us)
  then show ?case by (cases u) simp_all
qed simp

lemma component_hash_inject: "component_hash h cs = component_hash h' cs \<longleftrightarrow> h = h'"
proof (induction cs arbitrary: h h')
  case (Cons c cs)
  then show ?case by (cases c) (simp_all add: foldl_fnv_inject)
qed simp

lemma digest_single_change:
  "component_hash h (pre @ Some (x @ a # y) # post) = component_hash h (pre @ Some (x @ b # y) # post) \<longleftrightarrow> a = b"
  by (simp add: component_hash_append component_hash_inject foldl_fnv_inject fnv_step_byte)

text \<open>
  A fingerprint covers the bytes and the boundaries of its components: it is the hash of a framing from
  which the components can be read back, and of two inputs that differ in a single byte at most one is
  taken for the other, because each round of the hash is a bijection of the 64-bit state.
\<close>

theorem fingerprint_tells_apart:
  assumes "of_components cs = Ok f"
  shows "(\<exists>bss. cs = map Some bss \<and> fp_digest f = fnv1a64 (framed bss)
      \<and> (\<forall>dss. (\<forall>c \<in> set bss \<union> set dss. length c < 2 ^ 64) \<longrightarrow> framed dss = framed bss \<longrightarrow> dss = bss))
    \<and> (\<forall>pre x a b y post g. a \<noteq> b \<longrightarrow> cs = pre @ Some (x @ a # y) # post \<longrightarrow>
         of_components (pre @ Some (x @ b # y) # post) = Ok g \<longrightarrow> \<not> allows_reuse f g)"
proof (intro conjI allI impI)
  from assms obtain bss where bss: "cs = map Some bss" "fp_digest f = fnv1a64 (framed bss)" by (rule of_components_OkE)
  have "dss = bss" if "\<forall>c \<in> set bss \<union> set dss. length c < 2 ^ 64" "framed dss = framed bss" for dss
    using that by (intro framed_inject) auto
  with bss show "\<exists>bss. cs = map Some bss \<and> fp_digest f = fnv1a64 (framed bss)
      \<and> (\<forall>dss. (\<forall>c \<in> set bss \<union> set dss. length c < 2 ^ 64) \<longrightarrow> framed dss = framed bss \<longrightarrow> dss = bss)"
    by blast
next
  fix pre x a b y post g
  assume "a \<noteq> b" "cs = pre @ Some (x @ a # y) # post" "of_components (pre @ Some (x @ b # y) # post) = Ok g"
  with assms digest_single_change [of FNV_OFFSET_BASIS pre x a y post b] show "\<not> allows_reuse f g"
    by (auto simp: of_components_def result_simps allows_reuse_def split: if_splits)
qed

theorem fingerprint_tells_apart_witness:
  "\<exists>f g. of_components [Some ''ab'', Some ''c''] = Ok f \<and> of_components [Some ''xb'', Some ''c''] = Ok g \<and> \<not> allows_reuse f g"
proof -
  obtain f where f: "of_components [Some ''ab'', Some ''c''] = Ok f" by (simp add: of_components_def saturating_add_usize_def usize_max_def)
  obtain g where g: "of_components [Some ''xb'', Some ''c''] = Ok g" by (simp add: of_components_def saturating_add_usize_def usize_max_def)
  have "\<not> allows_reuse f g"
    using fingerprint_tells_apart [OF f, THEN conjunct2, rule_format, of "CHR ''a''" "CHR ''x''" "[]" "[]" "''b''" "[Some ''c'']" g] g
    by simp
  with f g show ?thesis by blast
qed

end
