(* ===== verification/Fallback.thy ===== *)
theory Fallback
  imports Reasons Rust_Parse
begin

text \<open>
  Bounded envelopes for unreadable plugin output (\<open>bitty-ai-runtime/src/fallback.rs\<close>): the
  length-prefixed byte form, its parser, and the scrubbing of arbitrary bytes to printable text.
\<close>

section \<open>Envelopes\<close>

definition MAX_FALLBACK_ID_BYTES :: nat where
  "MAX_FALLBACK_ID_BYTES = 64"

definition MAX_FALLBACK_KIND_BYTES :: nat where
  "MAX_FALLBACK_KIND_BYTES = 64"

definition MAX_FALLBACK_TEXT_BYTES :: nat where
  "MAX_FALLBACK_TEXT_BYTES = 512"

definition FALLBACK_ID :: string where
  "FALLBACK_ID = ''fallback''"

definition FALLBACK_KIND :: string where
  "FALLBACK_KIND = ''syntax-fallback''"

definition ENVELOPE_MAGIC :: bytes where
  "ENVELOPE_MAGIC = ''fallback/1'' @ [CHR 0x0A]"

definition LEN_WIDTH :: nat where
  "LEN_WIDTH = 8"

datatype fallback_error =
  FBE_IdTooLarge nat nat
| FBE_KindTooLarge nat nat
| FBE_TextTooLarge nat nat
| FBE_Malformed

record fallback_envelope =
  fb_id :: string
  fb_kind :: string
  fb_text :: string

definition fallback_new :: "string \<Rightarrow> string \<Rightarrow> string \<Rightarrow> (fallback_envelope, fallback_error) result" where
  "fallback_new i k t =
     (if length i > MAX_FALLBACK_ID_BYTES then Err (FBE_IdTooLarge MAX_FALLBACK_ID_BYTES (length i))
      else if length k > MAX_FALLBACK_KIND_BYTES then Err (FBE_KindTooLarge MAX_FALLBACK_KIND_BYTES (length k))
      else if length t > MAX_FALLBACK_TEXT_BYTES then Err (FBE_TextTooLarge MAX_FALLBACK_TEXT_BYTES (length t))
      else Ok \<lparr> fb_id = i, fb_kind = k, fb_text = t \<rparr>)"

definition fallback_to_bytes :: "fallback_envelope \<Rightarrow> bytes" where
  "fallback_to_bytes e =
     ENVELOPE_MAGIC
     @ concat (map (\<lambda>field. le_bytes LEN_WIDTH (length field) @ field) [fb_id e, fb_kind e, fb_text e])"

text \<open>The first eight bytes as a length; a \<open>u64\<close> always fits \<open>usize\<close> here.\<close>

definition declared_len :: "bytes \<Rightarrow> nat option" where
  "declared_len bs = (if length bs < LEN_WIDTH then None else Some (le_value (take LEN_WIDTH bs)))"

definition advance_field :: "bytes \<Rightarrow> (bytes, fallback_error) result" where
  "advance_field bs =
     (case declared_len bs of
        None \<Rightarrow> Err FBE_Malformed
      | Some declared \<Rightarrow>
          if LEN_WIDTH + declared > usize_max then Err FBE_Malformed
          else if LEN_WIDTH + declared > length bs then Err FBE_Malformed
          else Ok (drop (LEN_WIDTH + declared) bs))"

definition take_field :: "bytes \<Rightarrow> nat \<Rightarrow> (nat \<Rightarrow> fallback_error) \<Rightarrow> (string, fallback_error) result" where
  "take_field bs cap over_cap =
     (case declared_len bs of
        None \<Rightarrow> Err FBE_Malformed
      | Some declared \<Rightarrow>
          if declared > cap then Err (over_cap declared)
          else if LEN_WIDTH + declared > usize_max then Err FBE_Malformed
          else if LEN_WIDTH + declared > length bs then Err FBE_Malformed
          else (let field = take declared (drop LEN_WIDTH bs)
                in if valid_utf8 field then Ok field else Err FBE_Malformed))"

definition fallback_from_bytes :: "bytes \<Rightarrow> (fallback_envelope, fallback_error) result" where
  "fallback_from_bytes bs =
     (case strip_prefix ENVELOPE_MAGIC bs of
        None \<Rightarrow> Err FBE_Malformed
      | Some cursor \<Rightarrow>
          and_then (take_field cursor MAX_FALLBACK_ID_BYTES (FBE_IdTooLarge MAX_FALLBACK_ID_BYTES)) (\<lambda>i.
          and_then (advance_field cursor) (\<lambda>cursor.
          and_then (take_field cursor MAX_FALLBACK_KIND_BYTES (FBE_KindTooLarge MAX_FALLBACK_KIND_BYTES)) (\<lambda>k.
          and_then (advance_field cursor) (\<lambda>cursor.
          and_then (take_field cursor MAX_FALLBACK_TEXT_BYTES (FBE_TextTooLarge MAX_FALLBACK_TEXT_BYTES)) (\<lambda>t.
          and_then (advance_field cursor) (\<lambda>cursor.
          if cursor \<noteq> [] then Err FBE_Malformed
          else Ok \<lparr> fb_id = i, fb_kind = k, fb_text = t \<rparr>)))))))"

section \<open>Scrubbing\<close>

text \<open>Each character, and each ill-formed run, counts one; the text keeps the first
  \<^const>\<open>MAX_FALLBACK_TEXT_BYTES\<close> of them.\<close>

fun scrub_item :: "bool \<times> bytes \<Rightarrow> char" where
  "scrub_item (True, [c]) = (if is_ascii_graphic c \<or> c = CHR '' '' then c else CHR ''?'')"
| "scrub_item _ = CHR ''?''"

fun scrub_loop :: "(bool \<times> bytes) list \<Rightarrow> string \<Rightarrow> nat \<Rightarrow> bool \<Rightarrow> string \<times> nat \<times> bool" where
  "scrub_loop [] scrubbed counted excess = (scrubbed, counted, excess)"
| "scrub_loop (item # items) scrubbed counted excess =
     (let counted = counted + 1 in
      if counted \<le> MAX_FALLBACK_TEXT_BYTES
      then scrub_loop items (scrubbed @ [scrub_item item]) counted excess
      else scrub_loop items scrubbed counted True)"

definition scrub_text :: "bytes \<Rightarrow> (string, fallback_error) result" where
  "scrub_text unreadable =
     (let (scrubbed, counted, excess) = scrub_loop (utf8_items unreadable) [] 0 False
      in if excess then Err (FBE_TextTooLarge MAX_FALLBACK_TEXT_BYTES counted) else Ok scrubbed)"

definition fallback_for :: "bytes \<Rightarrow> (fallback_envelope, fallback_error) result" where
  "fallback_for unreadable =
     and_then (scrub_text unreadable) (\<lambda>t.
     Ok \<lparr> fb_id = FALLBACK_ID, fb_kind = FALLBACK_KIND, fb_text = t \<rparr>)"

section \<open>The byte form\<close>

definition envelope_ok :: "fallback_envelope \<Rightarrow> bool" where
  "envelope_ok e \<longleftrightarrow>
     length (fb_id e) \<le> MAX_FALLBACK_ID_BYTES \<and> length (fb_kind e) \<le> MAX_FALLBACK_KIND_BYTES
     \<and> length (fb_text e) \<le> MAX_FALLBACK_TEXT_BYTES
     \<and> valid_utf8 (fb_id e) \<and> valid_utf8 (fb_kind e) \<and> valid_utf8 (fb_text e)"

text \<open>A field is read exactly when the bytes start with its frame.\<close>

definition frame_field :: "string \<Rightarrow> bytes" where
  "frame_field f = le_bytes LEN_WIDTH (length f) @ f"

lemma declared_len_frame:
  assumes "length f < 2 ^ 64"
  shows "declared_len (frame_field f @ r) = Some (length f)"
proof -
  have "le_value (le_bytes 8 (length f)) = length f" using assms by (intro le_value_bytes) simp
  then show ?thesis by (simp add: declared_len_def frame_field_def LEN_WIDTH_def del: le_bytes.simps)
qed

lemma read_field_iff:
  assumes "cap < 2 ^ 32"
  shows "take_field bs cap e = Ok f \<and> advance_field bs = Ok r \<longleftrightarrow>
     length f \<le> cap \<and> valid_utf8 f \<and> bs = frame_field f @ r"
proof
  assume ok: "take_field bs cap e = Ok f \<and> advance_field bs = Ok r"
  then obtain d where d: "declared_len bs = Some d" by (auto simp: take_field_def split: option.splits)
  then have w: "LEN_WIDTH \<le> length bs" "d = le_value (take LEN_WIDTH bs)"
    by (auto simp: declared_len_def split: if_splits)
  from ok d have f: "d \<le> cap" "LEN_WIDTH + d \<le> length bs" "f = take d (drop LEN_WIDTH bs)" "valid_utf8 f"
      "r = drop (LEN_WIDTH + d) bs"
    by (auto simp: take_field_def advance_field_def Let_def split: if_splits)
  then have len: "length f = d" by simp
  have tk: "take LEN_WIDTH bs = le_bytes LEN_WIDTH d"
    using le_bytes_value [of "take LEN_WIDTH bs"] w by simp
  have r: "r = drop d (drop LEN_WIDTH bs)" by (simp add: f(5) add.commute)
  have "frame_field f @ r = take LEN_WIDTH bs @ f @ r" by (simp only: frame_field_def len tk append_assoc)
  also have "\<dots> = bs" by (simp only: f(3) r append_take_drop_id)
  finally have "bs = frame_field f @ r" by (rule sym)
  moreover have "length f \<le> cap" using f(1) len by (simp only:)
  ultimately show "length f \<le> cap \<and> valid_utf8 f \<and> bs = frame_field f @ r" using f(4) by blast
next
  assume f: "length f \<le> cap \<and> valid_utf8 f \<and> bs = frame_field f @ r"
  then have "length f < 2 ^ 64" using assms by simp
  moreover have "LEN_WIDTH + length f \<le> usize_max" using f assms by (simp add: LEN_WIDTH_def usize_max_def)
  ultimately show "take_field bs cap e = Ok f \<and> advance_field bs = Ok r"
    using f by (simp add: take_field_def advance_field_def declared_len_frame) (simp add: frame_field_def LEN_WIDTH_def)
qed

lemma fallback_to_bytes_frames:
  "fallback_to_bytes e = ENVELOPE_MAGIC @ frame_field (fb_id e) @ frame_field (fb_kind e) @ frame_field (fb_text e)"
  by (simp add: fallback_to_bytes_def frame_field_def)

lemma from_bytes_Ok_iff: "fallback_from_bytes bs = Ok e \<longleftrightarrow> envelope_ok e \<and> bs = fallback_to_bytes e"
proof -
  have caps: "MAX_FALLBACK_ID_BYTES < 2 ^ 32" "MAX_FALLBACK_KIND_BYTES < 2 ^ 32" "MAX_FALLBACK_TEXT_BYTES < 2 ^ 32"
    by (simp_all add: MAX_FALLBACK_ID_BYTES_def MAX_FALLBACK_KIND_BYTES_def MAX_FALLBACK_TEXT_BYTES_def)
  let ?i = "fb_id e" and ?k = "fb_kind e" and ?t = "fb_text e"
  have "fallback_from_bytes bs = Ok e \<longleftrightarrow>
    (\<exists>c c1 c2. bs = ENVELOPE_MAGIC @ c
      \<and> (take_field c MAX_FALLBACK_ID_BYTES (FBE_IdTooLarge MAX_FALLBACK_ID_BYTES) = Ok ?i \<and> advance_field c = Ok c1)
      \<and> (take_field c1 MAX_FALLBACK_KIND_BYTES (FBE_KindTooLarge MAX_FALLBACK_KIND_BYTES) = Ok ?k \<and> advance_field c1 = Ok c2)
      \<and> (take_field c2 MAX_FALLBACK_TEXT_BYTES (FBE_TextTooLarge MAX_FALLBACK_TEXT_BYTES) = Ok ?t \<and> advance_field c2 = Ok []))"
    by (cases e) (auto simp: fallback_from_bytes_def result_simps strip_prefix_Some_iff strip_prefix_None_iff split: option.splits if_splits)
  also have "\<dots> \<longleftrightarrow> envelope_ok e \<and> bs = fallback_to_bytes e"
    unfolding read_field_iff [OF caps(1)] read_field_iff [OF caps(2)] read_field_iff [OF caps(3)]
      fallback_to_bytes_frames envelope_ok_def by auto
  finally show ?thesis .
qed

section \<open>Scrubbed text\<close>

lemma scrub_loop_excess:
  "MAX_FALLBACK_TEXT_BYTES \<le> n \<Longrightarrow> scrub_loop items t n ex = (t, n + length items, ex \<or> items \<noteq> [])"
  by (induction items arbitrary: n ex) (auto simp: Let_def)

lemma scrub_loop_eq:
  "n \<le> MAX_FALLBACK_TEXT_BYTES \<Longrightarrow> scrub_loop items t n ex =
     (t @ map scrub_item (take (MAX_FALLBACK_TEXT_BYTES - n) items), n + length items,
      ex \<or> n + length items > MAX_FALLBACK_TEXT_BYTES)"
proof (induction items arbitrary: n t)
  case (Cons item items)
  show ?case
  proof (cases "n < MAX_FALLBACK_TEXT_BYTES")
    case True
    then have "MAX_FALLBACK_TEXT_BYTES - n = Suc (MAX_FALLBACK_TEXT_BYTES - Suc n)" by simp
    with True Cons.IH [of "Suc n"] show ?thesis by (simp add: Let_def)
  qed (use Cons.prems in \<open>simp add: Let_def scrub_loop_excess\<close>)
qed simp

lemma scrub_text_eq:
  "scrub_text bs =
     (let n = length (utf8_items bs) in
      if n > MAX_FALLBACK_TEXT_BYTES then Err (FBE_TextTooLarge MAX_FALLBACK_TEXT_BYTES n)
      else Ok (map scrub_item (utf8_items bs)))"
  by (simp add: scrub_text_def scrub_loop_eq Let_def)

lemma scrub_item_printable: "printable_char (scrub_item item)"
  by (cases item rule: scrub_item.cases) (auto simp: printable_char_def is_ascii_graphic_def)

lemma scrubbed_ascii: "list_all (\<lambda>c. byte_val c < 128) (map scrub_item items)"
proof -
  have "byte_val (scrub_item i) < 128" for i
    using scrub_item_printable [of i] by (auto simp: printable_char_def is_ascii_graphic_def)
  then show ?thesis by (simp add: list_all_iff)
qed

lemma fallback_identity_ok: "valid_utf8 FALLBACK_ID" "valid_utf8 FALLBACK_KIND"
  by code_simp+

text \<open>
  C34. The parser of the envelope accepts exactly the encodings of envelopes within the caps whose fields
  are well-formed text, and returns the encoded envelope.
\<close>

theorem fallback_envelope_exact:
  "fallback_from_bytes bs = Ok e \<longleftrightarrow> envelope_ok e \<and> bs = fallback_to_bytes e"
  by (rule from_bytes_Ok_iff)

text \<open>
  Any bytes become an envelope or a refusal that reports their exact length in characters: an accepted
  envelope has the fixed identity and one printable character for each character or ill-formed run,
  unchanged where it was printable already, and survives its own byte form.
\<close>

theorem fallback_for_total:
  "(length (utf8_items bs) > MAX_FALLBACK_TEXT_BYTES \<and>
      fallback_for bs = Err (FBE_TextTooLarge MAX_FALLBACK_TEXT_BYTES (length (utf8_items bs))))
   \<or> (\<exists>e. fallback_for bs = Ok e \<and> fb_id e = FALLBACK_ID \<and> fb_kind e = FALLBACK_KIND
        \<and> length (fb_text e) = length (utf8_items bs) \<and> list_all printable_char (fb_text e)
        \<and> (list_all printable_char bs \<longrightarrow> fb_text e = bs)
        \<and> fallback_from_bytes (fallback_to_bytes e) = Ok e)"
proof (cases "length (utf8_items bs) > MAX_FALLBACK_TEXT_BYTES")
  case False
  let ?t = "map scrub_item (utf8_items bs)"
  let ?e = "\<lparr> fb_id = FALLBACK_ID, fb_kind = FALLBACK_KIND, fb_text = ?t \<rparr>"
  have for_ok: "fallback_for bs = Ok ?e" using False by (simp add: fallback_for_def scrub_text_eq Let_def)
  have same: "?t = bs" if "list_all printable_char bs"
  proof -
    have ascii: "list_all (\<lambda>c. byte_val c < 128) bs"
      using that by (auto simp: list_all_iff printable_char_def is_ascii_graphic_def)
    from that show ?thesis
      by (simp add: utf8_items_ascii [OF ascii]) (induction bs; simp add: printable_char_def)
  qed
  have "valid_utf8 ?t" by (rule valid_utf8_ascii) (rule scrubbed_ascii)
  then have "envelope_ok ?e"
    using False fallback_identity_ok
    by (simp add: envelope_ok_def FALLBACK_ID_def FALLBACK_KIND_def MAX_FALLBACK_ID_BYTES_def MAX_FALLBACK_KIND_BYTES_def)
  then have "fallback_from_bytes (fallback_to_bytes ?e) = Ok ?e" by (simp add: from_bytes_Ok_iff)
  with for_ok same scrub_item_printable show ?thesis by (auto simp: list_all_iff)
qed (simp add: fallback_for_def scrub_text_eq Let_def)

theorem fallback_for_total_witness:
  "\<exists>e. fallback_for [CHR ''o'', CHR 0xFF, CHR ''k''] = Ok e \<and> fb_text e = ''o?k''
     \<and> fallback_from_bytes (fallback_to_bytes e) = Ok e"
proof -
  have items: "utf8_items [CHR ''o'', CHR 0xFF, CHR ''k''] = [(True, ''o''), (False, [CHR 0xFF]), (True, ''k'')]"
    by code_simp
  have "fallback_for [CHR ''o'', CHR 0xFF, CHR ''k''] =
      Ok \<lparr> fb_id = FALLBACK_ID, fb_kind = FALLBACK_KIND, fb_text = ''o?k'' \<rparr>"
    by (simp add: fallback_for_def scrub_text_eq items Let_def MAX_FALLBACK_TEXT_BYTES_def is_ascii_graphic_def
        del: utf8_items.simps)
  with fallback_for_total [of "[CHR ''o'', CHR 0xFF, CHR ''k'']"] show ?thesis by auto
qed

end
