(* ===== verification/Adoption.thy ===== *)
theory Adoption
  imports Agent
begin

text \<open>
  The adoption of a crashed session's leftovers by a supervisor
  (\<open>bitty-ai-runtime/src/adoption.rs\<close>): the typed claim, the check against the carried execution
  records, and the declarative history it returns.
\<close>

section \<open>Claims and histories\<close>

definition MAX_ADOPTION_SURVIVORS :: nat where
  "MAX_ADOPTION_SURVIVORS = 32"

datatype unknown_disposition = UD_Reconciled | UD_Escalated

record claimed_unknown_effect =
  cu_execution_id :: execution_id
  cu_disposition :: unknown_disposition

record adoption_claim =
  ac_prior_session_state :: session_state
  ac_survivor_ids :: "execution_id list"
  ac_unknown_effects :: "claimed_unknown_effect list"
  ac_fence_token :: u64

datatype adoption_refusal =
  AR_LiveSession
| AR_NotFailed session_state
| AR_UnreconciledUnknown execution_id
| AR_DispositionMismatch execution_id
| AR_MissingEvidence execution_id
| AR_UnclaimedSurvivor execution_id
| AR_DuplicateEffect execution_id
| AR_TooManySurvivors nat nat
| AR_StaleEpoch u64 u64

record adopted_effect =
  ae_execution_id :: execution_id
  ae_tool :: string
  ae_status :: tool_status
  ae_quarantined :: bool

record adopted_history =
  ah_effects :: "adopted_effect list"

definition quarantined_ids :: "adopted_history \<Rightarrow> execution_id list" where
  "quarantined_ids h = map ae_execution_id (filter ae_quarantined (ah_effects h))"

fun is_unknown_status :: "tool_status \<Rightarrow> bool" where
  "is_unknown_status (TS_Unknown _) = True"
| "is_unknown_status _ = False"

section \<open>The check\<close>

text \<open>The two loops that refuse a repeated id; they leave the ids seen.\<close>

fun refuse_repeats :: "execution_id list \<Rightarrow> execution_id list \<Rightarrow> (execution_id list, adoption_refusal) result" where
  "refuse_repeats seen [] = Ok seen"
| "refuse_repeats seen (i # ids) =
     (if i \<in> set seen then Err (AR_DuplicateEffect i) else refuse_repeats (seen @ [i]) ids)"

definition find_record :: "execution_record list \<Rightarrow> execution_id \<Rightarrow> execution_record option" where
  "find_record evidence i = find (\<lambda>r. xr_execution_id r = i) evidence"

fun check_dispositions ::
  "execution_record list \<Rightarrow> execution_id list \<Rightarrow> execution_id list \<Rightarrow> execution_id list
     \<Rightarrow> claimed_unknown_effect list \<Rightarrow> (execution_id list, adoption_refusal) result" where
  "check_dispositions evidence seen_claims seen_ids seen_unknowns [] = Ok seen_unknowns"
| "check_dispositions evidence seen_claims seen_ids seen_unknowns (named # rest) =
     (let i = cu_execution_id named in
      if i \<in> set seen_unknowns then Err (AR_DispositionMismatch i)
      else if i \<notin> set seen_claims \<or> i \<notin> set seen_ids then Err (AR_MissingEvidence i)
      else case find_record evidence i of
        None \<Rightarrow> Err (AR_MissingEvidence i)
      | Some r \<Rightarrow>
          (case (cu_disposition named, is_unknown_status (xr_status r)) of
             (UD_Escalated, True) \<Rightarrow>
               check_dispositions evidence seen_claims seen_ids (seen_unknowns @ [i]) rest
           | (UD_Reconciled, True) \<Rightarrow> Err (AR_UnreconciledUnknown i)
           | (_, False) \<Rightarrow> Err (AR_DispositionMismatch i)))"

fun adopt_survivors ::
  "execution_record list \<Rightarrow> execution_id list \<Rightarrow> execution_id list \<Rightarrow> (adopted_effect list, adoption_refusal) result" where
  "adopt_survivors evidence seen_unknowns [] = Ok []"
| "adopt_survivors evidence seen_unknowns (i # ids) =
     (case find_record evidence i of
        None \<Rightarrow> Err (AR_MissingEvidence i)
      | Some r \<Rightarrow>
          (let is_unknown = is_unknown_status (xr_status r) in
           if is_unknown \<and> i \<notin> set seen_unknowns then Err (AR_UnreconciledUnknown i)
           else if \<not> is_unknown \<and> i \<in> set seen_unknowns then Err (AR_DispositionMismatch i)
           else and_then (adopt_survivors evidence seen_unknowns ids) (\<lambda>effects.
             Ok (\<lparr> ae_execution_id = xr_execution_id r, ae_tool = xr_tool r, ae_status = xr_status r,
                    ae_quarantined = is_unknown \<rparr> # effects))))"

definition check_claimed :: "execution_id list \<Rightarrow> execution_record \<Rightarrow> (unit, adoption_refusal) result" where
  "check_claimed seen_claims r =
     (if xr_execution_id r \<in> set seen_claims then Ok () else Err (AR_UnclaimedSurvivor (xr_execution_id r)))"

definition check_adoption ::
  "adoption_claim \<Rightarrow> execution_record list \<Rightarrow> u64 \<Rightarrow> (adopted_history, adoption_refusal) result" where
  "check_adoption claim evidence current_epoch =
     (let actual = max (max (length (ac_survivor_ids claim)) (length evidence)) (length (ac_unknown_effects claim)) in
      if actual > MAX_ADOPTION_SURVIVORS then Err (AR_TooManySurvivors MAX_ADOPTION_SURVIVORS actual)
      else if ac_fence_token claim \<noteq> current_epoch then Err (AR_StaleEpoch (ac_fence_token claim) current_epoch)
      else if ac_prior_session_state claim = SS_Active then Err AR_LiveSession
      else if ac_prior_session_state claim \<noteq> SS_Failed then Err (AR_NotFailed (ac_prior_session_state claim))
      else and_then (refuse_repeats [] (map xr_execution_id evidence)) (\<lambda>seen_ids.
           and_then (refuse_repeats [] (ac_survivor_ids claim)) (\<lambda>seen_claims.
           and_then (check_dispositions evidence seen_claims seen_ids [] (ac_unknown_effects claim)) (\<lambda>seen_unknowns.
           and_then (adopt_survivors evidence seen_unknowns (ac_survivor_ids claim)) (\<lambda>effects.
           and_then (check_all (check_claimed seen_claims) evidence) (\<lambda>_.
           Ok \<lparr> ah_effects = effects \<rparr>))))))"

section \<open>What is adopted\<close>

text \<open>The effect a survivor id is adopted as.\<close>

definition effect_of :: "execution_record \<Rightarrow> adopted_effect" where
  "effect_of r =
     \<lparr> ae_execution_id = xr_execution_id r, ae_tool = xr_tool r, ae_status = xr_status r,
       ae_quarantined = is_unknown_status (xr_status r) \<rparr>"

definition open_unknown_ids :: "execution_record list \<Rightarrow> execution_id set" where
  "open_unknown_ids evidence = xr_execution_id ` {r \<in> set evidence. is_unknown_status (xr_status r)}"

lemma refuse_repeats_Ok_iff:
  "refuse_repeats seen ids = Ok s \<longleftrightarrow> distinct ids \<and> set ids \<inter> set seen = {} \<and> s = seen @ ids"
  by (induction ids arbitrary: seen) auto

lemma find_record_iff:
  "distinct (map xr_execution_id evidence) \<Longrightarrow>
     find_record evidence i = Some r \<longleftrightarrow> r \<in> set evidence \<and> xr_execution_id r = i"
  unfolding find_record_def by (rule find_key_distinct)

lemma find_record_None: "find_record evidence i = None \<longleftrightarrow> i \<notin> xr_execution_id ` set evidence"
  unfolding find_record_def by (rule find_key_None_iff)

lemma open_unknown_ids_iff:
  assumes "distinct (map xr_execution_id evidence)" "find_record evidence i = Some r"
  shows "i \<in> open_unknown_ids evidence \<longleftrightarrow> is_unknown_status (xr_status r)"
  using assms by (auto simp: find_record_iff open_unknown_ids_def distinct_map inj_on_def)

lemma check_dispositions_Ok_iff:
  assumes "distinct (map xr_execution_id evidence)" "set seen_ids = xr_execution_id ` set evidence"
  shows "check_dispositions evidence seen_claims seen_ids seen named = Ok s \<longleftrightarrow>
     distinct (map cu_execution_id named) \<and> cu_execution_id ` set named \<inter> set seen = {}
     \<and> cu_execution_id ` set named \<subseteq> set seen_claims \<inter> open_unknown_ids evidence
     \<and> cu_disposition ` set named \<subseteq> {UD_Escalated} \<and> s = seen @ map cu_execution_id named"
proof (induction named arbitrary: seen)
  case (Cons n named)
  let ?i = "cu_execution_id n"
  show ?case
  proof (cases "find_record evidence ?i")
    case None
    then have "?i \<notin> set seen_ids" using assms(2) by (simp add: find_record_None)
    moreover have "?i \<notin> open_unknown_ids evidence" using None by (auto simp: open_unknown_ids_def find_record_None)
    ultimately show ?thesis by (auto simp: Let_def)
  next
    case (Some r)
    then have "?i \<in> set seen_ids" using assms(2) find_record_None [of evidence ?i] by simp
    with Some Cons show ?thesis
      by (cases "cu_disposition n"; cases "is_unknown_status (xr_status r)")
         (auto simp: Let_def open_unknown_ids_iff [OF assms(1) Some])
  qed
qed auto

definition adopted_as :: "execution_record list \<Rightarrow> execution_id \<Rightarrow> adopted_effect" where
  "adopted_as evidence i = effect_of (the (find_record evidence i))"

lemma adopt_survivors_Ok_iff:
  assumes "distinct (map xr_execution_id evidence)"
  shows "adopt_survivors evidence seen ids = Ok es \<longleftrightarrow>
     set ids \<subseteq> xr_execution_id ` set evidence \<and> (\<forall>i \<in> set ids. i \<in> open_unknown_ids evidence \<longleftrightarrow> i \<in> set seen)
     \<and> es = map (adopted_as evidence) ids"
proof (induction ids arbitrary: es)
  case (Cons i ids)
  show ?case
  proof (cases "find_record evidence i")
    case None
    then have "i \<notin> xr_execution_id ` set evidence" by (simp add: find_record_None)
    with None show ?thesis by simp
  next
    case (Some r)
    have mem: "i \<in> xr_execution_id ` set evidence" using Some find_record_None [of evidence i] by simp
    have as: "adopted_as evidence i = \<lparr> ae_execution_id = xr_execution_id r, ae_tool = xr_tool r,
        ae_status = xr_status r, ae_quarantined = is_unknown_status (xr_status r) \<rparr>"
      using Some by (simp add: adopted_as_def effect_of_def)
    show ?thesis
      using Some Cons mem by (auto simp: result_simps Let_def open_unknown_ids_iff [OF assms Some] as)
  qed
qed auto

lemma check_claimed_all:
  "check_all (check_claimed claims) evidence = Ok () \<longleftrightarrow> xr_execution_id ` set evidence \<subseteq> set claims"
  by (auto simp: result_simps check_claimed_def)

lemma check_adoption_Ok_iff:
  "check_adoption claim evidence epoch = Ok h \<longleftrightarrow>
     length (ac_survivor_ids claim) \<le> MAX_ADOPTION_SURVIVORS \<and> length evidence \<le> MAX_ADOPTION_SURVIVORS
     \<and> length (ac_unknown_effects claim) \<le> MAX_ADOPTION_SURVIVORS
     \<and> ac_fence_token claim = epoch \<and> ac_prior_session_state claim = SS_Failed
     \<and> distinct (map xr_execution_id evidence) \<and> distinct (ac_survivor_ids claim)
     \<and> distinct (map cu_execution_id (ac_unknown_effects claim))
     \<and> set (ac_survivor_ids claim) = xr_execution_id ` set evidence
     \<and> cu_execution_id ` set (ac_unknown_effects claim) = open_unknown_ids evidence
     \<and> cu_disposition ` set (ac_unknown_effects claim) \<subseteq> {UD_Escalated}
     \<and> h = \<lparr> ah_effects = map (adopted_as evidence) (ac_survivor_ids claim) \<rparr>"
  (is "_ \<longleftrightarrow> ?R")
proof (cases "distinct (map xr_execution_id evidence)")
  case False
  then show ?thesis by (auto simp: check_adoption_def Let_def result_simps refuse_repeats_Ok_iff split: if_splits)
next
  case True
  let ?ids = "map xr_execution_id evidence"
  have sub: "open_unknown_ids evidence \<subseteq> set ?ids" by (auto simp: open_unknown_ids_def)
  have "check_adoption claim evidence epoch = Ok h \<longleftrightarrow>
      max (max (length (ac_survivor_ids claim)) (length evidence)) (length (ac_unknown_effects claim)) \<le> MAX_ADOPTION_SURVIVORS
      \<and> ac_fence_token claim = epoch \<and> ac_prior_session_state claim = SS_Failed
      \<and> distinct (ac_survivor_ids claim)
      \<and> (\<exists>s es. check_dispositions evidence (ac_survivor_ids claim) ?ids [] (ac_unknown_effects claim) = Ok s
        \<and> adopt_survivors evidence s (ac_survivor_ids claim) = Ok es
        \<and> check_all (check_claimed (ac_survivor_ids claim)) evidence = Ok () \<and> h = \<lparr> ah_effects = es \<rparr>)"
    using True by (auto simp: check_adoption_def Let_def result_simps refuse_repeats_Ok_iff split: if_splits)
  also have "\<dots> \<longleftrightarrow> ?R"
    using True sub
    by (auto simp: check_dispositions_Ok_iff [OF True] adopt_survivors_Ok_iff [OF True] check_claimed_all) blast
  finally show ?thesis .
qed

text \<open>
  The effects of a failed agent can be handed over honestly: naming its records in order, with the
  unknown ones as escalated, is accepted, and exactly the unknown ones are quarantined.
\<close>

lemma honest_claim_adopted:
  assumes "distinct (map xr_execution_id evidence)" "length evidence \<le> MAX_ADOPTION_SURVIVORS"
  shows "check_adoption
      \<lparr> ac_prior_session_state = SS_Failed, ac_survivor_ids = map xr_execution_id evidence,
        ac_unknown_effects = map (\<lambda>r. \<lparr> cu_execution_id = xr_execution_id r, cu_disposition = UD_Escalated \<rparr>)
          (filter (\<lambda>r. is_unknown_status (xr_status r)) evidence),
        ac_fence_token = epoch \<rparr> evidence epoch
    = Ok \<lparr> ah_effects = map effect_of evidence \<rparr>"
proof -
  have len: "length (filter (\<lambda>r. is_unknown_status (xr_status r)) evidence) \<le> MAX_ADOPTION_SURVIVORS"
    using assms(2) length_filter_le [of "\<lambda>r. is_unknown_status (xr_status r)" evidence] by (rule order_trans [rotated])
  have "find_record evidence (xr_execution_id r) = Some r" if "r \<in> set evidence" for r
    using that find_record_iff [OF assms(1)] by blast
  then have ids: "map (adopted_as evidence) (map xr_execution_id evidence) = map effect_of evidence"
    by (simp add: adopted_as_def)
  have d: "distinct (map xr_execution_id (filter P evidence))" for P using assms(1) by (rule distinct_map_filter)
  show ?thesis
    unfolding check_adoption_Ok_iff using assms len ids d
    by (auto simp: open_unknown_ids_def comp_def image_image)
qed

text \<open>
  C35. Adoption succeeds exactly under the four-part rule: bounded lists, the current epoch, a failed session,
  survivors that are exactly the carried records without repetition, and dispositions that name exactly
  the still unknown ones, all as escalated. What is adopted is each record in the order of the claim,
  quarantined exactly when its effect is unknown.
\<close>

theorem adoption_exact:
  "check_adoption claim evidence epoch = Ok h \<longleftrightarrow>
     length (ac_survivor_ids claim) \<le> MAX_ADOPTION_SURVIVORS \<and> length evidence \<le> MAX_ADOPTION_SURVIVORS
     \<and> length (ac_unknown_effects claim) \<le> MAX_ADOPTION_SURVIVORS
     \<and> ac_fence_token claim = epoch \<and> ac_prior_session_state claim = SS_Failed
     \<and> distinct (map xr_execution_id evidence) \<and> distinct (ac_survivor_ids claim)
     \<and> distinct (map cu_execution_id (ac_unknown_effects claim))
     \<and> set (ac_survivor_ids claim) = xr_execution_id ` set evidence
     \<and> cu_execution_id ` set (ac_unknown_effects claim) = open_unknown_ids evidence
     \<and> cu_disposition ` set (ac_unknown_effects claim) \<subseteq> {UD_Escalated}
     \<and> h = \<lparr> ah_effects = map (adopted_as evidence) (ac_survivor_ids claim) \<rparr>"
  by (rule check_adoption_Ok_iff)

end
