(* ===== verification/Compression.thy ===== *)
theory Compression
  imports Context_Assembly Rust_Parse
begin

text \<open>
  Selective compression of context records and retention of the summaries
  (\<open>bitty-ai-runtime/src/compression.rs\<close>): breakpoint selection, the compression core, the view with
  deletion and expiry, the compaction window and the compaction pass. The summarizer is host code: a
  function that may change a world of its own. A loop over indices becomes a recursion over the list
  it indexes.
\<close>

section \<open>Errors, retention and configuration\<close>

definition MAX_SPANS :: nat where
  "MAX_SPANS = 32"

definition MAX_SPAN_ID_LEN :: nat where
  "MAX_SPAN_ID_LEN = 64"

definition DEFAULT_MAX_SPAN_BYTES :: nat where
  "DEFAULT_MAX_SPAN_BYTES = 8 * 1024"

datatype compression_error =
  XE_InvalidConfig string
| XE_InvalidRange string
| XE_DuplicateId string
| XE_TooManySpans nat
| XE_SummaryTooLarge nat nat
| XE_SummarizerFailed string
| XE_SummaryUnavailable string string
| XE_Context context_error

fun compression_error_display :: "compression_error \<Rightarrow> string" where
  "compression_error_display (XE_InvalidConfig reason) = ''invalid compression config: '' @ reason"
| "compression_error_display (XE_InvalidRange reason) = ''invalid compression range: '' @ reason"
| "compression_error_display (XE_DuplicateId i) = ''span id collides with source record: '' @ i"
| "compression_error_display (XE_TooManySpans limit) =
     ''compressed span count exceeds limit '' @ show_nat limit"
| "compression_error_display (XE_SummaryTooLarge limit actual) =
     ''compressed summary of '' @ show_nat actual @ '' bytes exceeds '' @ show_nat limit @ '' byte limit''"
| "compression_error_display (XE_SummarizerFailed reason) = ''summarizer failed: '' @ reason"
| "compression_error_display (XE_SummaryUnavailable span_id reason) =
     ''compressed summary unavailable: '' @ span_id @ '' ('' @ reason @ '')''"
| "compression_error_display (XE_Context inner) =
     ''compression source invalid: '' @ context_error_display inner"

datatype retention_class = RC_Pinned | RC_Recent | RC_Normal | RC_Ephemeral

fun restrictiveness :: "retention_class \<Rightarrow> nat" where
  "restrictiveness RC_Ephemeral = 3"
| "restrictiveness RC_Normal = 2"
| "restrictiveness RC_Recent = 1"
| "restrictiveness RC_Pinned = 0"

definition most_restrictive :: "retention_class \<Rightarrow> retention_class \<Rightarrow> retention_class" where
  "most_restrictive c other = (if restrictiveness other > restrictiveness c then other else c)"

type_synonym retention_tags = "(string \<times> retention_class) list"

fun tags_set :: "retention_tags \<Rightarrow> string \<Rightarrow> retention_class \<Rightarrow> retention_tags" where
  "tags_set [] i c = [(i, c)]"
| "tags_set ((name, old) # entries) i c =
     (if name = i then (name, c) # entries else (name, old) # tags_set entries i c)"

definition tags_get :: "retention_tags \<Rightarrow> string \<Rightarrow> retention_class" where
  "tags_get tags i = (case map_of tags i of Some c \<Rightarrow> c | None \<Rightarrow> RC_Normal)"

record retention_policy =
  rp_pinned_ttl_ms :: "u64 option"
  rp_recent_ttl_ms :: "u64 option"
  rp_normal_ttl_ms :: "u64 option"
  rp_ephemeral_ttl_ms :: "u64 option"

definition retention_policy_default :: retention_policy where
  "retention_policy_default =
     \<lparr> rp_pinned_ttl_ms = None, rp_recent_ttl_ms = Some (24 * 60 * 60 * 1000),
       rp_normal_ttl_ms = Some (60 * 60 * 1000), rp_ephemeral_ttl_ms = Some (5 * 60 * 1000) \<rparr>"

fun ttl_for :: "retention_policy \<Rightarrow> retention_class \<Rightarrow> u64 option" where
  "ttl_for p RC_Pinned = rp_pinned_ttl_ms p"
| "ttl_for p RC_Recent = rp_recent_ttl_ms p"
| "ttl_for p RC_Normal = rp_normal_ttl_ms p"
| "ttl_for p RC_Ephemeral = rp_ephemeral_ttl_ms p"

record compression_config =
  cc_max_span_bytes :: nat
  cc_max_span_tokens :: "u32 option"

definition compression_config_validate :: "compression_config \<Rightarrow> (unit, compression_error) result" where
  "compression_config_validate c =
     (if cc_max_span_bytes c = 0 then Err (XE_InvalidConfig ''max_span_bytes must be non-zero'')
      else if cc_max_span_tokens c = Some 0
      then Err (XE_InvalidConfig ''max_span_tokens must be non-zero when set'')
      else Ok ())"

definition effective_span_bytes :: "compression_config \<Rightarrow> nat" where
  "effective_span_bytes c =
     (case cc_max_span_tokens c of
        Some tokens \<Rightarrow> min (cc_max_span_bytes c) (unat tokens * BYTES_PER_TOKEN_ESTIMATE)
      | None \<Rightarrow> cc_max_span_bytes c)"

section \<open>Breakpoints\<close>

record span_range =
  sr_start :: nat
  sr_end :: nat

definition range_len :: "span_range \<Rightarrow> nat" where
  "range_len r = sr_end r - sr_start r"

definition range_is_empty :: "span_range \<Rightarrow> bool" where
  "range_is_empty r \<longleftrightarrow> sr_end r \<le> sr_start r"

fun breakpoint_loop ::
  "nat \<Rightarrow> nat \<Rightarrow> context_record list \<Rightarrow> span_range list \<Rightarrow> nat \<Rightarrow> nat
     \<Rightarrow> (span_range list \<times> nat, compression_error) result" where
  "breakpoint_loop cap index [] ranges start used = Ok (ranges, start)"
| "breakpoint_loop cap index (record # rest) ranges start used =
     (let need = footprint_bytes record in
      if used > 0 \<and> used + need > cap
      then (let ranges = ranges @ [\<lparr> sr_start = start, sr_end = index \<rparr>] in
            if length ranges > MAX_SPANS then Err (XE_TooManySpans MAX_SPANS)
            else breakpoint_loop cap (index + 1) rest ranges index need)
      else breakpoint_loop cap (index + 1) rest ranges start (used + need))"

definition select_breakpoints ::
  "context_record list \<Rightarrow> compression_config \<Rightarrow> (span_range list, compression_error) result" where
  "select_breakpoints records config =
     and_then (compression_config_validate config) (\<lambda>_.
     and_then (breakpoint_loop (effective_span_bytes config) 0 records [] 0 0) (\<lambda>(ranges, start).
     let ranges = (if start < length records
                   then ranges @ [\<lparr> sr_start = start, sr_end = length records \<rparr>] else ranges)
     in if length ranges > MAX_SPANS then Err (XE_TooManySpans MAX_SPANS) else Ok ranges))"

section \<open>Summaries\<close>

record summarize_input =
  si_span_id :: string
  si_source_ids :: "string list"
  si_source_summaries :: "string list"
  si_total_source_bytes :: nat
  si_untrusted_sources :: nat
  si_now_ms :: u64
  si_previous_summary :: "string option"

type_synonym 'w summarizer = "summarize_input \<Rightarrow> 'w \<Rightarrow> (string, compression_error) result \<times> 'w"

record fake_summarizer =
  fs_scripted :: "string list"
  fs_calls :: nat

definition fake_summarize :: "fake_summarizer summarizer" where
  "fake_summarize input fs =
     (let nxt = fs_calls fs in
      if nxt \<ge> length (fs_scripted fs)
      then (Err (XE_SummarizerFailed (''script exhausted at call '' @ show_nat nxt @ '' for span ''
              @ si_span_id input)), fs)
      else (Ok (fs_scripted fs ! nxt), fs\<lparr>fs_calls := nxt + 1\<rparr>))"

record compressed_span =
  cs_span_id :: string
  cs_source_ids :: "string list"
  cs_summary :: string
  cs_is_untrusted_surface :: bool
  cs_retention :: retention_class
  cs_source_deadline_ms :: u64
  cs_created_at_ms :: u64

record compressed_view =
  cv_records :: "context_record list"
  cv_spans :: "compressed_span list"
  cv_tombstones :: "string list"
  cv_tags :: retention_tags

definition resolve_summary :: "compressed_view \<Rightarrow> string \<Rightarrow> (string, compression_error) result" where
  "resolve_summary v span_id =
     (case find (\<lambda>s. cs_span_id s = span_id) (cv_spans v) of
        Some s \<Rightarrow> Ok (cs_summary s)
      | None \<Rightarrow>
          if span_id \<in> set (cv_tombstones v)
          then Err (XE_SummaryUnavailable span_id ''deleted or expired'')
          else Err (XE_SummaryUnavailable span_id ''unknown''))"

fun add_tombstones :: "string list \<Rightarrow> string list \<Rightarrow> string list" where
  "add_tombstones tombs [] = tombs"
| "add_tombstones tombs (i # ids) = add_tombstones (if i \<in> set tombs then tombs else tombs @ [i]) ids"

definition span_hit :: "string list \<Rightarrow> compressed_span \<Rightarrow> bool" where
  "span_hit ids s \<longleftrightarrow> list_ex (\<lambda>source. source \<in> set ids) (cs_source_ids s) \<or> cs_span_id s \<in> set ids"

definition delete_ids :: "string list \<Rightarrow> compressed_view \<Rightarrow> string list \<times> compressed_view" where
  "delete_ids ids v =
     (let invalidated = map cs_span_id (filter (span_hit ids) (cv_spans v)) in
      (invalidated,
       v\<lparr> cv_tombstones := add_tombstones (cv_tombstones v) ids,
          cv_spans := filter (\<lambda>s. \<not> span_hit ids s) (cv_spans v),
          cv_records := filter (\<lambda>r. cr_id r \<notin> set ids \<and> cr_id r \<notin> set invalidated) (cv_records v) \<rparr>))"

definition saturating_sub :: "u64 \<Rightarrow> u64 \<Rightarrow> u64" where
  "saturating_sub a b = (if a \<ge> b then a - b else 0)"

definition over_ttl :: "retention_policy \<Rightarrow> retention_class \<Rightarrow> u64 \<Rightarrow> u64 \<Rightarrow> bool" where
  "over_ttl policy c now_ms anchor =
     (case ttl_for policy c of None \<Rightarrow> False | Some ttl \<Rightarrow> saturating_sub now_ms anchor > ttl)"

definition span_over :: "retention_policy \<Rightarrow> u64 \<Rightarrow> compressed_span \<Rightarrow> bool" where
  "span_over policy now_ms s = over_ttl policy (cs_retention s) now_ms (cs_source_deadline_ms s)"

definition record_over :: "retention_policy \<Rightarrow> u64 \<Rightarrow> retention_tags \<Rightarrow> context_record \<Rightarrow> bool" where
  "record_over policy now_ms tags r = over_ttl policy (tags_get tags (cr_id r)) now_ms (cr_collected_at_ms r)"

fun retain_records ::
  "retention_policy \<Rightarrow> u64 \<Rightarrow> retention_tags \<Rightarrow> string list \<Rightarrow> string list \<Rightarrow> context_record list
     \<Rightarrow> context_record list \<times> string list" where
  "retain_records policy now_ms tags live dropped [] = ([], [])"
| "retain_records policy now_ms tags live dropped (record # rest) =
     (let (kept, expired) = retain_records policy now_ms tags live dropped rest in
      if cr_id record \<in> set live then (record # kept, expired)
      else if cr_id record \<in> set dropped then (kept, expired)
      else if record_over policy now_ms tags record then (kept, cr_id record # expired)
      else (record # kept, expired))"

definition apply_retention :: "retention_policy \<Rightarrow> u64 \<Rightarrow> compressed_view \<Rightarrow> string list \<times> compressed_view" where
  "apply_retention policy now_ms v =
     (let dropped = map cs_span_id (filter (span_over policy now_ms) (cv_spans v));
          spans = filter (\<lambda>s. \<not> span_over policy now_ms s) (cv_spans v);
          (kept, expired_records) =
            retain_records policy now_ms (cv_tags v) (map cs_span_id spans) dropped (cv_records v);
          expired = dropped @ expired_records
      in (expired, v\<lparr> cv_spans := spans, cv_records := kept,
                       cv_tombstones := add_tombstones (cv_tombstones v) expired \<rparr>))"

fun inherit_loop :: "retention_tags \<Rightarrow> string list \<Rightarrow> retention_class \<Rightarrow> bool \<Rightarrow> retention_class" where
  "inherit_loop tags [] c seen = (if seen then c else RC_Normal)"
| "inherit_loop tags (i # ids) c seen =
     (let nxt = tags_get tags i in
      inherit_loop tags ids (if seen then most_restrictive c nxt else nxt) True)"

definition inherit_retention :: "string list \<Rightarrow> retention_tags \<Rightarrow> retention_class" where
  "inherit_retention source_ids tags = inherit_loop tags source_ids RC_Pinned False"

section \<open>The compression core\<close>

definition show_range :: "span_range \<Rightarrow> string" where
  "show_range r = show_nat (sr_start r) @ ''..'' @ show_nat (sr_end r)"

fun validate_range_loop :: "nat \<Rightarrow> nat \<Rightarrow> span_range list \<Rightarrow> (unit, compression_error) result" where
  "validate_range_loop record_count cursor [] = Ok ()"
| "validate_range_loop record_count cursor (r # ranges) =
     (if range_is_empty r then Err (XE_InvalidRange (''empty range '' @ show_range r))
      else if sr_end r > record_count
      then Err (XE_InvalidRange (''range '' @ show_range r @ '' exceeds '' @ show_nat record_count @ '' records''))
      else if sr_start r < cursor
      then Err (XE_InvalidRange (''range '' @ show_range r @ '' overlaps or is unsorted''))
      else validate_range_loop record_count (sr_end r) ranges)"

definition validate_ranges :: "nat \<Rightarrow> span_range list \<Rightarrow> (unit, compression_error) result" where
  "validate_ranges record_count ranges =
     (if length ranges > MAX_SPANS then Err (XE_TooManySpans MAX_SPANS)
      else validate_range_loop record_count 0 ranges)"

definition covered :: "context_record list \<Rightarrow> span_range \<Rightarrow> context_record list" where
  "covered records r = take (sr_end r - sr_start r) (drop (sr_start r) records)"

definition pad4 :: "nat \<Rightarrow> string" where
  "pad4 n = replicate (4 - length (show_nat n)) (CHR ''0'') @ show_nat n"

definition span_name :: "nat \<Rightarrow> string" where
  "span_name n = ''cmp-'' @ pad4 n"

text \<open>The span and the synthetic record that one range makes, once it has its summary.\<close>

definition span_of ::
  "retention_tags \<Rightarrow> u64 \<Rightarrow> string \<Rightarrow> context_record list \<Rightarrow> string \<Rightarrow> compressed_span" where
  "span_of tags now_ms span_id cov summary =
     \<lparr> cs_span_id = span_id, cs_source_ids = map cr_id cov, cs_summary = summary,
       cs_is_untrusted_surface = (length (filter cr_is_untrusted_surface cov) > 0),
       cs_retention = inherit_retention (map cr_id cov) tags,
       cs_source_deadline_ms = (if cov = [] then now_ms else Min (set (map cr_collected_at_ms cov))),
       cs_created_at_ms = now_ms \<rparr>"

definition synthetic_of :: "u64 \<Rightarrow> string \<Rightarrow> context_record list \<Rightarrow> string \<Rightarrow> context_record" where
  "synthetic_of now_ms span_id cov summary =
     \<lparr> cr_id = span_id, cr_provider = cr_provider (cov ! 0), cr_owner = cr_owner (cov ! 0),
       cr_generation = (if cov = [] then 0 else Max (set (map cr_generation cov))),
       cr_collected_at_ms = now_ms,
       cr_priority = (if cov = [] then CP_Normal else Min (set (map effective_priority cov))),
       cr_summary = summary, cr_body = RB_Inline [], cr_supersedes = None,
       cr_is_untrusted_surface = (length (filter cr_is_untrusted_surface cov) > 0) \<rparr>"

definition summarize_input_of ::
  "u64 \<Rightarrow> string option option \<Rightarrow> string \<Rightarrow> context_record list \<Rightarrow> summarize_input" where
  "summarize_input_of now_ms next_previous span_id cov =
     \<lparr> si_span_id = span_id, si_source_ids = map cr_id cov, si_source_summaries = map cr_summary cov,
       si_total_source_bytes = sum_list (map footprint_bytes cov),
       si_untrusted_sources = length (filter cr_is_untrusted_surface cov), si_now_ms = now_ms,
       si_previous_summary = (case next_previous of Some p \<Rightarrow> p | None \<Rightarrow> None) \<rparr>"

fun span_loop ::
  "'w summarizer \<Rightarrow> context_record list \<Rightarrow> retention_tags \<Rightarrow> u64 \<Rightarrow> nat \<Rightarrow> span_range list
     \<Rightarrow> string option option \<Rightarrow> 'w \<Rightarrow> ((compressed_span \<times> context_record) list, compression_error) result \<times> 'w" where
  "span_loop summarizer records tags now_ms span_index [] next_previous w = (Ok [], w)"
| "span_loop summarizer records tags now_ms span_index (rg # ranges) next_previous w =
     (let span_id = span_name span_index; cov = covered records rg in
      if length span_id > MAX_SPAN_ID_LEN then (Err (XE_InvalidConfig ''span id exceeds bound''), w)
      else if list_ex (\<lambda>r. cr_id r = span_id) records then (Err (XE_DuplicateId span_id), w)
      else case summarizer (summarize_input_of now_ms next_previous span_id cov) w of
        (Err e, w) \<Rightarrow> (Err e, w)
      | (Ok summary, w) \<Rightarrow>
          if str_trim summary = []
          then (Err (XE_SummarizerFailed (''summarizer returned empty text for span '' @ span_id)), w)
          else if length summary > MAX_SUMMARY_BYTES
          then (Err (XE_SummaryTooLarge MAX_SUMMARY_BYTES (length summary)), w)
          else (case span_loop summarizer records tags now_ms (span_index + 1) ranges
                       (if next_previous = None then None else Some (Some summary)) w of
                  (Err e, w) \<Rightarrow> (Err e, w)
                | (Ok rest, w) \<Rightarrow>
                    (Ok ((span_of tags now_ms span_id cov summary,
                          synthetic_of now_ms span_id cov summary) # rest), w)))"

text \<open>The view: at the start of a range its synthetic record, which skips the range; elsewhere the
  record itself. A validated range is not empty, so the larger of the next index and its end is its end.\<close>

function view_loop :: "context_record list \<Rightarrow> nat \<Rightarrow> (span_range \<times> context_record) list \<Rightarrow> context_record list" where
  "view_loop records index ranges =
     (if index < length records
      then (case ranges of
              (rg, synthetic) # rest \<Rightarrow>
                if index = sr_start rg
                then synthetic # view_loop records (max (Suc index) (sr_end rg)) rest
                else records ! index # view_loop records (index + 1) ranges
            | [] \<Rightarrow> records ! index # view_loop records (index + 1) [])
      else [])"
  by pat_completeness auto
termination
  by (relation "measure (\<lambda>(records, index, ranges). length records - index)") auto

declare view_loop.simps [simp del]

definition check_range_generations ::
  "context_record list \<Rightarrow> u64 option \<Rightarrow> span_range list \<Rightarrow> (unit, compression_error) result" where
  "check_range_generations records current_generation ranges =
     (case current_generation of
        None \<Rightarrow> Ok ()
      | Some current \<Rightarrow>
          check_all (\<lambda>r. map_err XE_Context (check_generation current r)) (concat (map (covered records) ranges)))"

definition compress_ranges_impl ::
  "context_record list \<Rightarrow> span_range list \<Rightarrow> 'w summarizer \<Rightarrow> retention_tags \<Rightarrow> u64 \<Rightarrow> u64 option
     \<Rightarrow> string option option \<Rightarrow> 'w \<Rightarrow> (compressed_view, compression_error) result \<times> 'w" where
  "compress_ranges_impl records ranges summarizer tags now_ms current_generation previous w =
     (if length records > MAX_CONTEXT_RECORDS
      then (Err (XE_Context (CE_TooManyRecords MAX_CONTEXT_RECORDS)), w)
      else case check_all (\<lambda>r. map_err XE_Context (record_validate r)) records of
        Err e \<Rightarrow> (Err e, w)
      | Ok _ \<Rightarrow> (case validate_ranges (length records) ranges of
          Err e \<Rightarrow> (Err e, w)
        | Ok _ \<Rightarrow> (case check_range_generations records current_generation ranges of
            Err e \<Rightarrow> (Err e, w)
          | Ok _ \<Rightarrow> (case span_loop summarizer records tags now_ms 0 ranges previous w of
              (Err e, w) \<Rightarrow> (Err e, w)
            | (Ok made, w) \<Rightarrow>
                (Ok \<lparr> cv_records = view_loop records 0 (zip ranges (map snd made)),
                      cv_spans = map fst made, cv_tombstones = [], cv_tags = tags \<rparr>, w)))))"

definition compress_records_at ::
  "context_record list \<Rightarrow> span_range list \<Rightarrow> 'w summarizer \<Rightarrow> retention_tags \<Rightarrow> u64 \<Rightarrow> u64 option
     \<Rightarrow> 'w \<Rightarrow> (compressed_view, compression_error) result \<times> 'w" where
  "compress_records_at records ranges summarizer tags now_ms current_generation w =
     compress_ranges_impl records ranges summarizer tags now_ms current_generation None w"

definition compress_records ::
  "context_record list \<Rightarrow> span_range list \<Rightarrow> 'w summarizer \<Rightarrow> retention_tags \<Rightarrow> u64
     \<Rightarrow> 'w \<Rightarrow> (compressed_view, compression_error) result \<times> 'w" where
  "compress_records records ranges summarizer tags now_ms w =
     compress_records_at records ranges summarizer tags now_ms None w"

section \<open>The compaction window\<close>

definition DEFAULT_RESERVE_BYTES :: nat where
  "DEFAULT_RESERVE_BYTES = 16 * 1024"

definition RESERVE_FRACTION_NUMERATOR :: nat where
  "RESERVE_FRACTION_NUMERATOR = 15"

definition RESERVE_FRACTION_DENOMINATOR :: nat where
  "RESERVE_FRACTION_DENOMINATOR = 100"

definition DEFAULT_KEEP_RECENT_BYTES :: nat where
  "DEFAULT_KEEP_RECENT_BYTES = 20 * 1024"

definition MIN_KEEP_RECORDS :: nat where
  "MIN_KEEP_RECORDS = 1"

definition DEFAULT_COMPACTION_WINDOW_BYTES :: nat where
  "DEFAULT_COMPACTION_WINDOW_BYTES = 64 * 1024"

definition DEFAULT_MAX_INEFFECTIVE_STRIKES :: u32 where
  "DEFAULT_MAX_INEFFECTIVE_STRIKES = 3"

definition MAX_INEFFECTIVE_STRIKES :: u32 where
  "MAX_INEFFECTIVE_STRIKES = 1024"

definition should_compact :: "nat \<Rightarrow> nat \<Rightarrow> nat \<Rightarrow> bool" where
  "should_compact used window reserve =
     (if used = 0 \<or> window = 0 \<or> reserve = 0 then False else saturating_add_usize used reserve > window)"

record compaction_window =
  cw_head :: "nat list"
  cw_recent :: "nat list"

text \<open>The backward walk over the numbered records, newest first; it returns the kept indices,
  newest first.\<close>

fun recent_loop :: "nat \<Rightarrow> string list \<Rightarrow> (nat \<times> context_record) list \<Rightarrow> nat list \<Rightarrow> nat \<Rightarrow> nat list" where
  "recent_loop keep_recent_bytes protected_ids [] recent kept_bytes = recent"
| "recent_loop keep_recent_bytes protected_ids ((index, record) # older) recent kept_bytes =
     (let protected = cr_id record \<in> set protected_ids;
          budget_met = length recent \<ge> MIN_KEEP_RECORDS \<and> kept_bytes \<ge> keep_recent_bytes
      in if \<not> protected \<and> budget_met
         then recent_loop keep_recent_bytes protected_ids older recent kept_bytes
         else recent_loop keep_recent_bytes protected_ids older (recent @ [index])
                (saturating_add_usize kept_bytes (footprint_bytes record)))"

text \<open>The merge of the ascending recent indices with all indices; what is left is the head.\<close>

fun head_loop :: "nat list \<Rightarrow> nat list \<Rightarrow> nat list" where
  "head_loop [] recent = []"
| "head_loop (index # rest) recent =
     (case recent of
        r # later \<Rightarrow> if r = index then head_loop rest later else index # head_loop rest recent
      | [] \<Rightarrow> index # head_loop rest [])"

definition select_compaction_window ::
  "context_record list \<Rightarrow> nat \<Rightarrow> string list \<Rightarrow> u64 option \<Rightarrow> (compaction_window, compression_error) result" where
  "select_compaction_window records keep_recent_bytes protected_ids current_generation =
     (if length records > MAX_CONTEXT_RECORDS then Err (XE_Context (CE_TooManyRecords MAX_CONTEXT_RECORDS))
      else and_then (check_all (\<lambda>r. map_err XE_Context (record_validate r)) records) (\<lambda>_.
           and_then (map_err XE_Context (check_unique {} records)) (\<lambda>_.
           and_then (case current_generation of
               None \<Rightarrow> Ok ()
             | Some current \<Rightarrow> check_all (\<lambda>r. map_err XE_Context (check_generation current r)) records) (\<lambda>_.
           let recent = rev (recent_loop keep_recent_bytes protected_ids (rev (enumerate 0 records)) [] 0)
           in Ok \<lparr> cw_head = head_loop [0..<length records] recent, cw_recent = recent \<rparr>))))"

section \<open>The compaction pass\<close>

record selective_config =
  sc_window_bytes :: nat
  sc_keep_recent_bytes :: nat
  sc_protected_ids :: "string list"
  sc_current_generation :: "u64 option"
  sc_previous_summary :: "string option"

definition selective_config_new :: "nat \<Rightarrow> selective_config" where
  "selective_config_new window_bytes =
     \<lparr> sc_window_bytes = window_bytes, sc_keep_recent_bytes = DEFAULT_KEEP_RECENT_BYTES,
       sc_protected_ids = [], sc_current_generation = None, sc_previous_summary = None \<rparr>"

datatype compaction_outcome =
  CO_Compacted nat compressed_view
| CO_NoOp
| CO_Failed string

text \<open>The maximal runs of consecutive indices.\<close>

fun run_loop :: "nat \<Rightarrow> nat \<Rightarrow> nat list \<Rightarrow> span_range list" where
  "run_loop run_start run_end [] = [\<lparr> sr_start = run_start, sr_end = run_end \<rparr>]"
| "run_loop run_start run_end (index # rest) =
     (if index = run_end then run_loop run_start (run_end + 1) rest
      else \<lparr> sr_start = run_start, sr_end = run_end \<rparr> # run_loop index (index + 1) rest)"

definition head_footprint :: "context_record list \<Rightarrow> nat list \<Rightarrow> nat" where
  "head_footprint records head =
     foldl (\<lambda>acc index. saturating_add_usize acc (footprint_bytes (records ! index))) 0 head"

definition doomed_reason :: "nat \<Rightarrow> nat \<Rightarrow> string" where
  "doomed_reason head_bytes window_bytes =
     ''compaction doomed: head '' @ show_nat head_bytes @ '' bytes plus '' @ show_nat MAX_SUMMARY_BYTES
     @ '' byte summary bound exceeds '' @ show_nat window_bytes @ '' byte window''"

definition compact_selective ::
  "context_record list \<Rightarrow> selective_config \<Rightarrow> 'w summarizer \<Rightarrow> retention_tags \<Rightarrow> u64
     \<Rightarrow> 'w \<Rightarrow> compaction_outcome \<times> 'w" where
  "compact_selective records config summarizer tags now_ms w =
     (case select_compaction_window records (sc_keep_recent_bytes config) (sc_protected_ids config)
             (sc_current_generation config) of
        Err e \<Rightarrow> (CO_Failed (compression_error_display e), w)
      | Ok window \<Rightarrow>
          (case cw_head window of
             [] \<Rightarrow> (CO_NoOp, w)
           | first # rest \<Rightarrow>
               if (case sc_previous_summary config of
                     Some previous \<Rightarrow> length previous > MAX_SUMMARY_BYTES | None \<Rightarrow> False)
               then (CO_Failed (compression_error_display (XE_SummaryTooLarge MAX_SUMMARY_BYTES
                        (length (the (sc_previous_summary config))))), w)
               else (let head_bytes = head_footprint records (cw_head window) in
                 if saturating_add_usize head_bytes MAX_SUMMARY_BYTES > sc_window_bytes config
                 then (CO_Failed (doomed_reason head_bytes (sc_window_bytes config)), w)
                 else (case compress_ranges_impl records (run_loop first (first + 1) rest) summarizer tags now_ms
                              (sc_current_generation config) (Some (sc_previous_summary config)) w of
                         (Ok v, w) \<Rightarrow> (CO_Compacted (length (cv_spans v)) v, w)
                       | (Err e, w) \<Rightarrow> (CO_Failed (compression_error_display e), w)))))"

record compaction_policy =
  cp_window_bytes :: nat
  cp_keep_recent_bytes :: nat
  cp_reserve_num :: nat
  cp_reserve_den :: nat
  cp_max_ineffective_strikes :: u32

definition compaction_policy_default :: compaction_policy where
  "compaction_policy_default =
     \<lparr> cp_window_bytes = DEFAULT_COMPACTION_WINDOW_BYTES, cp_keep_recent_bytes = DEFAULT_KEEP_RECENT_BYTES,
       cp_reserve_num = RESERVE_FRACTION_NUMERATOR, cp_reserve_den = RESERVE_FRACTION_DENOMINATOR,
       cp_max_ineffective_strikes = DEFAULT_MAX_INEFFECTIVE_STRIKES \<rparr>"

definition compaction_policy_validate :: "compaction_policy \<Rightarrow> (unit, compression_error) result" where
  "compaction_policy_validate p =
     (if cp_window_bytes p = 0 then Err (XE_InvalidConfig ''window_bytes must be non-zero'')
      else if cp_keep_recent_bytes p \<ge> cp_window_bytes p
      then Err (XE_InvalidConfig ''keep_recent_bytes must be strictly below window_bytes'')
      else if cp_reserve_den p = 0 then Err (XE_InvalidConfig ''reserve_den must be non-zero'')
      else if cp_reserve_num p = 0 then Err (XE_InvalidConfig ''reserve_num must be non-zero'')
      else if cp_reserve_num p > cp_reserve_den p
      then Err (XE_InvalidConfig ''reserve fraction must not exceed 1 (reserve_num <= reserve_den)'')
      else if cp_max_ineffective_strikes p = 0
      then Err (XE_InvalidConfig ''max_ineffective_strikes must be non-zero'')
      else if cp_max_ineffective_strikes p > MAX_INEFFECTIVE_STRIKES
      then Err (XE_InvalidConfig ''max_ineffective_strikes exceeds bound'')
      else Ok ())"

definition policy_reserve_bytes :: "compaction_policy \<Rightarrow> nat" where
  "policy_reserve_bytes p =
     (let window = cp_window_bytes p in
      if window = 0 then 0
      else (let scaled = saturating_mul_usize window (cp_reserve_num p);
                fraction = (if cp_reserve_den p = 0 then 0 else scaled div cp_reserve_den p);
                reserve = max fraction DEFAULT_RESERVE_BYTES
            in min reserve (window - 1)))"

definition effective_reserve_bytes :: "nat \<Rightarrow> nat" where
  "effective_reserve_bytes window = policy_reserve_bytes (compaction_policy_default\<lparr>cp_window_bytes := window\<rparr>)"

definition selective_config_from_policy :: "compaction_policy \<Rightarrow> selective_config" where
  "selective_config_from_policy p =
     \<lparr> sc_window_bytes = cp_window_bytes p, sc_keep_recent_bytes = cp_keep_recent_bytes p,
       sc_protected_ids = [], sc_current_generation = None, sc_previous_summary = None \<rparr>"

datatype preview_outcome = PO_WouldCompact | PO_NoOp | PO_Failed string

record compaction_preview =
  pv_head :: "nat list"
  pv_recent :: "nat list"
  pv_head_bytes :: nat
  pv_outcome :: preview_outcome

definition preview_compaction ::
  "context_record list \<Rightarrow> compaction_policy \<Rightarrow> string list \<Rightarrow> u64 option \<Rightarrow> compaction_preview" where
  "preview_compaction records policy protected_ids current_generation =
     (case compaction_policy_validate policy of
        Err e \<Rightarrow> \<lparr> pv_head = [], pv_recent = [], pv_head_bytes = 0, pv_outcome = PO_Failed (compression_error_display e) \<rparr>
      | Ok _ \<Rightarrow>
          (case select_compaction_window records (cp_keep_recent_bytes policy) protected_ids current_generation of
             Err e \<Rightarrow> \<lparr> pv_head = [], pv_recent = [], pv_head_bytes = 0, pv_outcome = PO_Failed (compression_error_display e) \<rparr>
           | Ok window \<Rightarrow>
               if cw_head window = []
               then \<lparr> pv_head = cw_head window, pv_recent = cw_recent window, pv_head_bytes = 0, pv_outcome = PO_NoOp \<rparr>
               else (let head_bytes = head_footprint records (cw_head window);
                         window_bytes = cp_window_bytes policy
                     in \<lparr> pv_head = cw_head window, pv_recent = cw_recent window, pv_head_bytes = head_bytes,
                          pv_outcome = (if saturating_add_usize head_bytes MAX_SUMMARY_BYTES > window_bytes
                                        then PO_Failed (doomed_reason head_bytes window_bytes)
                                        else PO_WouldCompact) \<rparr>)))"

definition record_ineffective :: "u64 \<Rightarrow> compaction_policy \<Rightarrow> u64 \<times> bool" where
  "record_ineffective current policy =
     (let nxt = saturating_add current 1
      in (nxt, nxt \<ge> ucast (cp_max_ineffective_strikes policy)))"

end
