(* ===== verification/Compression_Theorems.thy ===== *)
theory Compression_Theorems
  imports Compression
begin

text \<open>
  What compression guarantees: it replaces exactly the records of its ranges, marks and ranks each
  summary no better than its sources, never extends their retention as long as the policy is ordered, and
  a compaction pass keeps the recent and protected records verbatim, as the preview announces.
\<close>

section \<open>Ranges and the view\<close>

definition range_indices :: "span_range list \<Rightarrow> nat list" where
  "range_indices ranges = concat (map (\<lambda>r. [sr_start r..<sr_end r]) ranges)"

lemma range_indices_simps [simp]:
  "range_indices [] = []"
  "range_indices (r # ranges) = [sr_start r..<sr_end r] @ range_indices ranges"
  by (simp_all add: range_indices_def)

lemma validate_range_loop_Cons:
  "validate_range_loop n c (r # ranges) = Ok () \<longleftrightarrow>
     c \<le> sr_start r \<and> sr_start r < sr_end r \<and> sr_end r \<le> n \<and> validate_range_loop n (sr_end r) ranges = Ok ()"
  by (auto simp: range_is_empty_def)

lemma range_indices_bounds:
  "validate_range_loop n c ranges = Ok () \<Longrightarrow> j \<in> set (range_indices ranges) \<Longrightarrow> c \<le> j \<and> j < n"
proof (induction ranges arbitrary: c)
  case (Cons r ranges)
  from Cons.prems(1) have v: "c \<le> sr_start r" "sr_start r < sr_end r" "sr_end r \<le> n"
      "validate_range_loop n (sr_end r) ranges = Ok ()" unfolding validate_range_loop_Cons by auto
  show ?case
  proof (cases "j \<in> set (range_indices ranges)")
    case True
    with Cons.IH [OF v(4)] v show ?thesis by auto
  qed (use Cons.prems(2) v in auto)
qed simp

lemma validate_range_loop_elem:
  "validate_range_loop n c ranges = Ok () \<Longrightarrow> r \<in> set ranges \<Longrightarrow> sr_start r < sr_end r \<and> sr_end r \<le> n"
  by (induction ranges arbitrary: c) (auto simp: range_is_empty_def split: if_splits)

lemma covered_indices:
  "sr_end r \<le> length records \<Longrightarrow> covered records r = map ((!) records) [sr_start r..<sr_end r]"
  by (auto simp: covered_def intro!: nth_equalityI)

lemma covered_range_indices:
  "validate_range_loop (length records) c ranges = Ok () \<Longrightarrow>
     concat (map (covered records) ranges) = map ((!) records) (range_indices ranges)"
proof (induction ranges arbitrary: c)
  case (Cons r ranges)
  then show ?case unfolding validate_range_loop_Cons by (auto simp: covered_indices)
qed simp

text \<open>The view as a list: the records between the ranges, with each range replaced.\<close>

fun view_parts :: "context_record list \<Rightarrow> nat \<Rightarrow> (span_range \<times> context_record) list \<Rightarrow> context_record list" where
  "view_parts records i [] = map ((!) records) [i..<length records]"
| "view_parts records i ((r, s) # rest) =
     map ((!) records) [i..<sr_start r] @ s # view_parts records (sr_end r) rest"

lemma view_loop_parts:
  assumes "validate_range_loop (length records) i (map fst rs) = Ok ()" "i \<le> length records"
  shows "view_loop records i rs = view_parts records i rs"
  using assms
proof (induction records i rs rule: view_loop.induct)
  case (1 records i rs)
  show ?case
  proof (cases "i < length records")
    case False
    with 1(4,5) show ?thesis
      by (cases rs) (simp_all add: view_loop.simps [of records "length records"] range_is_empty_def split: if_splits)
  next
    case True
    show ?thesis
    proof (cases rs)
      case Nil
      have "view_loop records (i + 1) [] = view_parts records (i + 1) []"
        by (rule 1(1) [OF True Nil]) (use True in auto)
      with True Nil show ?thesis by (simp add: view_loop.simps [of records i] upt_conv_Cons)
    next
      case (Cons p rest)
      obtain r s where p: "p = (r, s)" by fastforce
      have v: "i \<le> sr_start r" "sr_start r < sr_end r" "sr_end r \<le> length records"
          "validate_range_loop (length records) (sr_end r) (map fst rest) = Ok ()"
        using 1(4) unfolding Cons p list.map fst_conv validate_range_loop_Cons by auto
      show ?thesis
      proof (cases "i = sr_start r")
        case True
        have "view_loop records (max (Suc i) (sr_end r)) rest = view_parts records (max (Suc i) (sr_end r)) rest"
          by (rule 1(2) [OF \<open>i < length records\<close> Cons p [symmetric] True]) (use v True in \<open>simp_all add: max_def\<close>)
        with True v \<open>i < length records\<close> Cons p show ?thesis
          by (simp add: view_loop.simps [of records "sr_start r"] max_def)
      next
        case False
        have "view_loop records (i + 1) rs = view_parts records (i + 1) rs"
          by (rule 1(3) [OF \<open>i < length records\<close> Cons p [symmetric] False])
             (use v False \<open>i < length records\<close> in \<open>simp_all add: Cons p validate_range_loop_Cons del: validate_range_loop.simps(2)\<close>)
        with False v \<open>i < length records\<close> Cons p show ?thesis
          by (simp add: view_loop.simps [of records i] upt_conv_Cons)
      qed
    qed
  qed
qed

lemma view_parts_filter:
  assumes "validate_range_loop (length records) i (map fst rs) = Ok ()" "i \<le> length records"
    and "\<forall>s \<in> snd ` set rs. \<not> P s" "\<forall>r \<in> set records. P r"
  shows "filter P (view_parts records i rs) =
     map ((!) records) (filter (\<lambda>j. j \<notin> set (range_indices (map fst rs))) [i..<length records])"
  using assms
proof (induction records i rs rule: view_parts.induct)
  case (1 records i)
  then show ?case by (auto simp: filter_map intro!: filter_True)
next
  case (2 records i r s rest)
  have v: "i \<le> sr_start r" "sr_start r < sr_end r" "sr_end r \<le> length records"
      "validate_range_loop (length records) (sr_end r) (map fst rest) = Ok ()"
    using 2(2) unfolding list.map fst_conv validate_range_loop_Cons by auto
  have later: "sr_end r \<le> j" if "j \<in> set (range_indices (map fst rest))" for j
    using range_indices_bounds [OF v(4) that] by simp
  let ?out = "\<lambda>j. j \<notin> set (range_indices (map fst ((r, s) # rest)))"
  have "[i..<length records] = [i..<sr_start r] @ [sr_start r..<sr_end r] @ [sr_end r..<length records]"
    using v(1-3) by (metis le_add_diff_inverse less_imp_le order_trans upt_add_eq_append)
  moreover have "filter ?out [i..<sr_start r] = [i..<sr_start r]" using later v by (force intro: filter_True)
  moreover have "filter ?out [sr_start r..<sr_end r] = []" by (auto intro: filter_False)
  moreover have "filter ?out [sr_end r..<length records] =
      filter (\<lambda>j. j \<notin> set (range_indices (map fst rest))) [sr_end r..<length records]"
    by (rule filter_cong) auto
  moreover have "filter P (map ((!) records) [i..<sr_start r]) = map ((!) records) [i..<sr_start r]"
    using 2(5) v by (intro filter_True) auto
  ultimately show ?case using 2 v by simp
qed

section \<open>Making the spans\<close>

definition spans_made ::
  "retention_tags \<Rightarrow> u64 \<Rightarrow> context_record list \<Rightarrow> nat \<Rightarrow> span_range list \<Rightarrow> string list \<Rightarrow> compressed_span list" where
  "spans_made tags now records k ranges ss =
     map (\<lambda>(i, r, t). span_of tags now (span_name i) (covered records r) t) (zip [k..<k + length ranges] (zip ranges ss))"

definition synthetics_made ::
  "u64 \<Rightarrow> context_record list \<Rightarrow> nat \<Rightarrow> span_range list \<Rightarrow> string list \<Rightarrow> context_record list" where
  "synthetics_made now records k ranges ss =
     map (\<lambda>(i, r, t). synthetic_of now (span_name i) (covered records r) t) (zip [k..<k + length ranges] (zip ranges ss))"

lemma upt_add_length: "[k..<k + length (x # xs)] = k # [Suc k..<Suc k + length xs]"
  by (simp add: upt_conv_Cons del: upt_Suc)

lemma made_simps [simp]:
  "spans_made tags now records k [] ss = []" "synthetics_made now records k [] ss = []"
  "spans_made tags now records k (r # ranges) (t # ss) =
     span_of tags now (span_name k) (covered records r) t # spans_made tags now records (Suc k) ranges ss"
  "synthetics_made now records k (r # ranges) (t # ss) =
     synthetic_of now (span_name k) (covered records r) t # synthetics_made now records (Suc k) ranges ss"
  unfolding spans_made_def synthetics_made_def upt_add_length by simp_all

lemma length_made [simp]:
  "length ss = length ranges \<Longrightarrow> length (spans_made tags now records k ranges ss) = length ranges"
  "length ss = length ranges \<Longrightarrow> length (synthetics_made now records k ranges ss) = length ranges"
  by (simp_all add: spans_made_def synthetics_made_def)

lemma span_loop_Ok:
  assumes "span_loop f records tags now k ranges prev w = (Ok made, w')"
  shows "\<exists>ss. length ss = length ranges
      \<and> map fst made = spans_made tags now records k ranges ss
      \<and> map snd made = synthetics_made now records k ranges ss
      \<and> (\<forall>t \<in> set ss. length t \<le> MAX_SUMMARY_BYTES)
      \<and> (\<forall>i. k \<le> i \<and> i < k + length ranges \<longrightarrow> span_name i \<notin> cr_id ` set records)"
  using assms
proof (induction ranges arbitrary: k prev w made)
  case (Cons r ranges)
  let ?cov = "covered records r" and ?i = "span_name k"
  obtain x w1 where x: "f (summarize_input_of now prev ?i ?cov) w = (x, w1)" by fastforce
  with Cons.prems obtain t where t: "x = Ok t" "length t \<le> MAX_SUMMARY_BYTES" "\<not> list_ex (\<lambda>r. cr_id r = ?i) records"
    by (cases x) (auto simp: Let_def split: if_splits)
  obtain y w2 where y: "span_loop f records tags now (k + 1) ranges (if prev = None then None else Some (Some t)) w1 = (y, w2)"
    by fastforce
  with Cons.prems x t(1) obtain made' where y': "y = Ok made'" "w2 = w'"
      "made = (span_of tags now ?i ?cov t, synthetic_of now ?i ?cov t) # made'"
    by (cases y) (auto simp: Let_def split: if_splits)
  have m: "span_loop f records tags now (k + 1) ranges (if prev = None then None else Some (Some t)) w1 = (Ok made', w')"
    using y y' by simp
  from Cons.IH [OF m] obtain ss where ss: "length ss = length ranges"
      "map fst made' = spans_made tags now records (Suc k) ranges ss"
      "map snd made' = synthetics_made now records (Suc k) ranges ss"
      "\<forall>t \<in> set ss. length t \<le> MAX_SUMMARY_BYTES"
      "\<And>i. Suc k \<le> i \<Longrightarrow> i < Suc k + length ranges \<Longrightarrow> span_name i \<notin> cr_id ` set records" by auto
  have "?i \<notin> cr_id ` set records" using t(3) by (auto simp: list_ex_iff)
  then have "span_name i \<notin> cr_id ` set records" if "k \<le> i" "i < k + length (r # ranges)" for i
    using that ss(5) [of i] by (cases "i = k") auto
  with ss y'(3) t(2) show ?case by (intro exI [of _ "t # ss"]) simp
qed auto

lemma compress_OkE:
  assumes "compress_ranges_impl records ranges f tags now gen prev w = (Ok v, w')"
  obtains ss where "length ss = length ranges"
    "\<forall>r \<in> set records. record_validate r = Ok ()"
    "length ranges \<le> MAX_SPANS" "validate_range_loop (length records) 0 ranges = Ok ()"
    "\<forall>t \<in> set ss. length t \<le> MAX_SUMMARY_BYTES"
    "\<And>i. i < length ranges \<Longrightarrow> span_name i \<notin> cr_id ` set records"
    "cv_spans v = spans_made tags now records 0 ranges ss"
    "cv_records v = view_parts records 0 (zip ranges (synthetics_made now records 0 ranges ss))"
    "cv_tombstones v = []" "cv_tags v = tags"
proof -
  from assms obtain made where 1: "\<forall>r \<in> set records. record_validate r = Ok ()" "length ranges \<le> MAX_SPANS"
      "validate_range_loop (length records) 0 ranges = Ok ()"
    and made: "span_loop f records tags now 0 ranges prev w = (Ok made, w')"
    and v: "v = \<lparr> cv_records = view_loop records 0 (zip ranges (map snd made)), cv_spans = map fst made,
                 cv_tombstones = [], cv_tags = tags \<rparr>"
    by (auto simp: compress_ranges_impl_def validate_ranges_def result_simps split: if_splits result.splits prod.splits)
  from span_loop_Ok [OF made] obtain ss where ss: "length ss = length ranges"
      "map fst made = spans_made tags now records 0 ranges ss"
      "map snd made = synthetics_made now records 0 ranges ss"
      "\<forall>t \<in> set ss. length t \<le> MAX_SUMMARY_BYTES"
      "\<And>i. i < length ranges \<Longrightarrow> span_name i \<notin> cr_id ` set records" by auto
  have "map fst (zip ranges (synthetics_made now records 0 ranges ss)) = ranges" by (simp add: ss(1))
  then have "view_loop records 0 (zip ranges (synthetics_made now records 0 ranges ss)) =
      view_parts records 0 (zip ranges (synthetics_made now records 0 ranges ss))"
    using 1(3) by (intro view_loop_parts) simp_all
  with that [of ss] 1 ss v show thesis by simp
qed

lemma spans_made_elem:
  assumes "length ss = length ranges" "s \<in> set (spans_made tags now records k ranges ss)"
  shows "\<exists>i r t. i < k + length ranges \<and> r \<in> set ranges \<and> t \<in> set ss
    \<and> s = span_of tags now (span_name i) (covered records r) t
    \<and> synthetic_of now (span_name i) (covered records r) t \<in> set (synthetics_made now records k ranges ss)"
  using assms
proof (induction ranges arbitrary: k ss)
  case (Cons r ranges)
  then obtain t ts where ss: "ss = t # ts" "length ts = length ranges" by (cases ss) auto
  show ?case
  proof (cases "s = span_of tags now (span_name k) (covered records r) t")
    case True
    then show ?thesis by (intro exI [of _ k] exI [of _ r] exI [of _ t]) (simp add: ss)
  next
    case False
    with Cons.prems(2) have "s \<in> set (spans_made tags now records (Suc k) ranges ts)" by (simp add: ss)
    from Cons.IH [OF ss(2) this] obtain i r' t' where "i < Suc k + length ranges" "r' \<in> set ranges" "t' \<in> set ts"
        "s = span_of tags now (span_name i) (covered records r') t'"
        "synthetic_of now (span_name i) (covered records r') t' \<in> set (synthetics_made now records (Suc k) ranges ts)"
      by blast
    then show ?thesis by (intro exI [of _ i] exI [of _ r'] exI [of _ t']) (simp add: ss)
  qed
qed simp

lemma spans_made_ids:
  "length ss = length ranges \<Longrightarrow> map cs_span_id (spans_made tags now records k ranges ss) = map span_name [k..<k + length ranges]"
  "length ss = length ranges \<Longrightarrow> map cr_id (synthetics_made now records k ranges ss) = map span_name [k..<k + length ranges]"
  "length ss = length ranges \<Longrightarrow>
     map cs_source_ids (spans_made tags now records k ranges ss) = map (\<lambda>r. map cr_id (covered records r)) ranges"
  by (auto simp: spans_made_def synthetics_made_def span_of_def synthetic_of_def intro!: nth_equalityI)

lemma synthetics_in_view:
  "length rs = length ss \<Longrightarrow> set ss \<subseteq> set (view_parts records i (zip rs ss))"
  by (induction rs ss arbitrary: i rule: list_induct2) auto

section \<open>Trust, priority and retention\<close>

definition ttl_within :: "u64 option \<Rightarrow> u64 option \<Rightarrow> bool" where
  "ttl_within a b =
     (case b of None \<Rightarrow> True
      | Some tb \<Rightarrow> tb = - 1 \<or> (case a of None \<Rightarrow> False | Some ta \<Rightarrow> ta \<le> tb))"

text \<open>A policy is ordered when no class is kept longer than a less restrictive one; a lifetime of \<open>2 ^ 64 - 1\<close>
  milliseconds never ends.\<close>

definition ordered_policy :: "retention_policy \<Rightarrow> bool" where
  "ordered_policy p \<longleftrightarrow>
     ttl_within (rp_ephemeral_ttl_ms p) (rp_normal_ttl_ms p) \<and> ttl_within (rp_normal_ttl_ms p) (rp_recent_ttl_ms p)
     \<and> ttl_within (rp_recent_ttl_ms p) (rp_pinned_ttl_ms p)"

lemma ttl_within_trans: "ttl_within a b \<Longrightarrow> ttl_within b c \<Longrightarrow> ttl_within a c"
  by (auto simp: ttl_within_def word_order.extremum_unique split: option.splits)

lemma ttl_within_refl: "ttl_within a a"
  by (auto simp: ttl_within_def split: option.splits)

lemma ordered_policy_mono:
  "ordered_policy p \<Longrightarrow> restrictiveness c \<le> restrictiveness d \<Longrightarrow> ttl_within (ttl_for p d) (ttl_for p c)"
  unfolding ordered_policy_def
  by (cases c; cases d) (auto intro: ttl_within_refl ttl_within_trans)

lemma saturating_sub_mono: "a \<le> b \<Longrightarrow> saturating_sub n b \<le> saturating_sub n a"
  by (simp add: saturating_sub_def word_le_nat_alt unat_sub) (auto simp: word_le_nat_alt unat_sub)

lemma over_ttl_within:
  assumes "ttl_within (ttl_for p d) (ttl_for p c)" "over_ttl p c at t" "t' \<le> t"
  shows "over_ttl p d at t'"
proof -
  have "saturating_sub at t \<le> saturating_sub at t'" using assms(3) by (rule saturating_sub_mono)
  moreover have "\<not> - 1 < saturating_sub at t" by (simp add: word_le_def [symmetric] not_less)
  ultimately show ?thesis using assms(1,2) by (auto simp: over_ttl_def ttl_within_def split: option.splits)
qed

lemma not_within_outlives:
  assumes "\<not> ttl_within (ttl_for p d) (ttl_for p c)"
  shows "\<exists>at. over_ttl p c at 0 \<and> \<not> over_ttl p d at 0"
proof -
  from assms obtain tb where tb: "ttl_for p c = Some tb" "tb \<noteq> - 1"
      "case ttl_for p d of None \<Rightarrow> True | Some ta \<Rightarrow> tb < ta"
    by (auto simp: ttl_within_def not_le split: option.splits)
  have "unat (tb + 1) = unat tb + 1" using unat_succ [OF tb(2)] by simp
  then have "tb < tb + 1" "tb < ta \<Longrightarrow> tb + 1 \<le> ta" for ta
    by (simp_all add: word_less_nat_alt word_le_nat_alt)
  with tb show ?thesis
    by (intro exI [of _ "tb + 1"]) (auto simp: over_ttl_def saturating_sub_def not_less split: option.splits)
qed

lemma inherit_loop_bound:
  "restrictiveness (if seen then c else RC_Pinned) \<le> restrictiveness (inherit_loop tags ids c seen)"
  "i \<in> set ids \<Longrightarrow> restrictiveness (tags_get tags i) \<le> restrictiveness (inherit_loop tags ids c seen)"
proof (induction ids arbitrary: c seen)
  case (Cons j ids)
  { case 1 show ?case using Cons.IH(1) [of True "most_restrictive c (tags_get tags j)"] Cons.IH(1) [of True "tags_get tags j"]
      by (auto simp: Let_def most_restrictive_def split: if_splits) }
  { case 2 show ?case
      using 2 Cons.IH(2) Cons.IH(1) [of True "most_restrictive c (tags_get tags j)"] Cons.IH(1) [of True "tags_get tags j"]
      by (auto simp: Let_def most_restrictive_def split: if_splits) }
qed auto

lemma inherit_loop_source: "ids \<noteq> [] \<Longrightarrow> \<exists>i \<in> set ids. tags_get tags i = inherit_loop tags ids c False"
proof -
  have *: "inherit_loop tags ids c True = c \<or> (\<exists>i \<in> set ids. tags_get tags i = inherit_loop tags ids c True)" for ids c
  proof (induction ids arbitrary: c)
    case (Cons j ids)
    show ?case using Cons.IH [of "most_restrictive c (tags_get tags j)"]
      by (auto simp: Let_def most_restrictive_def split: if_splits)
  qed simp
  assume "ids \<noteq> []"
  then obtain j js where "ids = j # js" by (cases ids) auto
  with * [of js "tags_get tags j"] show ?thesis by (auto simp: Let_def)
qed

lemma source_over_span_over:
  assumes "ordered_policy p" "c \<in> set cov" "record_over p at tags c"
  shows "span_over p at (span_of tags now i cov t)"
proof -
  let ?cl = "inherit_retention (map cr_id cov) tags" and ?d = "Min (set (map cr_collected_at_ms cov))"
  have "restrictiveness (tags_get tags (cr_id c)) \<le> restrictiveness ?cl"
    unfolding inherit_retention_def by (rule inherit_loop_bound(2)) (use assms(2) in simp)
  then have "ttl_within (ttl_for p ?cl) (ttl_for p (tags_get tags (cr_id c)))"
    by (rule ordered_policy_mono [OF assms(1)])
  moreover have "?d \<le> cr_collected_at_ms c" using assms(2) by (intro Min_le) auto
  ultimately have "over_ttl p ?cl at ?d" by (rule over_ttl_within [OF _ assms(3) [unfolded record_over_def]])
  moreover have "cov \<noteq> []" using assms(2) by auto
  ultimately show ?thesis by (simp add: span_over_def span_of_def)
qed

text \<open>For every other policy there are two records of which one expires before their summary.\<close>

definition plain_record :: "string \<Rightarrow> context_record" where
  "plain_record i = \<lparr> cr_id = i, cr_provider = ''git'', cr_owner = StableId ''t'', cr_generation = 0, cr_collected_at_ms = 0,
     cr_priority = CP_Normal, cr_summary = ''note'', cr_body = RB_Inline [], cr_supersedes = None,
     cr_is_untrusted_surface = False \<rparr>"

lemma unordered_policy_outlives:
  assumes "\<not> ordered_policy p"
  shows "\<exists>tags cov at. (\<forall>r \<in> set cov. record_validate r = Ok ()) \<and> (\<exists>r \<in> set cov. record_over p at tags r)
           \<and> (\<forall>now i t. \<not> span_over p at (span_of tags now i cov t))"
proof -
  from assms obtain c d where cd: "\<not> ttl_within (ttl_for p d) (ttl_for p c)" "restrictiveness c < restrictiveness d"
  proof -
    from assms consider "\<not> ttl_within (ttl_for p RC_Ephemeral) (ttl_for p RC_Normal)"
      | "\<not> ttl_within (ttl_for p RC_Normal) (ttl_for p RC_Recent)"
      | "\<not> ttl_within (ttl_for p RC_Recent) (ttl_for p RC_Pinned)"
      by (auto simp: ordered_policy_def)
    then show ?thesis by cases (rule that, assumption, simp)+
  qed
  from not_within_outlives [OF cd(1)] obtain at where at: "over_ttl p c at 0" "\<not> over_ttl p d at 0" by blast
  let ?tags = "[(''a'', c), (''b'', d)]" and ?cov = "[plain_record ''a'', plain_record ''b'']"
  have "cs_retention (span_of ?tags now i ?cov t) = d \<and> cs_source_deadline_ms (span_of ?tags now i ?cov t) = 0" for now i t
    using cd(2) by (simp add: span_of_def plain_record_def inherit_retention_def tags_get_def most_restrictive_def Let_def)
  with at(2) have "\<not> span_over p at (span_of ?tags now i ?cov t)" for now i t by (simp add: span_over_def)
  moreover have "record_over p at ?tags (plain_record ''a'')"
    using at(1) by (simp add: record_over_def plain_record_def tags_get_def)
  moreover have "\<forall>r \<in> set ?cov. record_validate r = Ok ()"
    by (simp add: plain_record_def record_validate_def KNOWN_PROVIDERS_def MAX_SUMMARY_BYTES_def MAX_RECORD_BODY_BYTES_def)
  ultimately show ?thesis by (intro exI [of _ ?tags] exI [of _ ?cov] exI [of _ at]) auto
qed

lemma synthetic_valid:
  assumes "cov \<noteq> []" "\<forall>r \<in> set cov. record_validate r = Ok ()" "length t \<le> MAX_SUMMARY_BYTES"
  shows "record_validate (synthetic_of now i cov t) = Ok ()"
proof -
  have "record_validate (cov ! 0) = Ok ()" using assms(1,2) by simp
  with assms(3) show ?thesis
    by (auto simp: record_validate_def synthetic_of_def split: if_splits record_body.splits)
qed

lemma synthetic_priority:
  assumes "c \<in> set cov"
  shows "effective_priority (synthetic_of now i cov t) \<le> effective_priority c"
proof -
  have "Min (set (map effective_priority cov)) \<le> effective_priority c" using assms by (intro Min_le) auto
  moreover have "effective_priority r \<le> cr_priority r" for r by (simp add: effective_priority_def)
  moreover have "cr_priority (synthetic_of now i cov t) = Min (set (map effective_priority cov))"
    using assms by (auto simp: synthetic_of_def)
  ultimately show ?thesis by (metis order_trans)
qed

lemma span_retention:
  assumes "cov \<noteq> []"
  shows "\<exists>c \<in> set cov. tags_get tags (cr_id c) = cs_retention (span_of tags now i cov t)"
    and "c \<in> set cov \<Longrightarrow> restrictiveness (tags_get tags (cr_id c)) \<le> restrictiveness (cs_retention (span_of tags now i cov t))"
    and "cs_source_deadline_ms (span_of tags now i cov t) = Min (cr_collected_at_ms ` set cov)"
  using inherit_loop_source [of "map cr_id cov" tags RC_Pinned]
    inherit_loop_bound(2) [of "cr_id c" "map cr_id cov" tags RC_Pinned False] assms
  by (auto simp: span_of_def inherit_retention_def)

text \<open>What a span has to be for the records it covers.\<close>

definition span_honest :: "retention_tags \<Rightarrow> context_record list \<Rightarrow> compressed_view \<Rightarrow> compressed_span \<Rightarrow> bool" where
  "span_honest tags cov v s \<longleftrightarrow>
     cs_source_ids s = map cr_id cov
     \<and> (\<exists>syn \<in> set (cv_records v).
          cr_id syn = cs_span_id s \<and> cr_summary syn = cs_summary s \<and> cr_supersedes syn = None
          \<and> record_validate syn = Ok ()
          \<and> (cr_is_untrusted_surface syn \<longleftrightarrow> (\<exists>c \<in> set cov. cr_is_untrusted_surface c))
          \<and> (\<forall>c \<in> set cov. effective_priority syn \<le> effective_priority c))
     \<and> (\<exists>c \<in> set cov. tags_get tags (cr_id c) = cs_retention s)
     \<and> (\<forall>c \<in> set cov. restrictiveness (tags_get tags (cr_id c)) \<le> restrictiveness (cs_retention s))
     \<and> cs_source_deadline_ms s = Min (cr_collected_at_ms ` set cov)"

lemma compress_span_honest:
  assumes "compress_ranges_impl records ranges f tags now gen prev w = (Ok v, w')" "s \<in> set (cv_spans v)"
  shows "\<exists>r \<in> set ranges. covered records r \<noteq> [] \<and> span_honest tags (covered records r) v s
     \<and> (\<forall>p at. ordered_policy p \<longrightarrow> (\<exists>c \<in> set (covered records r). record_over p at tags c) \<longrightarrow> span_over p at s)"
proof -
  from assms(1) show ?thesis
  proof (rule compress_OkE)
    fix ss
    assume ss: "length ss = length ranges" "\<forall>r \<in> set records. record_validate r = Ok ()"
      "validate_range_loop (length records) 0 ranges = Ok ()" "\<forall>t \<in> set ss. length t \<le> MAX_SUMMARY_BYTES"
      "cv_spans v = spans_made tags now records 0 ranges ss"
      "cv_records v = view_parts records 0 (zip ranges (synthetics_made now records 0 ranges ss))"
    from assms(2) ss(5) spans_made_elem [OF ss(1)] obtain i r t where
      e: "r \<in> set ranges" "t \<in> set ss" "s = span_of tags now (span_name i) (covered records r) t"
        "synthetic_of now (span_name i) (covered records r) t \<in> set (synthetics_made now records 0 ranges ss)"
      by metis
    let ?cov = "covered records r" and ?syn = "synthetic_of now (span_name i) (covered records r) t"
    have "sr_start r < sr_end r \<and> sr_end r \<le> length records"
      using validate_range_loop_elem [OF ss(3) e(1)] .
    then have cov: "?cov \<noteq> []" "set ?cov \<subseteq> set records"
      by (auto simp: covered_def dest: in_set_takeD in_set_dropD)
    have syn: "?syn \<in> set (cv_records v)"
      using e(4) synthetics_in_view [of ranges "synthetics_made now records 0 ranges ss"] ss(1,6) by auto
    have "record_validate ?syn = Ok ()" using cov ss(2,4) e(2) by (intro synthetic_valid) auto
    with syn have "span_honest tags ?cov v s"
      unfolding span_honest_def e(3)
      by (intro conjI bexI [of _ ?syn] ballI span_retention(1) span_retention(2) span_retention(3) synthetic_priority cov(1))
         (auto simp: span_of_def synthetic_of_def filter_empty_conv)
    moreover have "\<forall>p at. ordered_policy p \<longrightarrow> (\<exists>c \<in> set ?cov. record_over p at tags c) \<longrightarrow> span_over p at s"
      using source_over_span_over unfolding e(3) by blast
    ultimately show ?thesis using e(1) cov(1) by blast
  qed
qed

lemma compress_view_passthrough:
  assumes "compress_ranges_impl records ranges f tags now gen prev w = (Ok v, w')"
  shows "filter (\<lambda>r. cr_id r \<notin> cs_span_id ` set (cv_spans v)) (cv_records v)
      = map ((!) records) (filter (\<lambda>j. j \<notin> set (range_indices ranges)) [0..<length records])
    \<and> concat (map cs_source_ids (cv_spans v)) = map (\<lambda>j. cr_id (records ! j)) (range_indices ranges)"
  using assms
proof (rule compress_OkE)
  fix ss
  assume ss: "length ss = length ranges" "validate_range_loop (length records) 0 ranges = Ok ()"
    "\<And>i. i < length ranges \<Longrightarrow> span_name i \<notin> cr_id ` set records"
    "cv_spans v = spans_made tags now records 0 ranges ss"
    "cv_records v = view_parts records 0 (zip ranges (synthetics_made now records 0 ranges ss))"
  let ?syn = "synthetics_made now records 0 ranges ss"
  have ids: "cs_span_id ` set (cv_spans v) = span_name ` {..<length ranges}"
    using spans_made_ids(1) [OF ss(1), of tags now records 0] by (metis add_0 atLeast_upt image_set lessThan_atLeast0 ss(4) set_upt)
  have syn: "cr_id ` set ?syn = span_name ` {..<length ranges}"
    using spans_made_ids(2) [OF ss(1), of now records 0] by (metis add_0 image_set lessThan_atLeast0 set_upt)
  have fst: "map fst (zip ranges ?syn) = ranges" by (simp add: ss(1))
  have made: "\<forall>x \<in> snd ` set (zip ranges ?syn). \<not> cr_id x \<notin> span_name ` {..<length ranges}"
    unfolding syn [symmetric] by (auto dest: set_zip_rightD)
  have kept: "\<forall>r \<in> set records. cr_id r \<notin> span_name ` {..<length ranges}"
    using ss(3) by (metis imageE image_eqI lessThan_iff)
  have "filter (\<lambda>r. cr_id r \<notin> cs_span_id ` set (cv_spans v)) (cv_records v)
      = map ((!) records) (filter (\<lambda>j. j \<notin> set (range_indices (map fst (zip ranges ?syn)))) [0..<length records])"
    unfolding ss(5) ids by (rule view_parts_filter) (use ss(2) made kept fst in simp_all)
  moreover have "concat (map cs_source_ids (cv_spans v)) = map cr_id (concat (map (covered records) ranges))"
    using spans_made_ids(3) [OF ss(1), of tags now records 0] by (simp add: ss(4) map_concat comp_def)
  ultimately show ?thesis
    using covered_range_indices [OF ss(2)] fst by simp
qed

section \<open>The compaction window\<close>

lemma recent_loop_set:
  "set (recent_loop keep ids xs acc b) \<subseteq> set acc \<union> fst ` set xs"
  "set acc \<subseteq> set (recent_loop keep ids xs acc b)"
  "(j, r) \<in> set xs \<Longrightarrow> cr_id r \<in> set ids \<Longrightarrow> j \<in> set (recent_loop keep ids xs acc b)"
proof (induction xs arbitrary: acc b)
  case (Cons x xs)
  obtain i q where x: "x = (i, q)" by fastforce
  { case 1 show ?case using Cons.IH(1) [of acc b] Cons.IH(1) [of "acc @ [i]" "saturating_add_usize b (footprint_bytes q)"]
      by (auto simp: x Let_def) }
  { case 2 show ?case using Cons.IH(2) [of acc b] Cons.IH(2) [of "acc @ [i]" "saturating_add_usize b (footprint_bytes q)"]
      by (auto simp: x Let_def) }
  { case 3
    show ?case
    proof (cases "(j, r) = x")
      case True
      then show ?thesis
        using 3(2) Cons.IH(2) [of "acc @ [i]" "saturating_add_usize b (footprint_bytes q)"] by (auto simp: x Let_def)
    next
      case False
      then show ?thesis using 3 Cons.IH(3) by (auto simp: x Let_def)
    qed }
qed auto

lemma recent_loop_sorted:
  assumes "sorted_wrt (>) (map fst xs)" "sorted_wrt (>) (acc :: nat list)" "\<forall>i \<in> set acc. \<forall>j \<in> fst ` set xs. i > j"
  shows "sorted_wrt (>) (recent_loop keep ids xs acc b)"
  using assms
proof (induction xs arbitrary: acc b)
  case (Cons x xs)
  obtain i q where x: "x = (i, q)" by fastforce
  have "sorted_wrt (>) (recent_loop keep ids xs acc b)" by (rule Cons.IH) (use Cons.prems x in auto)
  moreover have "sorted_wrt (>) (recent_loop keep ids xs (acc @ [i]) b')" for b'
    by (rule Cons.IH) (use Cons.prems x in \<open>auto simp: sorted_wrt_append\<close>)
  ultimately show ?case by (simp add: x Let_def)
qed simp

lemma head_loop_eq:
  "sorted_wrt (<) (xs :: nat list) \<Longrightarrow> sorted_wrt (<) recent \<Longrightarrow> set recent \<subseteq> set xs \<Longrightarrow>
     head_loop xs recent = filter (\<lambda>j. j \<notin> set recent) xs"
proof (induction xs arbitrary: recent)
  case (Cons i xs)
  have xs: "sorted_wrt (<) xs" "\<forall>x \<in> set xs. i < x" using Cons.prems(1) by auto
  show ?case
  proof (cases recent)
    case Nil
    then show ?thesis using Cons.IH [of "[]"] xs by simp
  next
    case (Cons r later)
    have later: "sorted_wrt (<) later" "\<forall>x \<in> set later. r < x" using \<open>sorted_wrt (<) recent\<close> by (auto simp: Cons)
    show ?thesis
    proof (cases "r = i")
      case True
      then have "set later \<subseteq> set xs" using Cons.prems(3) later(2) by (auto simp: Cons)
      then have "head_loop xs later = filter (\<lambda>j. j \<notin> set later) xs" using Cons.IH xs later by blast
      moreover have "filter (\<lambda>j. j \<notin> set recent) xs = filter (\<lambda>j. j \<notin> set later) xs"
        using xs(2) True by (intro filter_cong) (auto simp: Cons)
      ultimately show ?thesis using True by (simp add: Cons)
    next
      case False
      then have "i < r" using Cons.prems(3) xs(2) by (auto simp: Cons)
      with later(2) have i: "i \<notin> set recent" by (auto simp: Cons)
      with Cons.prems(3) have "set recent \<subseteq> set xs" by auto
      then have "head_loop xs recent = filter (\<lambda>j. j \<notin> set recent) xs" using Cons.IH xs Cons.prems(2) by blast
      with False i show ?thesis by (simp add: Cons)
    qed
  qed
qed simp

text \<open>The maximal runs cover exactly the indices they were made from, and are valid ranges.\<close>

lemma run_loop_indices:
  assumes "a < b" "sorted_wrt (<) rest" "\<forall>j \<in> set rest. b \<le> j"
  shows "range_indices (run_loop a b rest) = [a..<b] @ rest"
  using assms
proof (induction rest arbitrary: a b)
  case (Cons j rest)
  show ?case
  proof (cases "j = b")
    case True
    with Cons show ?thesis by (auto simp: less_eq_Suc_le)
  next
    case False
    with Cons show ?thesis by (auto simp: less_eq_Suc_le)
  qed
qed simp

lemma run_loop_valid:
  assumes "a < b" "b \<le> n" "c \<le> a" "sorted_wrt (<) rest" "\<forall>j \<in> set rest. b \<le> j \<and> j < n"
  shows "validate_range_loop n c (run_loop a b rest) = Ok ()"
  using assms
proof (induction rest arbitrary: a b c)
  case (Cons j rest)
  show ?case
  proof (cases "j = b")
    case True
    with Cons show ?thesis by (auto simp: less_eq_Suc_le)
  next
    case False
    with Cons show ?thesis by (auto simp: less_eq_Suc_le range_is_empty_def)
  qed
qed (simp add: range_is_empty_def)

text \<open>The specification of the window: recent and head partition the indices, and the recent ones
  include the newest record and every protected one.\<close>

definition window_ok :: "context_record list \<Rightarrow> string list \<Rightarrow> compaction_window \<Rightarrow> bool" where
  "window_ok records ids win \<longleftrightarrow>
     sorted_wrt (<) (cw_recent win) \<and> set (cw_recent win) \<subseteq> {..<length records}
     \<and> cw_head win = filter (\<lambda>j. j \<notin> set (cw_recent win)) [0..<length records]
     \<and> (\<forall>j < length records. cr_id (records ! j) \<in> set ids \<longrightarrow> j \<in> set (cw_recent win))
     \<and> (records \<noteq> [] \<longrightarrow> length records - 1 \<in> set (cw_recent win))"

lemma select_window_ok:
  assumes "select_compaction_window records keep ids gen = Ok win"
  shows "window_ok records ids win"
proof -
  let ?xs = "rev (enumerate 0 records)"
  let ?rec = "recent_loop keep ids ?xs [] 0"
  have win: "win = \<lparr> cw_head = head_loop [0..<length records] (rev ?rec), cw_recent = rev ?rec \<rparr>"
    using assms by (auto simp: select_compaction_window_def result_simps Let_def split: if_splits)
  have sub: "set ?rec \<subseteq> {..<length records}"
    using recent_loop_set(1) [of keep ids ?xs "[]" 0] by (auto simp: in_set_enumerate_eq)
  have "sorted_wrt (>) (map fst ?xs)"
    by (simp add: rev_map [symmetric] sorted_wrt_rev)
  then have "sorted_wrt (>) ?rec" by (intro recent_loop_sorted) auto
  then have sorted: "sorted_wrt (<) (rev ?rec)" by (simp add: sorted_wrt_rev)
  have prot: "j \<in> set ?rec" if "j < length records" "cr_id (records ! j) \<in> set ids" for j
    using that by (intro recent_loop_set(3)) (auto simp: in_set_enumerate_eq)
  have newest: "length records - 1 \<in> set ?rec" if "records \<noteq> []"
  proof -
    from that obtain rs r where r: "records = rs @ [r]" by (metis rev_exhaust)
    then have "?xs = (length rs, r) # rev (enumerate 0 rs)" by (simp add: enumerate_append_eq)
    then show ?thesis
      using recent_loop_set(2) [of "[length rs]" keep ids "rev (enumerate 0 rs)"] r
      by (auto simp: Let_def MIN_KEEP_RECORDS_def)
  qed
  have "head_loop [0..<length records] (rev ?rec) = filter (\<lambda>j. j \<notin> set (rev ?rec)) [0..<length records]"
    using sorted sub by (intro head_loop_eq) auto
  with sub sorted prot newest show ?thesis by (simp add: win window_ok_def)
qed

section \<open>The compaction pass\<close>

lemma compact_selective_CompactedE:
  assumes "compact_selective records cfg f tags now w = (CO_Compacted n v, w')"
  obtains win first rest where
    "select_compaction_window records (sc_keep_recent_bytes cfg) (sc_protected_ids cfg) (sc_current_generation cfg) = Ok win"
    "cw_head win = first # rest"
    "compress_ranges_impl records (run_loop first (first + 1) rest) f tags now (sc_current_generation cfg)
       (Some (sc_previous_summary cfg)) w = (Ok v, w')"
    "n = length (cv_spans v)"
proof -
  obtain win where win: "select_compaction_window records (sc_keep_recent_bytes cfg) (sc_protected_ids cfg)
      (sc_current_generation cfg) = Ok win"
    using assms by (cases "select_compaction_window records (sc_keep_recent_bytes cfg) (sc_protected_ids cfg)
      (sc_current_generation cfg)") (auto simp: compact_selective_def)
  obtain first rest where head: "cw_head win = first # rest"
    using assms win by (cases "cw_head win") (auto simp: compact_selective_def)
  let ?c = "compress_ranges_impl records (run_loop first (first + 1) rest) f tags now (sc_current_generation cfg)
       (Some (sc_previous_summary cfg)) w"
  obtain x w1 where c: "?c = (x, w1)" by fastforce
  then obtain v1 where "x = Ok v1"
    using assms win head by (cases x) (auto simp: compact_selective_def Let_def split: if_splits)
  with assms win head c have "?c = (Ok v, w')" "n = length (cv_spans v)"
    by (auto simp: compact_selective_def Let_def split: if_splits)
  with win head show thesis by (rule that)
qed

lemma run_loop_head:
  assumes "cw_head win = first # rest" "window_ok records ids win"
  shows "range_indices (run_loop first (first + 1) rest) = cw_head win"
proof -
  have "sorted_wrt (<) (filter (\<lambda>j. j \<notin> set (cw_recent win)) [0..<length records])"
    by (rule sorted_wrt_filter) simp
  then have "sorted_wrt (<) (first # rest)" using assms by (simp add: window_ok_def)
  then have "range_indices (run_loop first (Suc first) rest) = [first..<Suc first] @ rest"
    by (intro run_loop_indices) auto
  then show ?thesis by (simp add: assms(1))
qed

lemma window_recent_eq:
  assumes "window_ok records ids win"
  shows "filter (\<lambda>j. j \<notin> set (cw_head win)) [0..<length records] = cw_recent win"
proof -
  let ?l = "filter (\<lambda>j. j \<notin> set (cw_head win)) [0..<length records]"
  have "sorted_wrt (<) ?l" by (rule sorted_wrt_filter) simp
  moreover have "sorted_wrt (<) (cw_recent win)" using assms by (simp add: window_ok_def)
  moreover have "set ?l = set (cw_recent win)" using assms by (auto simp: window_ok_def)
  ultimately show ?thesis by (metis strict_sorted_equal)
qed

lemma run_loop_nonempty: "run_loop a b rest \<noteq> []"
  by (induction a b rest rule: run_loop.induct) auto

lemma compacted_has_first_name:
  assumes "compact_selective records cfg f tags now w = (CO_Compacted n v, w')"
  shows "0 < n \<and> span_name 0 \<notin> cr_id ` set records \<and> span_name 0 \<in> cr_id ` set (cv_records v)"
  using assms
proof (rule compact_selective_CompactedE)
  fix win first rest
  assume c: "compress_ranges_impl records (run_loop first (first + 1) rest) f tags now (sc_current_generation cfg)
      (Some (sc_previous_summary cfg)) w = (Ok v, w')" and n: "n = length (cv_spans v)"
  let ?R = "run_loop first (first + 1) rest"
  have pos: "0 < length ?R" using run_loop_nonempty by simp
  from c show ?thesis
  proof (rule compress_OkE)
    fix ss
    assume ss: "length ss = length ?R" "\<And>i. i < length ?R \<Longrightarrow> span_name i \<notin> cr_id ` set records"
      "cv_spans v = spans_made tags now records 0 ?R ss"
      "cv_records v = view_parts records 0 (zip ?R (synthetics_made now records 0 ?R ss))"
    have "set (map cr_id (synthetics_made now records 0 ?R ss)) = span_name ` {..<length ?R}"
      unfolding spans_made_ids(2) [OF ss(1)] by auto
    moreover have "span_name 0 \<in> span_name ` {..<length ?R}" using pos by blast
    ultimately have "span_name 0 \<in> cr_id ` set (synthetics_made now records 0 ?R ss)" by simp
    then have "span_name 0 \<in> cr_id ` set (cv_records v)"
      unfolding ss(4) using synthetics_in_view [of ?R "synthetics_made now records 0 ?R ss" records 0] ss(1)
      by (metis image_mono length_made(2) subsetD)
    with ss(1,2,3) pos n show ?thesis by simp
  qed
qed

text \<open>
  C37. A compaction pass that succeeds leaves the recent records, among them the newest and every protected
  one, verbatim and in order, and its spans carry exactly the ids of the other records in order.
\<close>

theorem compaction_keeps_tail:
  assumes "compact_selective records cfg f tags now w = (CO_Compacted n v, w')"
  shows "\<exists>win. select_compaction_window records (sc_keep_recent_bytes cfg) (sc_protected_ids cfg)
             (sc_current_generation cfg) = Ok win
     \<and> window_ok records (sc_protected_ids cfg) win \<and> n = length (cv_spans v)
     \<and> filter (\<lambda>r. cr_id r \<notin> cs_span_id ` set (cv_spans v)) (cv_records v) = map ((!) records) (cw_recent win)
     \<and> concat (map cs_source_ids (cv_spans v)) = map (\<lambda>j. cr_id (records ! j)) (cw_head win)"
  using assms
proof (rule compact_selective_CompactedE)
  fix win first rest
  assume win: "select_compaction_window records (sc_keep_recent_bytes cfg) (sc_protected_ids cfg)
      (sc_current_generation cfg) = Ok win" and head: "cw_head win = first # rest"
    and c: "compress_ranges_impl records (run_loop first (first + 1) rest) f tags now (sc_current_generation cfg)
      (Some (sc_previous_summary cfg)) w = (Ok v, w')" and n: "n = length (cv_spans v)"
  from win have ok: "window_ok records (sc_protected_ids cfg) win" by (rule select_window_ok)
  from compress_view_passthrough [OF c] run_loop_head [OF head ok] window_recent_eq [OF ok] win ok n
  show ?thesis by auto
qed

text \<open>
  C40. A compacted view cannot be compacted again: it holds a record named like the first span of the next
  pass, so every further pass over its records, with whatever records are added, fails or does nothing.
\<close>

theorem chained_compaction_refused:
  assumes "compact_selective records cfg f tags now w = (CO_Compacted n v, w')"
  shows "fst (compact_selective (cv_records v @ later) cfg2 f2 tags2 now2 w2) \<noteq> CO_Compacted m v2"
proof
  assume "fst (compact_selective (cv_records v @ later) cfg2 f2 tags2 now2 w2) = CO_Compacted m v2"
  then have "compact_selective (cv_records v @ later) cfg2 f2 tags2 now2 w2 =
      (CO_Compacted m v2, snd (compact_selective (cv_records v @ later) cfg2 f2 tags2 now2 w2))"
    by (metis prod.collapse)
  from compacted_has_first_name [OF this] compacted_has_first_name [OF assms] show False by auto
qed

text \<open>
  The preview says what the pass would do before it reaches the summarizer: where it announces nothing
  to do or a refusal, the pass ends so, with the same reason and without calling the summarizer.
\<close>

theorem preview_agrees:
  assumes "compaction_policy_validate policy = Ok ()"
    and "cfg = (selective_config_from_policy policy)\<lparr>sc_protected_ids := ids, sc_current_generation := gen\<rparr>"
  shows "(case pv_outcome (preview_compaction records policy ids gen) of
            PO_NoOp \<Rightarrow> compact_selective records cfg f tags now w = (CO_NoOp, w)
          | PO_Failed reason \<Rightarrow> compact_selective records cfg f tags now w = (CO_Failed reason, w)
          | PO_WouldCompact \<Rightarrow>
              (\<exists>first rest. pv_head (preview_compaction records policy ids gen) = first # rest
                 \<and> compact_selective records cfg f tags now w =
                     (case compress_ranges_impl records (run_loop first (first + 1) rest) f tags now gen (Some None) w of
                        (Ok v, w1) \<Rightarrow> (CO_Compacted (length (cv_spans v)) v, w1)
                      | (Err e, w1) \<Rightarrow> (CO_Failed (compression_error_display e), w1))))"
proof (cases "select_compaction_window records (cp_keep_recent_bytes policy) ids gen")
  case (Ok win)
  then show ?thesis
    using assms
    by (cases "cw_head win")
       (auto simp: preview_compaction_def compact_selective_def selective_config_from_policy_def Let_def)
next
  case (Err e)
  then show ?thesis
    using assms by (simp add: preview_compaction_def compact_selective_def selective_config_from_policy_def)
qed

section \<open>Breakpoints\<close>

text \<open>A span of the packing: within the cap, or a single record with a footprint at its end.\<close>

definition span_packed :: "nat \<Rightarrow> context_record list \<Rightarrow> bool" where
  "span_packed cap cov \<longleftrightarrow>
     cov \<noteq> [] \<and> (sum_list (map footprint_bytes cov) \<le> cap \<or> sum_list (map footprint_bytes (butlast cov)) = 0)"

text \<open>The state of the loop: the closed ranges are packed and end where the open span starts, which
  holds \<open>used\<close> bytes.\<close>

definition packing :: "nat \<Rightarrow> context_record list \<Rightarrow> nat \<Rightarrow> span_range list \<Rightarrow> nat \<Rightarrow> nat \<Rightarrow> bool" where
  "packing cap records index ranges start used \<longleftrightarrow>
     range_indices ranges = [0..<start] \<and> start \<le> index \<and> index \<le> length records
     \<and> (start < index \<or> start = 0 \<and> index = 0)
     \<and> (\<forall>r \<in> set ranges. sr_start r < sr_end r \<and> span_packed cap (covered records r))
     \<and> used = sum_list (map footprint_bytes (take (index - start) (drop start records)))
     \<and> (start < index \<longrightarrow> span_packed cap (take (index - start) (drop start records)))"

lemma open_span_extend:
  assumes "start \<le> index" "index < length records"
  shows "take (Suc index - start) (drop start records) = take (index - start) (drop start records) @ [records ! index]"
proof -
  have "index - start < length (drop start records)" "Suc index - start = Suc (index - start)"
    using assms by simp_all
  then show ?thesis using assms by (simp add: take_Suc_conv_app_nth)
qed

lemma packing_close:
  assumes "packing cap records index ranges start used" "0 < used" "index < length records"
  shows "packing cap records (Suc index) (ranges @ [\<lparr> sr_start = start, sr_end = index \<rparr>]) index
     (footprint_bytes (records ! index))"
proof -
  have p: "range_indices ranges = [0..<start]" "start \<le> index"
      "\<forall>r \<in> set ranges. sr_start r < sr_end r \<and> span_packed cap (covered records r)"
      "used = sum_list (map footprint_bytes (take (index - start) (drop start records)))"
      "start < index \<longrightarrow> span_packed cap (take (index - start) (drop start records))"
    using assms(1) by (auto simp: packing_def)
  have lt: "start < index" using p(2,4) assms(2) by (cases "start = index") auto
  have idx: "range_indices (ranges @ [\<lparr> sr_start = start, sr_end = index \<rparr>]) = [0..<index]"
    using p(1,2) upt_add_eq_append [of 0 start "index - start"] by (simp add: range_indices_def)
  have one: "take (Suc index - index) (drop index records) = [records ! index]"
    using open_span_extend [of index index records] assms(3) by simp
  have cov: "covered records \<lparr> sr_start = start, sr_end = index \<rparr> = take (index - start) (drop start records)"
    by (simp add: covered_def)
  show ?thesis unfolding packing_def one
    using idx p(3,5) lt assms(3) by (auto simp: cov span_packed_def)
qed

lemma packing_extend:
  assumes "packing cap records index ranges start used" "index < length records"
    and "\<not> (0 < used \<and> used + footprint_bytes (records ! index) > cap)"
  shows "packing cap records (Suc index) ranges start (used + footprint_bytes (records ! index))"
proof -
  have p: "start \<le> index" "used = sum_list (map footprint_bytes (take (index - start) (drop start records)))"
    using assms(1) by (auto simp: packing_def)
  have "span_packed cap (take (Suc index - start) (drop start records))"
    unfolding open_span_extend [OF p(1) assms(2)] span_packed_def using assms(3) p(2) by auto
  then show ?thesis
    using assms(1,2) p unfolding packing_def open_span_extend [OF p(1) assms(2)] by auto
qed

lemma breakpoint_loop_packing:
  assumes "breakpoint_loop cap index rest ranges start used = Ok (ranges', start')"
    and "packing cap records index ranges start used" "rest = drop index records"
  shows "\<exists>used'. packing cap records (length records) ranges' start' used'"
  using assms
proof (induction rest arbitrary: index ranges start used)
  case Nil
  then show ?case by (auto simp: packing_def)
next
  case (Cons x rest)
  then have i: "index < length records" and x: "x = records ! index" and rest: "rest = drop (Suc index) records"
    by (metis drop_all leI list.distinct(1), metis hd_drop_conv_nth list.sel(1) drop_all leI list.distinct(1),
        metis drop_Suc list.sel(3) tl_drop)
  show ?case
  proof (cases "0 < used \<and> used + footprint_bytes x > cap")
    case True
    with Cons.prems(1) have "breakpoint_loop cap (index + 1) rest (ranges @ [\<lparr> sr_start = start, sr_end = index \<rparr>]) index
        (footprint_bytes x) = Ok (ranges', start')"
      by (auto simp: Let_def split: if_splits)
    from Cons.IH [OF this] packing_close [OF Cons.prems(2) _ i] True rest x show ?thesis by simp
  next
    case False
    with Cons.prems(1) have "breakpoint_loop cap (index + 1) rest ranges start (used + footprint_bytes x) = Ok (ranges', start')"
      by (auto simp: Let_def split: if_splits)
    from Cons.IH [OF this] packing_extend [OF Cons.prems(2) i] False rest x show ?thesis by simp
  qed
qed

lemma range_indices_valid:
  "range_indices ranges = [c..<n] \<Longrightarrow> \<forall>r \<in> set ranges. sr_start r < sr_end r \<Longrightarrow> c \<le> n \<Longrightarrow>
     validate_range_loop n c ranges = Ok ()"
proof (induction ranges arbitrary: c)
  case (Cons r ranges)
  have lt: "sr_start r < sr_end r" using Cons.prems(2) by simp
  have eq: "[sr_start r..<sr_end r] @ range_indices ranges = [c..<n]" using Cons.prems(1) by simp
  have len: "length [sr_start r..<sr_end r] \<le> length [c..<n]" by (simp only: eq [symmetric] length_append)
  have hd: "sr_start r = c"
  proof -
    have "hd ([sr_start r..<sr_end r] @ range_indices ranges) = sr_start r" using lt by (simp add: upt_conv_Cons)
    moreover have "c < n" using len lt by simp
    ultimately show ?thesis by (simp add: eq upt_conv_Cons)
  qed
  have e: "sr_end r \<le> n" using len lt hd by simp
  have "range_indices ranges = drop (sr_end r - c) [c..<n]" using lt by (simp add: eq [symmetric] hd)
  then have "range_indices ranges = [sr_end r..<n]" using lt hd by simp
  from Cons.IH [OF this _ e] Cons.prems(2) have "validate_range_loop n (sr_end r) ranges = Ok ()" by simp
  with lt hd e show ?case unfolding validate_range_loop_Cons by simp
qed simp

text \<open>
  The selected breakpoints cut the records, in order and completely, into non-empty spans that each fit
  the cap unless all but their last record are empty, and the compression core accepts them.
\<close>

theorem breakpoints_pack:
  assumes "select_breakpoints records config = Ok ranges"
  shows "concat (map (covered records) ranges) = records
     \<and> (\<forall>r \<in> set ranges. span_packed (effective_span_bytes config) (covered records r))
     \<and> validate_ranges (length records) ranges = Ok ()"
proof -
  let ?cap = "effective_span_bytes config" and ?n = "length records"
  obtain rs st where loop: "breakpoint_loop ?cap 0 records [] 0 0 = Ok (rs, st)"
    and ranges: "ranges = (if st < ?n then rs @ [\<lparr> sr_start = st, sr_end = ?n \<rparr>] else rs)" "length ranges \<le> MAX_SPANS"
    using assms by (auto simp: select_breakpoints_def result_simps Let_def split: if_splits)
  have "packing ?cap records 0 [] 0 0" by (simp add: packing_def)
  from breakpoint_loop_packing [OF loop this] obtain used where p: "packing ?cap records ?n rs st used" by auto
  have all: "range_indices ranges = [0..<?n]" "\<forall>r \<in> set ranges. sr_start r < sr_end r \<and> span_packed ?cap (covered records r)"
  proof -
    have "covered records \<lparr> sr_start = st, sr_end = ?n \<rparr> = take (?n - st) (drop st records)" by (simp add: covered_def)
    then show "\<forall>r \<in> set ranges. sr_start r < sr_end r \<and> span_packed ?cap (covered records r)"
      using p by (auto simp: ranges packing_def)
    have "[0..<st] @ [st..<?n] = [0..<?n]" if "st < ?n" using upt_add_eq_append [of 0 st "?n - st"] that by simp
    then show "range_indices ranges = [0..<?n]" using p by (auto simp: ranges packing_def range_indices_def)
  qed
  then have v: "validate_range_loop ?n 0 ranges = Ok ()" by (intro range_indices_valid) auto
  then have "validate_ranges ?n ranges = Ok ()" using ranges(2) by (simp add: validate_ranges_def)
  moreover have "concat (map (covered records) ranges) = records"
    using covered_range_indices [OF v] by (simp add: all(1) map_nth)
  ultimately show ?thesis using all(2) by blast
qed

section \<open>Deletion\<close>

lemma set_add_tombstones: "set (add_tombstones tombs ids) = set tombs \<union> set ids"
  by (induction tombs ids rule: add_tombstones.induct) auto

lemma find_filter_absent:
  "distinct (map f xs) \<Longrightarrow> x \<in> set xs \<Longrightarrow> \<not> P x \<Longrightarrow> find (\<lambda>y. f y = f x) (filter P xs) = None"
  by (auto simp: find_None_iff distinct_map inj_on_def)

lemma find_filter_present:
  "distinct (map f xs) \<Longrightarrow> x \<in> set xs \<Longrightarrow> P x \<Longrightarrow> find (\<lambda>y. f y = f x) (filter P xs) = Some x"
  by (subst find_key_distinct) (auto intro: distinct_map_filter)

text \<open>
  C39. Deleting ids propagates: no span with a deleted source and no record with a deleted id is left, what
  was not touched still resolves to its summary, and every span that was dropped is reported absent. The
  reason given is that of an unknown span when only a source was deleted, since only the ids passed in
  are remembered.
\<close>

theorem deletion_propagates:
  assumes "distinct (map cs_span_id (cv_spans v))" "delete_ids ids v = (invalidated, v')"
  shows "(\<forall>s \<in> set (cv_spans v'). set (cs_source_ids s) \<inter> set ids = {} \<and> cs_span_id s \<notin> set ids)
     \<and> (\<forall>r \<in> set (cv_records v'). cr_id r \<notin> set ids \<and> cr_id r \<notin> set invalidated)
     \<and> (\<forall>s \<in> set (cv_spans v). resolve_summary v' (cs_span_id s) =
          (if span_hit ids s
           then Err (XE_SummaryUnavailable (cs_span_id s)
                  (if cs_span_id s \<in> set ids \<or> cs_span_id s \<in> set (cv_tombstones v)
                   then ''deleted or expired'' else ''unknown''))
           else Ok (cs_summary s)))"
proof -
  have v': "cv_spans v' = filter (\<lambda>s. \<not> span_hit ids s) (cv_spans v)"
      "cv_tombstones v' = add_tombstones (cv_tombstones v) ids"
      "cv_records v' = filter (\<lambda>r. cr_id r \<notin> set ids \<and> cr_id r \<notin> set invalidated) (cv_records v)"
    using assms(2) by (auto simp: delete_ids_def Let_def)
  have "resolve_summary v' (cs_span_id s) =
      (if span_hit ids s
       then Err (XE_SummaryUnavailable (cs_span_id s)
              (if cs_span_id s \<in> set ids \<or> cs_span_id s \<in> set (cv_tombstones v)
               then ''deleted or expired'' else ''unknown''))
       else Ok (cs_summary s))" if "s \<in> set (cv_spans v)" for s
    using find_filter_absent [OF assms(1) that, of "\<lambda>s. \<not> span_hit ids s"]
      find_filter_present [OF assms(1) that, of "\<lambda>s. \<not> span_hit ids s"]
    by (simp add: resolve_summary_def v' set_add_tombstones)
  then show ?thesis by (auto simp: v' span_hit_def list_ex_iff)
qed

section \<open>An example\<close>

definition sample_note :: "string \<Rightarrow> context_record" where
  "sample_note i =
     \<lparr> cr_id = i, cr_provider = ''git'', cr_owner = StableId ''t'', cr_generation = 1, cr_collected_at_ms = 5,
       cr_priority = CP_High, cr_summary = ''s'', cr_body = RB_Inline ''x'', cr_supersedes = None,
       cr_is_untrusted_surface = True \<rparr>"

definition sample_config :: selective_config where
  "sample_config = \<lparr> sc_window_bytes = 8192, sc_keep_recent_bytes = 1, sc_protected_ids = [],
     sc_current_generation = None, sc_previous_summary = None \<rparr>"

definition sample_script :: fake_summarizer where
  "sample_script = \<lparr> fs_scripted = [''sum''], fs_calls = 0 \<rparr>"

lemma sample_note_valid: "record_validate (sample_note i) = Ok ()"
  by (simp add: record_validate_def sample_note_def KNOWN_PROVIDERS_def MAX_SUMMARY_BYTES_def MAX_RECORD_BODY_BYTES_def)

lemma span_name_0: "span_name 0 = ''cmp-0000''"
  by code_simp

lemma sample_trim: "str_trim ''sum'' = ''sum''"
  by (subst str_trim_ascii, code_simp, code_simp)

lemma sample_window:
  "select_compaction_window [sample_note ''a'', sample_note ''b''] 1 [] None = Ok \<lparr> cw_head = [0], cw_recent = [1] \<rparr>"
  by (simp add: select_compaction_window_def MAX_CONTEXT_RECORDS_def sample_note_valid result_simps Let_def
      MIN_KEEP_RECORDS_def saturating_add_usize_def usize_max_def footprint_bytes_def)
     (simp add: sample_note_def)

definition sample_log :: "context_record list" where
  "sample_log = [sample_note ''a'', sample_note ''b'']"

definition sample_view :: compressed_view where
  "sample_view =
     \<lparr> cv_records = [synthetic_of 9 ''cmp-0000'' [sample_note ''a''] ''sum'', sample_note ''b''],
       cv_spans = [span_of [] 9 ''cmp-0000'' [sample_note ''a''] ''sum''], cv_tombstones = [], cv_tags = [] \<rparr>"

lemma sample_ids: "cr_id (sample_note i) = i"
  by (simp add: sample_note_def)

lemma sample_span_loop:
  "span_loop fake_summarize sample_log [] 9 0 [\<lparr> sr_start = 0, sr_end = 1 \<rparr>] (Some None) sample_script =
     (Ok [(span_of [] 9 ''cmp-0000'' [sample_note ''a''] ''sum'', synthetic_of 9 ''cmp-0000'' [sample_note ''a''] ''sum'')],
      sample_script\<lparr>fs_calls := 1\<rparr>)"
  by (simp add: span_name_0 MAX_SPAN_ID_LEN_def sample_log_def sample_ids covered_def fake_summarize_def
      sample_script_def sample_trim MAX_SUMMARY_BYTES_def Let_def)

lemma sample_compress:
  "compress_ranges_impl sample_log [\<lparr> sr_start = 0, sr_end = 1 \<rparr>] fake_summarize [] 9 None (Some None) sample_script
     = (Ok sample_view, sample_script\<lparr>fs_calls := 1\<rparr>)"
proof -
  have len: "length sample_log = 2" by (simp add: sample_log_def)
  have valid: "check_all (\<lambda>r. map_err XE_Context (record_validate r)) sample_log = Ok ()"
    by (simp add: sample_log_def sample_note_valid result_simps)
  have view: "view_loop sample_log 0 [(\<lparr> sr_start = 0, sr_end = 1 \<rparr>, s)] = [s, sample_note ''b'']" for s
    by (subst view_loop_parts) (simp_all add: range_is_empty_def len, simp add: sample_log_def upt_rec numeral_2_eq_2)
  have "validate_ranges 2 [\<lparr> sr_start = 0, sr_end = 1 \<rparr>] = Ok ()"
    by (simp add: validate_ranges_def MAX_SPANS_def range_is_empty_def)
  then show ?thesis
    by (simp add: compress_ranges_impl_def valid len MAX_CONTEXT_RECORDS_def check_range_generations_def
        sample_span_loop [unfolded One_nat_def] view [unfolded One_nat_def] sample_view_def del: span_loop.simps)
qed

lemma sample_compacts:
  "compact_selective sample_log sample_config fake_summarize [] 9 sample_script
     = (CO_Compacted 1 sample_view, sample_script\<lparr>fs_calls := 1\<rparr>)"
proof -
  have "head_footprint sample_log [0] = 2"
    by (simp add: head_footprint_def sample_log_def footprint_bytes_def sample_note_def saturating_add_usize_def usize_max_def)
  then show ?thesis
    using sample_compress sample_window
    by (simp add: compact_selective_def sample_config_def Let_def saturating_add_usize_def usize_max_def
        MAX_SUMMARY_BYTES_def sample_log_def [symmetric]) (simp add: sample_view_def)
qed

theorem compaction_keeps_tail_witness:
  "compact_selective sample_log sample_config fake_summarize [] 9 sample_script
     = (CO_Compacted 1 sample_view, sample_script\<lparr>fs_calls := 1\<rparr>)
   \<and> filter (\<lambda>r. cr_id r \<notin> cs_span_id ` set (cv_spans sample_view)) (cv_records sample_view) = [sample_note ''b'']"
proof -
  from compaction_keeps_tail [OF sample_compacts] obtain win where
    win: "select_compaction_window sample_log 1 [] None = Ok win"
      "filter (\<lambda>r. cr_id r \<notin> cs_span_id ` set (cv_spans sample_view)) (cv_records sample_view) = map ((!) sample_log) (cw_recent win)"
    by (auto simp: sample_config_def)
  then have "cw_recent win = [1]" using sample_window by (simp add: sample_log_def)
  with win(2) sample_compacts show ?thesis by (simp add: sample_log_def)
qed

theorem chained_compaction_refused_witness:
  "compact_selective sample_log sample_config fake_summarize [] 9 sample_script
     = (CO_Compacted 1 sample_view, sample_script\<lparr>fs_calls := 1\<rparr>)
   \<and> fst (compact_selective (cv_records sample_view @ [sample_note ''c'']) sample_config fake_summarize [] 9 sample_script)
       \<noteq> CO_Compacted 1 sample_view"
  by (intro conjI, rule sample_compacts, rule chained_compaction_refused [OF sample_compacts])

text \<open>
  C38. Compression never escalates: each span records exactly the ids of the records it covers; its synthetic
  record is valid, evicts nothing, is untrusted exactly when a source is and ranks no higher than any
  source; its retention class is that of a source, at least as restrictive as every source, and its expiry
  counts from the earliest source. Under a policy that keeps no class longer than a less restrictive one
  the summary has therefore expired as soon as one of its sources would have. The code accepts other
  policies too, and for each of them there are valid records whose summary outlives one of them.
\<close>

theorem compression_never_escalates:
  assumes "compress_ranges_impl records ranges f tags now gen prev w = (Ok v, w')" "s \<in> set (cv_spans v)"
  shows "(\<exists>r \<in> set ranges. covered records r \<noteq> [] \<and> span_honest tags (covered records r) v s
        \<and> (\<forall>p at. ordered_policy p \<longrightarrow> (\<exists>c \<in> set (covered records r). record_over p at tags c) \<longrightarrow> span_over p at s))
     \<and> (\<forall>p. \<not> ordered_policy p \<longrightarrow>
          (\<exists>tags cov at. (\<forall>c \<in> set cov. record_validate c = Ok ()) \<and> (\<exists>c \<in> set cov. record_over p at tags c)
             \<and> (\<forall>now i t. \<not> span_over p at (span_of tags now i cov t))))"
  using compress_span_honest [OF assms] unordered_policy_outlives by blast

theorem compression_never_escalates_witness:
  "\<exists>s \<in> set (cv_spans sample_view). span_honest [] [sample_note ''a''] sample_view s
     \<and> ordered_policy retention_policy_default \<and> record_over retention_policy_default 3600006 [] (sample_note ''a'')
     \<and> span_over retention_policy_default 3600006 s"
proof -
  let ?s = "span_of [] 9 ''cmp-0000'' [sample_note ''a''] ''sum''"
  have s: "?s \<in> set (cv_spans sample_view)" by (simp add: sample_view_def)
  have ord: "ordered_policy retention_policy_default"
    by (simp add: ordered_policy_def retention_policy_default_def ttl_within_def)
  have r: "record_over retention_policy_default 3600006 [] (sample_note ''a'')"
    by (simp add: record_over_def over_ttl_def tags_get_def retention_policy_default_def sample_note_def saturating_sub_def)
  from compression_never_escalates [OF sample_compress s] s ord r show ?thesis
    by (intro bexI [of _ ?s]) (auto simp: covered_def sample_log_def)
qed

definition sample_policy :: compaction_policy where
  "sample_policy = compaction_policy_default\<lparr>cp_window_bytes := 8192, cp_keep_recent_bytes := 1\<rparr>"

theorem preview_agrees_witness:
  "pv_outcome (preview_compaction [] sample_policy [] None) = PO_NoOp
   \<and> compact_selective [] (selective_config_from_policy sample_policy) fake_summarize [] 9 sample_script = (CO_NoOp, sample_script)"
proof -
  have valid: "compaction_policy_validate sample_policy = Ok ()"
    by (simp add: compaction_policy_validate_def sample_policy_def compaction_policy_default_def
        RESERVE_FRACTION_DENOMINATOR_def RESERVE_FRACTION_NUMERATOR_def DEFAULT_MAX_INEFFECTIVE_STRIKES_def
        MAX_INEFFECTIVE_STRIKES_def)
  then have p: "pv_outcome (preview_compaction [] sample_policy [] None) = PO_NoOp"
    by (simp add: preview_compaction_def select_compaction_window_def Let_def)
  have "selective_config_from_policy sample_policy
      = (selective_config_from_policy sample_policy)\<lparr>sc_protected_ids := [], sc_current_generation := None\<rparr>"
    by (simp add: selective_config_from_policy_def)
  from preview_agrees [OF valid this, where records = "[]"] p show ?thesis by simp
qed

theorem breakpoints_pack_witness:
  "\<exists>ranges. select_breakpoints sample_log \<lparr> cc_max_span_bytes = 3, cc_max_span_tokens = None \<rparr> = Ok ranges
     \<and> length ranges = 2 \<and> concat (map (covered sample_log) ranges) = sample_log"
proof -
  let ?r = "[\<lparr> sr_start = 0, sr_end = 1 \<rparr>, \<lparr> sr_start = 1, sr_end = 2 \<rparr>]"
  have "select_breakpoints sample_log \<lparr> cc_max_span_bytes = 3, cc_max_span_tokens = None \<rparr> = Ok ?r"
    by (simp add: select_breakpoints_def compression_config_validate_def effective_span_bytes_def sample_log_def
        footprint_bytes_def sample_note_def MAX_SPANS_def Let_def)
  with breakpoints_pack [OF this] show ?thesis by (intro exI [of _ ?r]) simp
qed

theorem deletion_propagates_witness:
  "\<exists>invalidated v'. delete_ids [''a''] sample_view = (invalidated, v')
     \<and> resolve_summary v' ''cmp-0000'' = Err (XE_SummaryUnavailable ''cmp-0000'' ''unknown'')"
proof -
  let ?s = "span_of [] 9 ''cmp-0000'' [sample_note ''a''] ''sum''"
  have d: "distinct (map cs_span_id (cv_spans sample_view))" by (simp add: sample_view_def)
  obtain inv v' where v': "delete_ids [''a''] sample_view = (inv, v')" by fastforce
  have "?s \<in> set (cv_spans sample_view)" "span_hit [''a''] ?s" "cs_span_id ?s = ''cmp-0000''" "cv_tombstones sample_view = []"
    by (simp_all add: sample_view_def span_hit_def span_of_def sample_note_def)
  with deletion_propagates [OF d v'] v' show ?thesis by auto
qed

end
