(* ===== verification/Secret.thy ===== *)
theory Secret
  imports Reasons
begin

text \<open>
  Secret values and their removal from diagnostic text (\<open>bitty-ai-runtime/src/secret.rs\<close>). The secret
  is a non-empty byte list; scrubbing replaces its occurrences from left to right by a fixed marker.
\<close>

section \<open>Secrets\<close>

definition MAX_SECRET_LEN :: nat where
  "MAX_SECRET_LEN = 4 * 1024"

definition SECRET_REDACTED :: string where
  "SECRET_REDACTED = ''[redacted secret]''"

datatype secret_error = SCE_Empty | SCE_TooLong nat

datatype secret_field = SecretField (secret_bytes: bytes)

definition secret_new :: "bytes \<Rightarrow> (secret_field, secret_error) result" where
  "secret_new v =
     (if v = [] then Err SCE_Empty
      else if length v > MAX_SECRET_LEN then Err (SCE_TooLong MAX_SECRET_LEN)
      else Ok (SecretField v))"

definition secret_from_string :: "string \<Rightarrow> (secret_field, secret_error) result" where
  "secret_from_string v = secret_new v"

definition expose_for_adapter :: "secret_field \<Rightarrow> bytes" where
  "expose_for_adapter s = secret_bytes s"

text \<open>\<open>windows(n)\<close>: all pieces of that length.\<close>

fun windows :: "nat \<Rightarrow> 'a list \<Rightarrow> 'a list list" where
  "windows n [] = (if n = 0 then [[]] else [])"
| "windows n (x # xs) = (if length (x # xs) < n then [] else take n (x # xs) # windows n xs)"

definition is_absent_from :: "secret_field \<Rightarrow> string \<Rightarrow> bool" where
  "is_absent_from s haystack =
     (let needle = secret_bytes s in
      if needle = [] then True
      else if length haystack < length needle then True
      else list_all (\<lambda>w. w \<noteq> needle) (windows (length needle) haystack))"

text \<open>Replacement of the occurrences of a non-empty needle from left to right, as \<open>str::replace\<close> and
  the byte loop both do it.\<close>

function replace_all :: "bytes \<Rightarrow> bytes \<Rightarrow> bytes \<Rightarrow> bytes" where
  "replace_all needle marker haystack =
     (if needle = [] \<or> haystack = [] then haystack
      else case strip_prefix needle haystack of
        Some rest \<Rightarrow> marker @ replace_all needle marker rest
      | None \<Rightarrow> hd haystack # replace_all needle marker (tl haystack))"
  by pat_completeness auto
termination
  by (relation "measure (\<lambda>(_, _, h). length h)") (auto simp: strip_prefix_Some_iff)

declare replace_all.simps [simp del]

definition scrub_from :: "secret_field \<Rightarrow> string \<Rightarrow> string" where
  "scrub_from s haystack =
     (let needle = secret_bytes s in
      if valid_utf8 needle then replace_all needle SECRET_REDACTED haystack
      else if needle = [] then haystack
      else (let scrubbed = replace_all needle SECRET_REDACTED haystack
            in if valid_utf8 scrubbed then scrubbed else SECRET_REDACTED))"

definition secret_debug :: "secret_field \<Rightarrow> string" where
  "secret_debug s = ''SecretField('' @ [CHR 0x22] @ SECRET_REDACTED @ [CHR 0x22] @ '')''"

definition secret_display :: "secret_field \<Rightarrow> string" where
  "secret_display s = SECRET_REDACTED"

section \<open>Absence\<close>

lemma in_windows_iff: "n > 0 \<Longrightarrow> w \<in> set (windows n xs) \<longleftrightarrow> length w = n \<and> sublist w xs"
proof (induction xs)
  case (Cons x xs)
  have long: "\<not> sublist w (x # xs)" if "length w = n" "length (x # xs) < n"
    using that by (metis leD sublist_length_le)
  have "sublist w (x # xs) \<longleftrightarrow> w = take n (x # xs) \<or> sublist w xs" if "length w = n"
    using that by (auto simp: sublist_Cons_right prefix_def) (metis append_take_drop_id)
  with Cons long show ?case by auto
qed auto

lemma is_absent_from_iff: "secret_bytes s \<noteq> [] \<Longrightarrow> is_absent_from s h \<longleftrightarrow> \<not> sublist (secret_bytes s) h"
  by (auto simp: is_absent_from_def Let_def list_all_iff in_windows_iff dest: sublist_length_le)

section \<open>Scrubbing\<close>

text \<open>The secret and the marker do not overlap: neither contains the other, no end of the marker starts
  the secret and no start of the marker ends it.\<close>

definition marker_free :: "bytes \<Rightarrow> bytes \<Rightarrow> bool" where
  "marker_free s m \<longleftrightarrow>
     \<not> contains_str s m \<and> \<not> contains_str m s
     \<and> list_all (\<lambda>k. \<not> prefix (drop k m) s) [0..<length m]
     \<and> list_all (\<lambda>k. \<not> suffix (take (Suc k) m) s) [0..<length m]"

lemma replace_all_Cons:
  "needle \<noteq> [] \<Longrightarrow> \<not> prefix needle (c # h) \<Longrightarrow> replace_all needle m (c # h) = c # replace_all needle m h"
  by (subst replace_all.simps) (simp add: strip_prefix_None_iff [symmetric] split: option.splits)

lemma replace_all_match:
  "needle \<noteq> [] \<Longrightarrow> replace_all needle m (needle @ h) = m @ replace_all needle m h"
proof -
  assume "needle \<noteq> []"
  moreover have "strip_prefix needle (needle @ h) = Some h" by (simp add: strip_prefix_Some_iff)
  ultimately show ?thesis by (subst replace_all.simps) simp
qed

lemma replace_all_induct [case_names Nil match other]:
  assumes "needle \<noteq> []" "P []" "\<And>h. P h \<Longrightarrow> P (needle @ h)"
    "\<And>c h. \<not> prefix needle (c # h) \<Longrightarrow> P h \<Longrightarrow> P (c # h)"
  shows "P h"
proof (induction h rule: length_induct)
  case (1 h)
  show ?case
  proof (cases h)
    case (Cons c t)
    show ?thesis
    proof (cases "prefix needle h")
      case True
      then obtain r where r: "h = needle @ r" by (auto simp: prefix_def)
      with 1 assms(1) have "P r" by simp
      with assms(3) r show ?thesis by simp
    next
      case False
      with 1 Cons assms(4) show ?thesis by simp
    qed
  qed (use assms(2) in simp)
qed

lemma replace_all_Nil [simp]: "replace_all needle m [] = []"
  by (subst replace_all.simps) simp

text \<open>A proper end of the secret that starts the scrubbed text started the text itself.\<close>

lemma prefix_scrubbed:
  assumes "marker_free s m" "s \<noteq> []"
  shows "suffix t s \<Longrightarrow> prefix t (replace_all s m h) \<Longrightarrow> prefix t h"
proof (induction h arbitrary: t rule: replace_all_induct [OF assms(2)])
  case (2 h)
  show ?case
  proof (cases "t = []")
    case False
    have "prefix t m \<or> prefix m t"
      using 2(3) unfolding replace_all_match [OF assms(2)] by (auto simp: prefix_append)
    then show ?thesis
    proof
      assume "prefix t m"
      then have t: "t = take (length t) m" "length t \<le> length m" by (auto simp: prefix_def)
      obtain k where k: "length t = Suc k" using False by (cases t) auto
      have "k \<in> set [0..<length m]" "suffix (take (Suc k) m) s" using t k 2(2) by auto
      with assms(1) show ?thesis by (auto simp: marker_free_def list_all_iff)
    next
      assume "prefix m t"
      with 2(2) have "sublist m s" by (meson prefix_imp_sublist sublist_order.order_trans suffix_imp_sublist)
      with assms(1) show ?thesis by (simp add: marker_free_def contains_str_iff)
    qed
  qed simp
next
  case (3 c h)
  then show ?case
    by (cases t) (auto simp: replace_all_Cons [OF assms(2)] intro: suffix_ConsD)
qed simp


lemma overlap_scrubbed:
  assumes "marker_free s m" "\<not> sublist s r" "suffix m' m"
  shows "\<not> sublist s (m' @ r)"
  using assms(3)
proof (induction m')
  case (Cons c m')
  then have IH: "\<not> sublist s (m' @ r)" and "suffix (c # m') m" by (auto intro: suffix_ConsD)
  then obtain k where k: "c # m' = drop k m" "k < length m"
    by (metis append_eq_conv_conj length_Cons length_append less_add_same_cancel1 suffix_def zero_less_Suc)
  have "\<not> prefix s (c # m' @ r)"
  proof
    assume "prefix s (c # m' @ r)"
    then have "prefix s (c # m') \<or> prefix (c # m') s" by (metis append_Cons prefix_append prefixI)
    then show False
    proof
      assume "prefix s (c # m')"
      with \<open>suffix (c # m') m\<close> have "sublist s m"
        by (meson prefix_imp_sublist sublist_order.order_trans suffix_imp_sublist)
      with assms(1) show False by (simp add: marker_free_def contains_str_iff)
    next
      assume "prefix (c # m') s"
      with assms(1) k show False by (auto simp: marker_free_def list_all_iff)
    qed
  qed
  with IH show ?case by (simp add: sublist_Cons_right)
qed (use assms(2) in simp)

lemma not_sublist_scrubbed:
  assumes "marker_free s m" "s \<noteq> []"
  shows "\<not> sublist s (replace_all s m h)"
proof (induction h rule: replace_all_induct [OF assms(2)])
  case 1
  with assms(2) show ?case by simp
next
  case (2 h)
  show ?case
    unfolding replace_all_match [OF assms(2)]
    by (rule overlap_scrubbed [OF assms(1) 2]) simp
next
  case (3 c h)
  have "\<not> prefix s (c # replace_all s m h)"
  proof
    assume *: "prefix s (c # replace_all s m h)"
    with assms(2) obtain t where t: "s = c # t" "prefix t (replace_all s m h)" by (cases s) auto
    then have "prefix t h" by (intro prefix_scrubbed [OF assms _ t(2)]) (simp add: suffix_Cons)
    with t(1) 3(1) show False by simp
  qed
  with 3 show ?case by (simp add: replace_all_Cons [OF assms(2)] sublist_Cons_right)
qed

lemma replace_all_absent: "s \<noteq> [] \<Longrightarrow> \<not> sublist s h \<Longrightarrow> replace_all s m h = h"
  by (induction h) (simp_all add: replace_all_Cons sublist_Cons_right)

lemma secret_new_Ok: "secret_new v = Ok s \<longleftrightarrow> s = SecretField v \<and> v \<noteq> [] \<and> length v \<le> MAX_SECRET_LEN"
  by (auto simp: secret_new_def)

text \<open>
  C36. Scrubbing removes a secret: for every accepted secret that does not overlap the redaction marker,
  no occurrence of its bytes is left in the scrubbed text, whichever of the two scanning paths ran, and
  a text that holds no occurrence is returned as it was. The condition on the marker is not checked by
  the code and is needed: the secret \<open>]x\<close> is still present after scrubbing \<open>]xx\<close>.
\<close>

theorem scrub_removes_secret:
  assumes "secret_new v = Ok s"
  shows "(marker_free v SECRET_REDACTED \<longrightarrow> is_absent_from s (scrub_from s h))
    \<and> (valid_utf8 h \<longrightarrow> is_absent_from s h \<longrightarrow> scrub_from s h = h)
    \<and> (let leaky = SecretField '']x''
       in secret_new '']x'' = Ok leaky \<and> \<not> is_absent_from leaky (scrub_from leaky '']xx''))"
proof (intro conjI impI)
  have s: "s = SecretField v" "v \<noteq> []" using assms by (simp_all add: secret_new_Ok)
  show "is_absent_from s (scrub_from s h)" if "marker_free v SECRET_REDACTED"
  proof -
    have "\<not> sublist v SECRET_REDACTED" using that by (simp add: marker_free_def contains_str_iff)
    then show ?thesis
      using not_sublist_scrubbed [OF that s(2)] s
      by (simp add: is_absent_from_iff scrub_from_def Let_def)
  qed
  show "scrub_from s h = h" if "valid_utf8 h" "is_absent_from s h"
    using that s by (simp add: is_absent_from_iff scrub_from_def Let_def replace_all_absent)
  have "replace_all '']x'' SECRET_REDACTED ''x'' = ''x''"
    by (rule replace_all_absent) (simp_all add: sublist_Cons_right)
  then have "replace_all '']x'' SECRET_REDACTED '']xx'' = SECRET_REDACTED @ ''x''"
    using replace_all_match [of "'']x''" SECRET_REDACTED "''x''"] by simp
  then have "scrub_from (SecretField '']x'') '']xx'' = SECRET_REDACTED @ ''x''"
    by (simp add: scrub_from_def valid_utf8_ascii)
  moreover have "\<not> is_absent_from (SecretField '']x'') (SECRET_REDACTED @ ''x'')" by code_simp
  moreover have "secret_new '']x'' = Ok (SecretField '']x'')" by (simp add: secret_new_Ok MAX_SECRET_LEN_def)
  ultimately show "let leaky = SecretField '']x''
      in secret_new '']x'' = Ok leaky \<and> \<not> is_absent_from leaky (scrub_from leaky '']xx'')"
    by (simp add: Let_def)
qed

theorem scrub_removes_secret_witness:
  "secret_new ''key-42'' = Ok (SecretField ''key-42'') \<and> marker_free ''key-42'' SECRET_REDACTED
    \<and> is_absent_from (SecretField ''key-42'') (scrub_from (SecretField ''key-42'') ''auth key-42 refused'')"
proof -
  have a: "secret_new ''key-42'' = Ok (SecretField ''key-42'')"
    by (simp add: secret_new_Ok MAX_SECRET_LEN_def)
  have b: "marker_free ''key-42'' SECRET_REDACTED" by code_simp
  show ?thesis
    by (rule conjI [OF a conjI [OF b scrub_removes_secret [OF a, THEN conjunct1, THEN mp, OF b]]])
qed

end
