(* ===== verification/Spec2Isabelle.thy ===== *)
theory Spec2Isabelle
  imports Session Streaming Bridge Context_Theorems Tool_Bus Selection Prompt_Canonical Agent_Reconcile Sse Control_Theorems
    Prompt_Loading Cache_Key Fallback Adoption Compression_Theorems Secret
begin

text \<open>
  A verification development for the AI subsystem of the Bitty terminal: the single-agent runtime
  (\<open>crates/bitty-ai-runtime\<close>) and the helper side of the control transport (\<open>crates/bitty-ai-control\<close>).
  Paths below are relative to the \<open>src\<close> directory of the crate.

  \<^bold>\<open>The program.\<close> An agent runs turns of a session. A turn assembles a prompt from five layers, collects bounded
  context, asks a provider for text and tool calls, streams the text in fragments, and dispatches the calls over a
  tool bus that checks authorization, consent and budgets before it contacts an executor. Effects whose outcome is
  unknown are carried over turns until they are reconciled, or adopted by a supervisor after a crash. Context that
  outgrows its window is compressed. The helper process receives a launch manifest, frames control records over a
  stream, and runs the state machine that publishes and binds provider tuples.

  \<^bold>\<open>Conventions.\<close> \<open>Prelude\<close> has Rust's \<open>Result\<close> with its propagation (\<open>and_then\<close>, \<open>map_err\<close>, the collection
  \<open>result_simps\<close>), the machine integers (\<open>u32\<close> and \<open>u64\<close> as words, \<open>usize\<close> as natural numbers under \<open>usize_max\<close>
  with saturation written out) and generic lemmas. \<open>Rust_Text\<close> and \<open>Rust_Parse\<close> model what the sources use of the
  string library: strings and byte vectors are lists of characters read as bytes, with UTF-8 decoding, splitting,
  trimming and number parsing. \<open>Reasons\<close> has the bounded printable rendering of diagnostics. A method that mutates
  its receiver returns the changed record; errors and panics are values; a map with ordered keys is a sorted
  association list. Traits of the host (provider, executor, sink, reconciler, registry, random source, stream,
  summarizer, certificate check) are parameters that return a changed world, so a theorem holds for all of them.

  \<^bold>\<open>Sessions, streams and identity.\<close>
  \<^item> \<open>Session\<close>: \<open>session.rs\<close> and \<open>fencing.rs\<close>. The shared handle is a record passed along; any calls by any holder
    are a step relation. Terminal states are final, ids never repeat, a lease taken before a rotation is refused.
  \<^item> \<open>Streaming\<close>: \<open>stream.rs\<close>. Fragmenting terminates, cuts at character boundaries within the bounds, and delivers
    the text exactly. Sinks are the locales \<open>stream_sink\<close> and \<open>lossless_sink\<close>.
  \<^item> \<open>Bridge\<close>: \<open>bridge.rs\<close>. The grant vector refines a partial function from exact triples to expiries; the locales
    \<open>consent_check\<close> and \<open>consent_store\<close> are what the bus relies on. The two resolutions of the binding are inverse.

  \<^bold>\<open>Tools.\<close>
  \<^item> \<open>Tool_Spec\<close> and \<open>Tool_Bus\<close>: \<open>tool.rs\<close>. The executor is contacted exactly when every gate admits the call; every
    returned record is attributed and bounded and has one usage event. Executors are the locale \<open>logging_executor\<close>.

  \<^bold>\<open>Context.\<close>
  \<^item> \<open>Artifacts\<close>, \<open>Context_Assembly\<close>, \<open>Context_Theorems\<close>: \<open>context.rs\<close>. Assembly is atomic on error, stays within
    the budget, accounts for every record, keeps contents, and omits only for priority.
  \<^item> \<open>Compression\<close>, \<open>Compression_Theorems\<close>: \<open>compression.rs\<close>. Summaries replace exactly their ranges and never
    gain trust, priority or retention class; a compaction pass keeps the recent and protected records.

  \<^bold>\<open>Prompts, models and providers.\<close>
  \<^item> \<open>Prompt\<close>, \<open>Prompt_Canonical\<close>, \<open>Prompt_Loaders\<close>, \<open>Prompt_Loading\<close>: \<open>prompt.rs\<close>. Layers only narrow, their order
    does not matter, directives resolve by precedence, the canonical bytes determine the prompt, project paths stay
    under their roots, and the loaders return exactly the declared merge and only well-formed layers.
  \<^item> \<open>Cache_Key\<close>: \<open>cache_key.rs\<close> and \<open>fingerprint.rs\<close>. The key covers exactly the stable sections.
  \<^item> \<open>Provider\<close> and \<open>Selection\<close>: \<open>provider.rs\<close> and \<open>selection.rs\<close>. \<open>Sse\<close>: \<open>sse.rs\<close>, whose parser does not show chunk
    boundaries except where a maximal line is split between CR and LF.

  \<^bold>\<open>The turn.\<close>
  \<^item> \<open>Screen\<close>, \<open>Agent\<close>: \<open>agent.rs\<close> with every early return. \<open>Agent_Walk\<close> takes the steps of a turn through a
    weakest-precondition transformer in the locale \<open>turn_world\<close>, whose parameters are the environment and an
    invariant of the world; \<open>Agent_Theorems\<close> interprets it on the model with the invariant each result needs: honest
    outcomes, attributed contacts, kept unresolved effects, and termination.
  \<^item> \<open>Reconcile\<close>, \<open>Agent_Reconcile\<close>: \<open>reconcile.rs\<close> and \<open>Agent::reconcile_unknown\<close>, with the locale
    \<open>logging_reconciler\<close>; \<open>Adoption\<close>: \<open>adoption.rs\<close>; \<open>Fallback\<close>: \<open>fallback.rs\<close>; \<open>Secret\<close>: \<open>secret.rs\<close>.

  \<^bold>\<open>The control helper.\<close>
  \<^item> \<open>Control_Manifest\<close>: \<open>manifest.rs\<close>. The parser accepts exactly the encodings of valid manifests; each field is an
    instance of the locale \<open>field_codec\<close>, and so is their composition.
  \<^item> \<open>Control_Framing\<close>: \<open>framing.rs\<close>. Records arrive whole and in order through partial writes, interruptions and
    any pieces on the reading side.
  \<^item> \<open>Control_State\<close>, \<open>Control_Theorems\<close>: \<open>state.rs\<close>. Phase and authority always agree, failures revoke for good, and a
    receipt is issued only for an exact bind.

  \<^bold>\<open>Termination and bounds.\<close> Structural recursion and measures suffice for the loops over data. The turn is a recursion
  over the rounds that the configuration leaves; that it returns is proved. The loop that cuts text into fragments
  and the loops that read from and write to a stream need not end in general, so they are partial functions into
  \<open>option\<close>; that they return is proved for well-formed text and for streams that keep flowing. No definition uses fuel. Limits of the sources keep their names and values. Counters that the
  sources increment without a check wrap as in a build without overflow checks; the properties that depend on this
  bound the number of steps.

  \<^bold>\<open>Not modelled.\<close> Text of \<open>Debug\<close> and \<open>Display\<close> except where code returns it; the estimates of reasoning budgets in
  floating point; TLS, sockets and process start of the helper; SHA-256 and the record codec of the protocol crate,
  which are parameters. The storage crates (\<open>bitty-ai-session\<close> and the task graph, kernel, merge and journal of
  \<open>bitty-ai-slice\<close>) consist of SQL statements whose meaning rests on SQLite's transactions and failures; the network,
  host and MCP crates are wiring around sockets, child processes, clocks and crates that are not part of the
  sources; \<open>bitty-ai-host\<close> mirrors types and checks of the runtime; the request handlers of \<open>bitty-ai-endpoint\<close>
  work on the types of external protocol crates. None of these is covered here.
\<close>

end
